(* ===== verification/Prelude.thy ===== *)
theory Prelude
  imports Main "HOL-Library.Word" "HOL-Library.Signed_Division"
    "HOL-Library.List_Lexorder" "HOL-Library.Char_ord"
begin

text \<open>
  What every component of the development shares: the collections of simplification rules,
  the C++ integer conversions, C strings, the standard containers \<open>std::set\<close> and \<open>std::map\<close>
  in their iteration order, and the result type of operations that can fail.
\<close>

named_theorems heap_simps \<open>reading an object back after a write to the store\<close>
named_theorems frame_simps \<open>what an operation leaves as it was\<close>

section \<open>Machine integers\<close>

text \<open>
  A signed 32-bit \<open>int\<close> is a mathematical integer that is brought back into range by
  \<open>to_int32\<close> where the source assigns a wider value to it; a \<open>size_t\<close> is a natural number
  below \<open>2^64\<close>, and \<open>to_size_t\<close> is the conversion from a signed value.
\<close>

definition to_int32 :: "int \<Rightarrow> int" where
  "to_int32 x = signed_take_bit 31 x"

definition to_size_t :: "int \<Rightarrow> nat" where
  "to_size_t x = nat (x mod 2 ^ 64)"

lemma to_int32_id: "- (2 ^ 31) \<le> x \<Longrightarrow> x < 2 ^ 31 \<Longrightarrow> to_int32 x = x"
  by (simp add: to_int32_def signed_take_bit_int_eq_self)

lemma to_size_t_nonneg: "0 \<le> x \<Longrightarrow> x < 2 ^ 64 \<Longrightarrow> to_size_t x = nat x"
  by (simp add: to_size_t_def)

section \<open>C strings\<close>

definition NUL :: char where
  "NUL = CHR 0x00"

text \<open>The characters of \<open>s.c_str()\<close> up to its terminator.\<close>

definition c_str :: "string \<Rightarrow> string" where
  "c_str s = takeWhile (\<lambda>c. c \<noteq> NUL) s"

text \<open>
  \<open>strncpy\<close> into a fresh array of \<open>n\<close> characters: at most \<open>n\<close> characters are copied and the
  rest is filled with zeros; there is no terminator when the string does not fit.
\<close>

definition strncpy :: "nat \<Rightarrow> string \<Rightarrow> string" where
  "strncpy n s = take n (c_str s) @ replicate (n - length (c_str s)) NUL"

lemma length_strncpy [simp]: "length (strncpy n s) = n"
  by (simp add: strncpy_def)

lemma c_str_no_NUL: "NUL \<notin> set s \<Longrightarrow> c_str s = s"
  by (auto simp: c_str_def takeWhile_eq_all_conv)

lemma NUL_notin_c_str [simp]: "NUL \<notin> set (c_str s)"
  by (auto simp: c_str_def dest: set_takeWhileD)

lemma c_str_idem [simp]: "c_str (c_str s) = c_str s"
  by (simp add: c_str_no_NUL)

lemma c_str_append_NUL: "NUL \<notin> set s \<Longrightarrow> c_str (s @ replicate k NUL) = s"
  by (cases k) (auto simp: c_str_def takeWhile_append takeWhile_eq_all_conv)

lemma c_str_strncpy:
  assumes "length (c_str s) \<le> n"
  shows "c_str (strncpy n s) = c_str s"
  using assms by (simp add: strncpy_def c_str_append_NUL)

lemma c_str_Nil_iff: "c_str s = [] \<longleftrightarrow> s = [] \<or> hd s = NUL"
  by (cases s) (auto simp: c_str_def)

text \<open>The conversion \<open>%d\<close>.\<close>

definition digit :: "nat \<Rightarrow> char" where
  "digit d = char_of (48 + d)"

fun decimal_nat :: "nat \<Rightarrow> string" where
  "decimal_nat n = (if n < 10 then [digit n] else decimal_nat (n div 10) @ [digit (n mod 10)])"

definition decimal :: "int \<Rightarrow> string" where
  "decimal i = (if i < 0 then CHR ''-'' # decimal_nat (nat (- i)) else decimal_nat (nat i))"

text \<open>A text in quotes.\<close>

definition quoted :: "string \<Rightarrow> string" where
  "quoted s = CHR 0x27 # s @ [CHR 0x27]"

declare decimal_nat.simps [simp del]

lemma digit_inject: "a < 10 \<Longrightarrow> b < 10 \<Longrightarrow> digit a = digit b \<longleftrightarrow> a = b"
proof -
  assume "a < 10" "b < 10"
  then have "of_char (digit a) = 48 + a" "of_char (digit b) = 48 + b"
    by (simp_all add: digit_def)
  then show ?thesis by (metis add_left_cancel)
qed

lemma decimal_nat_nonempty [simp]: "decimal_nat n \<noteq> []" "[] \<noteq> decimal_nat n"
  by (subst decimal_nat.simps; simp)+

lemma decimal_nat_inject: "decimal_nat a = decimal_nat b \<longleftrightarrow> a = b"
proof (induction a arbitrary: b rule: decimal_nat.induct)
  case (1 a)
  have "a = b" if eq: "decimal_nat a = decimal_nat b"
  proof (cases "a < 10")
    case True
    then show ?thesis
      using eq by (cases "b < 10") (auto simp: decimal_nat.simps [of a] decimal_nat.simps [of b] digit_inject)
  next
    case False
    then have "\<not> b < 10" using eq by (auto simp: decimal_nat.simps [of a] decimal_nat.simps [of b])
    then have "a div 10 = b div 10" "a mod 10 = b mod 10"
      using eq False 1 by (simp_all add: decimal_nat.simps [of a] decimal_nat.simps [of b] digit_inject)
    then show ?thesis by (metis div_mult_mod_eq)
  qed
  then show ?case by blast
qed

lemma digit_range: "d < 10 \<Longrightarrow> 48 \<le> (of_char (digit d) :: nat) \<and> (of_char (digit d) :: nat) < 58"
  by (simp add: digit_def)

lemma decimal_nat_digits: "c \<in> set (decimal_nat n) \<Longrightarrow> 48 \<le> (of_char c :: nat) \<and> (of_char c :: nat) < 58"
proof (induction n rule: decimal_nat.induct)
  case (1 n)
  show ?case
  proof (cases "n < 10")
    case True
    then show ?thesis using 1(2) digit_range by (simp add: decimal_nat.simps [of n])
  next
    case False
    then have "c \<in> set (decimal_nat (n div 10)) \<or> c = digit (n mod 10)"
      using 1(2) by (auto simp: decimal_nat.simps [of n])
    then show ?thesis using 1(1) False digit_range [of "n mod 10"] by auto
  qed
qed

section \<open>Sets ordered by their keys\<close>

text \<open>
  A \<open>std::set\<close> is kept as the strictly increasing list of its elements, which is the order its
  iterators visit them in.
\<close>

definition set_insert :: "'a::linorder \<Rightarrow> 'a list \<Rightarrow> 'a list" where
  "set_insert x xs = insort_insert x xs"

definition set_difference :: "'a list \<Rightarrow> 'a list \<Rightarrow> 'a list" where
  "set_difference xs ys = filter (\<lambda>x. x \<notin> set ys) xs"

definition is_set :: "'a::linorder list \<Rightarrow> bool" where
  "is_set xs \<longleftrightarrow> sorted xs \<and> distinct xs"

lemma is_set_Nil [simp, intro]: "is_set []"
  by (simp add: is_set_def)

lemma is_set_insert [simp, intro]: "is_set xs \<Longrightarrow> is_set (set_insert x xs)"
  by (simp add: is_set_def set_insert_def sorted_insort_insert distinct_insort_insert)

lemma set_set_insert [simp]: "set (set_insert x xs) = insert x (set xs)"
  by (simp add: set_insert_def set_insort_insert)

lemma set_insert_present [simp]: "x \<in> set xs \<Longrightarrow> set_insert x xs = xs"
  by (simp add: set_insert_def insort_insert_key_def)

lemma set_set_difference [simp]: "set (set_difference xs ys) = set xs - set ys"
  by (auto simp: set_difference_def)

lemma is_set_difference [simp, intro]: "is_set xs \<Longrightarrow> is_set (set_difference xs ys)"
  by (simp add: is_set_def set_difference_def sorted_wrt_filter)

lemma is_set_distinct: "is_set xs \<Longrightarrow> distinct xs"
  by (simp add: is_set_def)

lemma is_set_eqI: "is_set xs \<Longrightarrow> is_set ys \<Longrightarrow> set xs = set ys \<Longrightarrow> xs = ys"
  by (simp add: is_set_def sorted_distinct_set_unique)

lemma length_set_insert: "is_set xs \<Longrightarrow> length (set_insert x xs) = (if x \<in> set xs then length xs else Suc (length xs))"
  by (simp add: set_insert_def insort_insert_key_def)

text \<open>
  A \<open>std::map\<close> is the list of its entries with increasing keys; \<open>map_insert\<close> is the assignment
  \<open>m[k] = v\<close>, and \<open>map_of\<close> is \<open>find\<close>.
\<close>

fun map_insert :: "'k::linorder \<Rightarrow> 'v \<Rightarrow> ('k \<times> 'v) list \<Rightarrow> ('k \<times> 'v) list" where
  "map_insert k v [] = [(k, v)]"
| "map_insert k v ((k', v') # m) =
     (if k < k' then (k, v) # (k', v') # m
      else if k = k' then (k, v) # m
      else (k', v') # map_insert k v m)"

lemma map_of_map_insert: "map_of (map_insert k v m) = (map_of m)(k \<mapsto> v)"
  by (induction k v m rule: map_insert.induct) (auto simp: fun_eq_iff)

lemma keys_map_insert: "fst ` set (map_insert k v m) = insert k (fst ` set m)"
  by (induction k v m rule: map_insert.induct) auto

lemma is_set_map_insert: "is_set (map fst m) \<Longrightarrow> is_set (map fst (map_insert k v m))"
proof (induction k v m rule: map_insert.induct)
  case (2 k v k' v' m)
  have "set (map fst (map_insert k v m)) = insert k (set (map fst m))"
    using keys_map_insert [of k v m] by simp
  with 2 show ?case by (auto simp: is_set_def)
qed (simp add: is_set_def)

lemma set_map_insert_new: "k \<notin> fst ` set m \<Longrightarrow> set (map_insert k v m) = insert (k, v) (set m)"
  by (induction k v m rule: map_insert.induct) auto

lemma values_map_insert: "snd ` set (map_insert k v m) \<subseteq> insert v (snd ` set m)"
  by (induction k v m rule: map_insert.induct) auto

section \<open>Operations that fail\<close>

text \<open>
  The ways in which an operation of the program does not return: a failed \<open>assert\<close>, an
  \<open>exit\<close>, an exception, a write past the end of a buffer, and a recursion that never ends (fuel of
  the model used up).
\<close>

datatype error =
    Assertion_Failed
  | Exit nat
  | NotLbPoolException string
  | HealthcheckSchedulingException string
  | Json_Exception
  | Out_Of_Range
  | Buffer_Overflow
  | Unbounded_Recursion

type_synonym 'a result = "error + 'a"

definition bind_result :: "'a result \<Rightarrow> ('a \<Rightarrow> 'b result) \<Rightarrow> 'b result" where
  "bind_result r f = (case r of Inl e \<Rightarrow> Inl e | Inr x \<Rightarrow> f x)"

lemma bind_result_simps [simp]:
  "bind_result (Inl e) f = Inl e"
  "bind_result (Inr x) f = f x"
  by (simp_all add: bind_result_def)

lemma bind_result_Inr_iff: "bind_result r f = Inr y \<longleftrightarrow> (\<exists>x. r = Inr x \<and> f x = Inr y)"
  by (cases r) auto

lemma bind_result_Inl_iff: "bind_result r f = Inl e \<longleftrightarrow> r = Inl e \<or> (\<exists>x. r = Inr x \<and> f x = Inl e)"
  by (cases r) auto

text \<open>A loop whose body can fail, over a list that is known when the loop starts.\<close>

fun for_each :: "('a \<Rightarrow> 's \<Rightarrow> 's result) \<Rightarrow> 'a list \<Rightarrow> 's \<Rightarrow> 's result" where
  "for_each f [] s = Inr s"
| "for_each f (x # xs) s = bind_result (f x s) (for_each f xs)"

lemma for_each_append: "for_each f (xs @ ys) s = bind_result (for_each f xs s) (for_each f ys)"
  by (induction xs arbitrary: s) (simp_all add: bind_result_def split: sum.split)

text \<open>A loop keeps what each iteration keeps.\<close>

lemma for_each_rel:
  assumes "R s s" and "\<And>s1 s2 s3. R s1 s2 \<Longrightarrow> R s2 s3 \<Longrightarrow> R s1 s3"
    and "\<And>x s'. x \<in> set xs \<Longrightarrow> R s s' \<Longrightarrow> (case f x s' of Inl e \<Rightarrow> e \<in> E | Inr s'' \<Rightarrow> R s' s'')"
  shows "case for_each f xs s of Inl e \<Rightarrow> e \<in> E | Inr s' \<Rightarrow> R s s'"
proof -
  have "case for_each f ys t of Inl e \<Rightarrow> e \<in> E | Inr s' \<Rightarrow> R s s'" if "set ys \<subseteq> set xs" "R s t" for ys t
    using that
  proof (induction ys arbitrary: t)
    case (Cons x ys)
    show ?case
    proof (cases "f x t")
      case (Inl e)
      then show ?thesis using assms(3) [of x t] Cons.prems by simp
    next
      case (Inr t')
      then have "R s t'" using assms(2) [OF Cons.prems(2)] assms(3) [of x t] Cons.prems by simp
      then show ?thesis using Cons Inr by simp
    qed
  qed simp
  then show ?thesis using assms(1) by blast
qed

lemma set_insert_new_length: "x \<notin> set xs \<Longrightarrow> length (set_insert x xs) = Suc (length xs)"
  by (simp add: set_insert_def insort_insert_key_def)

lemma map_of_fold_insert:
  "distinct (map f xs) \<Longrightarrow> x \<in> set xs \<Longrightarrow> map_of (fold (\<lambda>x. map_insert (f x) (g x)) xs m) (f x) = Some (g x)"
proof (induction xs arbitrary: m)
  case (Cons y xs)
  have keep: "k \<notin> f ` set xs \<Longrightarrow> map_of (fold (\<lambda>x. map_insert (f x) (g x)) xs m) k = map_of m k" for k m
    by (induction xs arbitrary: m) (auto simp: map_of_map_insert)
  show ?case using Cons keep by (auto simp: map_of_map_insert)
qed simp

end
