(* ===== verification/Time_Helper.thy ===== *)
theory Time_Helper
  imports Prelude
begin

text \<open>
  The time arithmetic of \<open>time_helper.cpp\<close>. Seconds and sub-seconds are 64-bit \<open>long\<close> values,
  kept as integers; only the conversion of a difference to \<open>int\<close> can wrap.
\<close>

record timespec =
  tv_sec :: int
  tv_nsec :: int

record timeval =
  t_sec :: int
  t_usec :: int

definition timespec_diff_ms :: "timespec \<Rightarrow> timespec \<Rightarrow> int" where
  "timespec_diff_ms a b =
     (let diff_sec = tv_sec a - tv_sec b;
          diff_nsec = tv_nsec a - tv_nsec b;
          (diff_sec, diff_nsec) =
            (if diff_nsec < 0 then (diff_sec - 1, diff_nsec + 1000000000)
             else (diff_sec, diff_nsec))
      in to_int32 (diff_sec * 1000 + diff_nsec sdiv 1000000))"

definition timeval_to_ms :: "timeval \<Rightarrow> int" where
  "timeval_to_ms t = t_sec t * 1000 + t_usec t sdiv 1000"

text \<open>A point in time in nanoseconds, and the sub-second part a clock returns.\<close>

definition nanoseconds :: "timespec \<Rightarrow> int" where
  "nanoseconds t = tv_sec t * 1000000000 + tv_nsec t"

definition normalised :: "timespec \<Rightarrow> bool" where
  "normalised t \<longleftrightarrow> 0 \<le> tv_nsec t \<and> tv_nsec t < 1000000000"

lemma sdiv_nonneg: "0 \<le> a \<Longrightarrow> 0 < b \<Longrightarrow> a sdiv b = a div (b::int)"
  by (simp add: signed_divide_int_def sgn_if)

lemma div_shift_ms: "(k * 1000000000 + n) div 1000000 = k * 1000 + n div (1000000::int)"
proof -
  have "k * 1000000000 + n = n + (k * 1000) * 1000000" by simp
  then show ?thesis by (simp only: div_mult_self1)
qed

text \<open>The difference is the elapsed time in whole milliseconds, rounded down.\<close>

lemma timespec_diff_ms_floor:
  assumes "normalised a" "normalised b"
  shows "timespec_diff_ms a b = to_int32 ((nanoseconds a - nanoseconds b) div 1000000)"
proof -
  let ?ns = "tv_nsec a - tv_nsec b" and ?s = "tv_sec a - tv_sec b"
  have total: "nanoseconds a - nanoseconds b = ?s * 1000000000 + ?ns"
    by (simp add: nanoseconds_def algebra_simps)
  show ?thesis
  proof (cases "?ns < 0")
    case True
    with assms have "(?ns + 1000000000) sdiv 1000000 = (?ns + 1000000000) div 1000000"
      by (intro sdiv_nonneg) (auto simp: normalised_def)
    moreover have "(?s * 1000000000 + ?ns) div 1000000 = (?s - 1) * 1000 + (?ns + 1000000000) div 1000000"
      using div_shift_ms [of "?s - 1" "?ns + 1000000000"] by (simp add: algebra_simps)
    ultimately show ?thesis
      using True by (simp add: timespec_diff_ms_def total)
  next
    case False
    then have "?ns sdiv 1000000 = ?ns div 1000000"
      by (intro sdiv_nonneg) auto
    then show ?thesis
      using False by (simp add: timespec_diff_ms_def total div_shift_ms del: left_diff_distrib_numeral)
  qed
qed

text \<open>A configured timeout in milliseconds survives its conversion to a \<open>timeval\<close>.\<close>

lemma timeval_to_ms_split:
  assumes "0 \<le> ms"
  shows "timeval_to_ms \<lparr>t_sec = ms sdiv 1000, t_usec = (ms smod 1000) * 1000\<rparr> = ms"
proof -
  have "ms sdiv 1000 = ms div 1000" "ms smod 1000 = ms mod 1000"
    using assms by (cases "ms = 0"; simp add: sdiv_nonneg signed_modulo_int_def sgn_if)+
  then show ?thesis
    by (simp add: timeval_to_ms_def sdiv_nonneg)
qed

lemma le_div_ms: "a \<le> d div 1000000 \<Longrightarrow> a * 1000000 \<le> (d :: int)"
  by presburger

end
