(* ===== verification/Config.thy ===== *)
theory Config
  imports Prelude
begin

text \<open>
  Reading the JSON configuration (\<open>config.cpp\<close>). The JSON library is not part of the program:
  its operations are the fields of a record that every definition which uses them takes as an
  argument. A conversion returns \<open>None\<close> where the library throws its \<open>type_error\<close>.
\<close>

record 'j json_lib =
  json_find :: "'j \<Rightarrow> string \<Rightarrow> 'j option"
  json_is_null :: "'j \<Rightarrow> bool"
  json_get_int :: "'j \<Rightarrow> int option"
  json_get_string :: "'j \<Rightarrow> string option"
  json_get_ints :: "'j \<Rightarrow> int list option"
  json_empty :: "'j \<Rightarrow> bool"
  json_size :: "'j \<Rightarrow> nat"
  json_index :: "'j \<Rightarrow> string \<Rightarrow> 'j"
  json_items :: "'j \<Rightarrow> (string \<times> 'j) list"
  json_elems :: "'j \<Rightarrow> 'j list"
  json_is_object :: "'j \<Rightarrow> bool"
  json_null :: 'j

definition key_present :: "'j json_lib \<Rightarrow> 'j \<Rightarrow> string \<Rightarrow> bool" where
  "key_present lib j key \<longleftrightarrow> json_find lib j key \<noteq> None"

text \<open>The template \<open>safe_get\<close>: its type argument is the conversion \<open>get\<close>.\<close>

definition safe_get :: "'j json_lib \<Rightarrow> ('j \<Rightarrow> 'a option) \<Rightarrow> 'j \<Rightarrow> string \<Rightarrow> 'a \<Rightarrow> 'a" where
  "safe_get lib get j key defval =
     (case json_find lib j key of
        None \<Rightarrow> defval
      | Some test \<Rightarrow>
          if json_is_null lib test then defval
          else (case get test of None \<Rightarrow> defval | Some v \<Rightarrow> v))"

abbreviation safe_get_int :: "'j json_lib \<Rightarrow> 'j \<Rightarrow> string \<Rightarrow> int \<Rightarrow> int" where
  "safe_get_int lib \<equiv> safe_get lib (json_get_int lib)"

abbreviation safe_get_string :: "'j json_lib \<Rightarrow> 'j \<Rightarrow> string \<Rightarrow> string \<Rightarrow> string" where
  "safe_get_string lib \<equiv> safe_get lib (json_get_string lib)"

abbreviation safe_get_ints :: "'j json_lib \<Rightarrow> 'j \<Rightarrow> string \<Rightarrow> int list \<Rightarrow> int list" where
  "safe_get_ints lib \<equiv> safe_get lib (json_get_ints lib)"

lemma safe_get_absent: "\<not> key_present lib j key \<Longrightarrow> safe_get lib get j key d = d"
  by (simp add: safe_get_def key_present_def)

text \<open>A value read this way is either converted from the document or the default.\<close>

lemma safe_get_cases:
  "safe_get lib get j key d = d \<or>
   (\<exists>v. json_find lib j key = Some v \<and> get v = Some (safe_get lib get j key d))"
  by (auto simp: safe_get_def split: option.splits)

section \<open>A plain JSON document\<close>

text \<open>
  A concrete document type on which the library's operations can be evaluated; the examples of
  the development use it.
\<close>

datatype json =
    JNull
  | JBool bool
  | JInt int
  | JString string
  | JArray "json list"
  | JObject "(string \<times> json) list"

fun plain_find :: "json \<Rightarrow> string \<Rightarrow> json option" where
  "plain_find (JObject m) k = map_of m k"
| "plain_find _ k = None"

fun plain_int :: "json \<Rightarrow> int option" where
  "plain_int (JInt i) = Some (to_int32 i)"
| "plain_int (JBool b) = Some (if b then 1 else 0)"
| "plain_int _ = None"

fun plain_string :: "json \<Rightarrow> string option" where
  "plain_string (JString s) = Some s"
| "plain_string _ = None"

fun plain_elems :: "json \<Rightarrow> json list" where
  "plain_elems (JArray xs) = xs"
| "plain_elems (JObject m) = map snd m"
| "plain_elems JNull = []"
| "plain_elems j = [j]"

fun plain_ints :: "json \<Rightarrow> int list option" where
  "plain_ints (JArray xs) = those (map plain_int xs)"
| "plain_ints _ = None"

fun plain_items :: "json \<Rightarrow> (string \<times> json) list" where
  "plain_items (JObject m) = m"
| "plain_items _ = []"

definition plain_json :: "json json_lib" where
  "plain_json =
     \<lparr>json_find = plain_find,
      json_is_null = (\<lambda>j. j = JNull),
      json_get_int = plain_int,
      json_get_string = plain_string,
      json_get_ints = plain_ints,
      json_empty = (\<lambda>j. plain_elems j = []),
      json_size = (\<lambda>j. length (plain_elems j)),
      json_index = (\<lambda>j k. case plain_find j k of None \<Rightarrow> JNull | Some v \<Rightarrow> v),
      json_items = plain_items,
      json_elems = plain_elems,
      json_is_object = (\<lambda>j. case j of JObject m \<Rightarrow> True | _ \<Rightarrow> False),
      json_null = JNull\<rparr>"

end
