(* ===== verification/Objects.thy ===== *)
theory Objects
  imports Time_Helper Config
begin

text \<open>
  The class declarations of the headers (\<open>lb_node.h\<close>, \<open>lb_pool.h\<close>, \<open>healthcheck.h\<close> and the
  headers of the health check types) as records, and the store of the main process that holds
  the objects. An object is referred to by its address, a natural number; the order of addresses
  is the order in which a \<open>std::set\<close> of pointers is iterated.
\<close>

section \<open>Enumerations\<close>

datatype LbNodeState = NODE_DOWN | NODE_UP

datatype LbNodeAdminState = STATE_DRAIN_HARD | STATE_DRAIN_SOFT | STATE_DOWNTIME | STATE_ENABLED

datatype LbPoolState = POOL_DOWN | POOL_UP

datatype FaultPolicy = FORCE_DOWN | FORCE_UP | BACKUP_POOL

datatype HealthcheckState = HC_STATE_DRAIN | HC_STATE_DOWN | HC_STATE_UP

datatype HealthcheckResult = HC_PASS | HC_FAIL | HC_DRAIN | HC_PANIC

text \<open>The administrative states are compared with \<open><\<close>, in the order of their declaration.\<close>

primrec admin_index :: "LbNodeAdminState \<Rightarrow> nat" where
  "admin_index STATE_DRAIN_HARD = 0"
| "admin_index STATE_DRAIN_SOFT = 1"
| "admin_index STATE_DOWNTIME = 2"
| "admin_index STATE_ENABLED = 3"

lemma admin_index_inject [simp]: "admin_index a = admin_index b \<longleftrightarrow> a = b"
  by (cases a; cases b) simp_all

instantiation LbNodeAdminState :: linorder
begin

definition less_eq_LbNodeAdminState :: "LbNodeAdminState \<Rightarrow> LbNodeAdminState \<Rightarrow> bool" where
  "a \<le> b \<longleftrightarrow> admin_index a \<le> admin_index b"

definition less_LbNodeAdminState :: "LbNodeAdminState \<Rightarrow> LbNodeAdminState \<Rightarrow> bool" where
  "a < b \<longleftrightarrow> admin_index a < admin_index b"

instance
  by standard (auto simp: less_eq_LbNodeAdminState_def less_LbNodeAdminState_def
      simp flip: admin_index_inject)

end

lemma less_enabled [simp]: "a < STATE_ENABLED \<longleftrightarrow> a \<noteq> STATE_ENABLED"
  by (cases a) (simp_all add: less_LbNodeAdminState_def)

lemma le_drain_soft [simp]:
  "a \<le> STATE_DRAIN_SOFT \<longleftrightarrow> a = STATE_DRAIN_HARD \<or> a = STATE_DRAIN_SOFT"
  by (cases a) (simp_all add: less_eq_LbNodeAdminState_def)

section \<open>Objects\<close>

type_synonym node_id = nat
type_synonym pool_id = nat
type_synonym hc_id = nat

record LbNode =
  node_name :: string
  node_route_network :: string
  node_ipv4_address :: string
  node_ipv6_address :: string
  parent_lbpool :: pool_id
  node_state :: LbNodeState
  admin_state :: LbNodeAdminState
  healthchecks :: "hc_id list"
  min_nodes_kept :: bool
  max_nodes_kept :: bool
  checked :: bool
  state_changed :: bool
  kill_states :: bool

record LbPool =
  pool_name :: string
  pool_route_network :: string
  pool_ipv4_address :: string
  pool_ipv6_address :: string
  pf_name :: string
  pool_state :: LbPoolState
  nodes :: "node_id list"
  backup_pool_name :: string
  backup_pool_active :: bool
  min_nodes :: nat
  max_nodes :: nat
  fault_policy :: FaultPolicy
  pf_synced :: bool
  has_hcs :: bool
  up_nodes :: "node_id list"

text \<open>
  The members of the health check types; a pointer that is only compared with \<open>NULL\<close> is a truth
  value. \<open>http_output\<close> is what the check has put into the output buffer of \<open>bev\<close>.
\<close>

record Healthcheck_http =
  http_bev :: bool
  http_output :: string
  http_query :: string
  http_host :: string
  http_port :: int
  ok_codes :: "string list"
  drain_codes :: "string list"
  http_reply :: string

record Healthcheck_tcp =
  tcp_bev :: bool
  tcp_port :: int

record Healthcheck_ping =
  ping_my_seq :: "16 word"

record Healthcheck_dns =
  dns_port :: int
  dns_query :: string
  dns_ev :: bool
  my_transaction_id :: "16 word"

datatype pg_method = poll_conn_method | send_query_method | flush_query_method | handle_query_method

record Healthcheck_postgres =
  pg_host :: string
  pg_port :: int
  pg_dbname :: string
  pg_user :: string
  pg_query :: string
  pg_conn :: bool
  pg_result :: bool
  pg_io_event :: bool
  pg_timeout_event :: bool
  event_flag :: "16 word"
  event_counter :: int
  callback_method :: pg_method

datatype derived =
    Http Healthcheck_http
  | Https Healthcheck_http
  | Tcp Healthcheck_tcp
  | Ping Healthcheck_ping
  | Postgres Healthcheck_postgres
  | Dns Healthcheck_dns
  | Dummy

record Healthcheck =
  parent_lbnode :: node_id
  last_state :: HealthcheckState
  hard_state :: HealthcheckState
  hc_type :: string
  ran :: bool
  log_prefix :: string
  last_checked :: timespec
  timeout :: timeval
  is_running :: bool
  hc_ip_address :: string
  address_family :: int
  check_interval :: int
  extra_delay :: "16 word"
  max_failed_checks :: int
  failure_counter :: "16 word"
  af_string :: string
  derived :: derived

section \<open>The store of the main process\<close>

text \<open>
  The heap of each class, the addresses in use, the global map of pools in the order of its
  keys, the message queue to the pfctl worker (of the type \<open>'q\<close> of the queue library), the static
  members of the ping and DNS checks, and the datagrams handed to \<open>send\<close> and \<open>sendto\<close> so far.
\<close>

record 'q world =
  node_heap :: "node_id \<Rightarrow> LbNode"
  pool_heap :: "pool_id \<Rightarrow> LbPool"
  hc_heap :: "hc_id \<Rightarrow> Healthcheck"
  node_dom :: "node_id list"
  pool_dom :: "pool_id list"
  hc_dom :: "hc_id list"
  lb_pools :: "(string \<times> pool_id) list"
  pfctl_mq :: 'q
  check_downtimes :: bool
  ping_global_seq :: "16 word"
  seq_map :: "16 word \<Rightarrow> hc_id option"
  global_transaction_id :: "16 word"
  ping_id :: "16 word"
  sent_packets :: "(hc_id \<times> string) list"

definition get_node :: "node_id \<Rightarrow> 'q world \<Rightarrow> LbNode" where
  "get_node i w = node_heap w i"

definition upd_node :: "node_id \<Rightarrow> (LbNode \<Rightarrow> LbNode) \<Rightarrow> 'q world \<Rightarrow> 'q world" where
  "upd_node i f w = w\<lparr>node_heap := (node_heap w)(i := f (node_heap w i))\<rparr>"

definition get_pool :: "pool_id \<Rightarrow> 'q world \<Rightarrow> LbPool" where
  "get_pool i w = pool_heap w i"

definition upd_pool :: "pool_id \<Rightarrow> (LbPool \<Rightarrow> LbPool) \<Rightarrow> 'q world \<Rightarrow> 'q world" where
  "upd_pool i f w = w\<lparr>pool_heap := (pool_heap w)(i := f (pool_heap w i))\<rparr>"

definition get_hc :: "hc_id \<Rightarrow> 'q world \<Rightarrow> Healthcheck" where
  "get_hc i w = hc_heap w i"

definition upd_hc :: "hc_id \<Rightarrow> (Healthcheck \<Rightarrow> Healthcheck) \<Rightarrow> 'q world \<Rightarrow> 'q world" where
  "upd_hc i f w = w\<lparr>hc_heap := (hc_heap w)(i := f (hc_heap w i))\<rparr>"

text \<open>
  The contract of a heap of objects of one class: a write is read back at its own address and
  nowhere else. What a client needs of it is proved once, for any class.
\<close>

locale object_store =
  fixes get :: "'i \<Rightarrow> 'w \<Rightarrow> 'o"
    and upd :: "'i \<Rightarrow> ('o \<Rightarrow> 'o) \<Rightarrow> 'w \<Rightarrow> 'w"
  assumes get_upd: "get j (upd i f w) = (if i = j then f (get j w) else get j w)"
    and upd_upd: "upd i f (upd i g w) = upd i (\<lambda>x. f (g x)) w"
begin

lemma get_upd_same: "get i (upd i f w) = f (get i w)"
  by (simp add: get_upd)

lemma get_upd_other: "i \<noteq> j \<Longrightarrow> get j (upd i f w) = get j w"
  by (simp add: get_upd)

lemma get_upd_field: "(\<And>x. sel (f x) = sel x) \<Longrightarrow> sel (get j (upd i f w)) = sel (get j w)"
  by (simp add: get_upd)

lemma get_upd_all:
  assumes "distinct is"
  shows "get j (fold (\<lambda>i. upd i f) is w) = (if j \<in> set is then f (get j w) else get j w)"
  using assms by (induction "is" arbitrary: w) (auto simp: get_upd)

end

interpretation node_store: object_store get_node upd_node
  by unfold_locales (auto simp: get_node_def upd_node_def)

interpretation pool_store: object_store get_pool upd_pool
  by unfold_locales (auto simp: get_pool_def upd_pool_def)

interpretation hc_store: object_store get_hc upd_hc
  by unfold_locales (auto simp: get_hc_def upd_hc_def)

lemmas store_reads [heap_simps, simp] =
  node_store.get_upd_same pool_store.get_upd_same hc_store.get_upd_same

text \<open>A write to one heap leaves the other heaps and the globals alone.\<close>

definition same_globals :: "'q world \<Rightarrow> 'q world \<Rightarrow> bool" where
  "same_globals w w' \<longleftrightarrow>
     seq_map w' = seq_map w \<and> ping_global_seq w' = ping_global_seq w \<and>
     global_transaction_id w' = global_transaction_id w \<and> check_downtimes w' = check_downtimes w \<and>
     ping_id w' = ping_id w \<and> sent_packets w' = sent_packets w"

lemma same_globals_refl [simp]: "same_globals w w"
  by (simp add: same_globals_def)

lemma same_globals_trans: "same_globals w w' \<Longrightarrow> same_globals w' w'' \<Longrightarrow> same_globals w w''"
  by (simp add: same_globals_def)

lemma upd_node_frame [frame_simps, simp]:
  "get_pool j (upd_node i f w) = get_pool j w"
  "get_hc j (upd_node i f w) = get_hc j w"
  "node_dom (upd_node i f w) = node_dom w"
  "pool_dom (upd_node i f w) = pool_dom w"
  "hc_dom (upd_node i f w) = hc_dom w"
  "lb_pools (upd_node i f w) = lb_pools w"
  "pfctl_mq (upd_node i f w) = pfctl_mq w"
  "same_globals w (upd_node i f w)"
  by (simp_all add: upd_node_def get_pool_def get_hc_def same_globals_def)

lemma upd_pool_frame [frame_simps, simp]:
  "get_node j (upd_pool i g w) = get_node j w"
  "get_hc j (upd_pool i g w) = get_hc j w"
  "node_dom (upd_pool i g w) = node_dom w"
  "pool_dom (upd_pool i g w) = pool_dom w"
  "hc_dom (upd_pool i g w) = hc_dom w"
  "lb_pools (upd_pool i g w) = lb_pools w"
  "pfctl_mq (upd_pool i g w) = pfctl_mq w"
  "same_globals w (upd_pool i g w)"
  by (simp_all add: upd_pool_def get_node_def get_hc_def same_globals_def)

lemma upd_hc_frame [frame_simps, simp]:
  "get_node j (upd_hc i h w) = get_node j w"
  "get_pool j (upd_hc i h w) = get_pool j w"
  "node_dom (upd_hc i h w) = node_dom w"
  "pool_dom (upd_hc i h w) = pool_dom w"
  "hc_dom (upd_hc i h w) = hc_dom w"
  "lb_pools (upd_hc i h w) = lb_pools w"
  "pfctl_mq (upd_hc i h w) = pfctl_mq w"
  "same_globals w (upd_hc i h w)"
  by (simp_all add: upd_hc_def get_node_def get_pool_def same_globals_def)

lemma mq_update_frame [frame_simps, simp]:
  "get_node j (w\<lparr>pfctl_mq := q\<rparr>) = get_node j w"
  "get_pool j (w\<lparr>pfctl_mq := q\<rparr>) = get_pool j w"
  "get_hc j (w\<lparr>pfctl_mq := q\<rparr>) = get_hc j w"
  by (simp_all add: get_node_def get_pool_def get_hc_def)

end
