(* ===== verification/Pfctl_Msg.thy ===== *)
theory Pfctl_Msg
  imports Objects
begin

text \<open>
  The message of the main process to the pfctl worker (\<open>pfctl_worker.h\<close>) and \<open>send_message\<close> of
  \<open>pfctl_worker.cpp\<close>, which fills and enqueues it. The queue is the library's: \<open>try_send\<close> is an
  argument.
\<close>

definition NAME_LEN :: nat where "NAME_LEN = 256"

definition QUEUE_LEN :: nat where "QUEUE_LEN = 10"

definition MAX_NODES :: nat where "MAX_NODES = 100"

text \<open>\<open>sizeof("FFFF:FFFF:FFFF:FFFF:FFFF:FFFF:255.255.255.255") + 1\<close>, the terminator included.\<close>

definition ADDR_LEN :: nat where
  "ADDR_LEN = length ''FFFF:FFFF:FFFF:FFFF:FFFF:FFFF:255.255.255.255'' + 1 + 1"

record SyncedLbNode =
  wanted_state :: LbNodeState
  synced_admin_state :: LbNodeAdminState
  ip_address :: "string \<times> string"

record pfctl_msg =
  msg_pool_name :: string
  msg_table_name :: string
  synced_lb_nodes :: "SyncedLbNode list"

text \<open>An entry after \<open>memset(&msg, 0, sizeof(msg))\<close>.\<close>

definition zero_synced :: SyncedLbNode where
  "zero_synced =
     \<lparr>wanted_state = NODE_DOWN, synced_admin_state = STATE_DRAIN_HARD,
      ip_address = (replicate ADDR_LEN NUL, replicate ADDR_LEN NUL)\<rparr>"

definition synced_entry :: "node_id list \<Rightarrow> 'q world \<Rightarrow> node_id \<Rightarrow> SyncedLbNode" where
  "synced_entry up_lb_nodes w lb_node =
     \<lparr>wanted_state = (if lb_node \<in> set up_lb_nodes then NODE_UP else NODE_DOWN),
      synced_admin_state = admin_state (get_node lb_node w),
      ip_address = (strncpy ADDR_LEN (node_ipv4_address (get_node lb_node w)),
                    strncpy ADDR_LEN (node_ipv6_address (get_node lb_node w)))\<rparr>"

fun fill_synced :: "node_id list \<Rightarrow> 'q world \<Rightarrow> nat \<Rightarrow> node_id list \<Rightarrow> SyncedLbNode list \<Rightarrow> SyncedLbNode list" where
  "fill_synced up w lb_node_index [] s = s"
| "fill_synced up w lb_node_index (lb_node # rest) s =
     fill_synced up w (Suc lb_node_index) rest (s[lb_node_index := synced_entry up w lb_node])"

definition build_msg :: "string \<Rightarrow> string \<Rightarrow> node_id list \<Rightarrow> node_id list \<Rightarrow> 'q world \<Rightarrow> pfctl_msg" where
  "build_msg pool table all_lb_nodes up_lb_nodes w =
     \<lparr>msg_pool_name = strncpy NAME_LEN pool,
      msg_table_name = strncpy NAME_LEN table,
      synced_lb_nodes =
        fill_synced up_lb_nodes w 0 all_lb_nodes (replicate MAX_NODES zero_synced)\<rparr>"

definition send_message ::
    "('q \<Rightarrow> pfctl_msg \<Rightarrow> bool \<times> 'q) \<Rightarrow> string \<Rightarrow> string \<Rightarrow> node_id list \<Rightarrow> node_id list \<Rightarrow> 'q world
     \<Rightarrow> (bool \<times> 'q world) result" where
  "send_message try_send pool table all_lb_nodes up_lb_nodes w =
     (if \<not> length all_lb_nodes < MAX_NODES then Inl Assertion_Failed
      else if \<not> length up_lb_nodes < MAX_NODES then Inl Assertion_Failed
      else case try_send (pfctl_mq w) (build_msg pool table all_lb_nodes up_lb_nodes w) of
             (sent, q) \<Rightarrow> Inr (sent, w\<lparr>pfctl_mq := q\<rparr>))"

section \<open>What the message says\<close>

lemma fill_synced_eq:
  assumes "length s = i + length ns + k"
  shows "fill_synced up w i ns s = take i s @ map (synced_entry up w) ns @ drop (i + length ns) s"
  using assms
proof (induction ns arbitrary: i s)
  case (Cons n ns)
  then have "i < length s" by simp
  then have "take (Suc i) (s[i := synced_entry up w n]) = take i s @ [synced_entry up w n]"
    by (simp add: take_Suc_conv_app_nth)
  with Cons show ?case by simp
qed simp

lemma build_msg_nodes:
  assumes "length all \<le> MAX_NODES"
  shows "synced_lb_nodes (build_msg pool table all up w) =
           map (synced_entry up w) all @ replicate (MAX_NODES - length all) zero_synced"
  using assms fill_synced_eq [of "replicate MAX_NODES zero_synced" 0 all "MAX_NODES - length all" up w]
  by (simp add: build_msg_def)

lemma build_msg_length: "length all \<le> MAX_NODES \<Longrightarrow> length (synced_lb_nodes (build_msg pool table all up w)) = MAX_NODES"
  by (simp add: build_msg_nodes)

lemma ADDR_LEN_eq: "ADDR_LEN = 47"
  by (simp add: ADDR_LEN_def)

lemma c_str_replicate_NUL [simp]: "c_str (replicate k NUL) = []"
  by (cases k) (simp_all add: c_str_def)

lemma zero_synced_no_address [simp]:
  "c_str (fst (ip_address zero_synced)) = []"
  "c_str (snd (ip_address zero_synced)) = []"
  by (simp_all add: zero_synced_def)

lemma send_message_Inr:
  assumes "send_message try_send pool table all up w = Inr (sent, w')"
  shows "length all < MAX_NODES" "length up < MAX_NODES"
    "try_send (pfctl_mq w) (build_msg pool table all up w) = (sent, pfctl_mq w')"
    "w' = w\<lparr>pfctl_mq := pfctl_mq w'\<rparr>"
  using assms by (auto simp: send_message_def split: if_splits prod.splits)

end
