(* ===== verification/Lb_Pool.thy ===== *)
theory Lb_Pool
  imports Pfctl_Msg
begin

text \<open>
  The pool of \<open>lb_pool.cpp\<close>: which of its nodes receive traffic (\<open>pool_logic\<close>) and the update of
  the pfctl worker (\<open>update_pfctl\<close>). \<open>pool_logic\<close> and \<open>update_pfctl\<close> call each other through the
  pools that use a pool as their backup; the depth of these calls is bounded by fuel, and
  \<open>Unbounded_Recursion\<close> is the result when it is used up.
\<close>

section \<open>The operations\<close>

definition fault_policy_from_string :: "string \<Rightarrow> FaultPolicy" where
  "fault_policy_from_string s =
     (if s = ''force_down'' then FORCE_DOWN
      else if s = ''force_up'' then FORCE_UP
      else if s = ''backup_pool'' then BACKUP_POOL
      else FORCE_DOWN)"

primrec get_fault_policy_string :: "FaultPolicy \<Rightarrow> string" where
  "get_fault_policy_string FORCE_DOWN = ''force_down''"
| "get_fault_policy_string FORCE_UP = ''force_up''"
| "get_fault_policy_string BACKUP_POOL = ''backup_pool''"

definition is_up :: "LbNode \<Rightarrow> bool" where
  "is_up n = (if admin_state n < STATE_ENABLED then False else node_state n = NODE_UP)"

definition count_up_nodes :: "pool_id \<Rightarrow> 'q world \<Rightarrow> nat" where
  "count_up_nodes p w = length (up_nodes (get_pool p w))"

definition get_backup_pool_state :: "LbPool \<Rightarrow> string" where
  "get_backup_pool_state pl =
     (if backup_pool_name pl = '''' then ''none''
      else if backup_pool_active pl then ''active''
      else ''configured'')"

definition get_up_nodes :: "pool_id \<Rightarrow> 'q world \<Rightarrow> node_id list" where
  "get_up_nodes p w = up_nodes (get_pool p w)"

definition get_up_nodes_names :: "pool_id \<Rightarrow> 'q world \<Rightarrow> string list" where
  "get_up_nodes_names p w =
     fold (\<lambda>n ret. set_insert (node_name (get_node n w)) ret) (up_nodes (get_pool p w)) []"

text \<open>The first loop of \<open>pool_logic\<close>: up nodes that were wanted before.\<close>

fun add_previously_wanted :: "nat \<Rightarrow> 'q world \<Rightarrow> node_id list \<Rightarrow> node_id list \<Rightarrow> node_id list" where
  "add_previously_wanted maxn w [] wanted = wanted"
| "add_previously_wanted maxn w (n # ns) wanted =
     (if \<not> (maxn = 0 \<or> length wanted < maxn) then wanted
      else if \<not> is_up (get_node n w) then add_previously_wanted maxn w ns wanted
      else if \<not> max_nodes_kept (get_node n w) then add_previously_wanted maxn w ns wanted
      else add_previously_wanted maxn w ns (set_insert n wanted))"

text \<open>The second loop: other up nodes, which are marked as kept.\<close>

fun add_any_up :: "nat \<Rightarrow> 'q world \<Rightarrow> node_id list \<Rightarrow> node_id list \<Rightarrow> node_id list \<times> 'q world" where
  "add_any_up maxn w [] wanted = (wanted, w)"
| "add_any_up maxn w (n # ns) wanted =
     (if \<not> (maxn = 0 \<or> length wanted < maxn) then (wanted, w)
      else if \<not> is_up (get_node n w) then add_any_up maxn w ns wanted
      else if max_nodes_kept (get_node n w) then add_any_up maxn w ns wanted
      else add_any_up maxn (upd_node n (\<lambda>x. x\<lparr>max_nodes_kept := True\<rparr>) w) ns (set_insert n wanted))"

text \<open>The policy \<open>FORCE_UP\<close>: the node that changed last, then a set of candidates.\<close>

definition keep_last_node ::
    "nat \<Rightarrow> node_id option \<Rightarrow> 'q world \<Rightarrow> node_id list \<Rightarrow> node_id list \<times> 'q world" where
  "keep_last_node minn last_node w wanted =
     (case last_node of
        None \<Rightarrow> (wanted, w)
      | Some l \<Rightarrow>
          if node_state (get_node l w) = NODE_DOWN \<and> admin_state (get_node l w) = STATE_ENABLED \<and>
             length wanted < minn
          then (set_insert l wanted, upd_node l (\<lambda>x. x\<lparr>min_nodes_kept := True\<rparr>) w)
          else (wanted, w))"

fun force_up_candidates :: "node_id option \<Rightarrow> 'q world \<Rightarrow> node_id list \<Rightarrow> node_id list \<Rightarrow> node_id list" where
  "force_up_candidates last_node w [] cands = cands"
| "force_up_candidates last_node w (n # ns) cands =
     (if last_node = Some n then force_up_candidates last_node w ns cands
      else if admin_state (get_node n w) < STATE_ENABLED then force_up_candidates last_node w ns cands
      else force_up_candidates last_node w ns (set_insert n cands))"

fun keep_previously_kept :: "nat \<Rightarrow> 'q world \<Rightarrow> node_id list \<Rightarrow> node_id list \<Rightarrow> node_id list \<times> 'q world" where
  "keep_previously_kept minn w [] wanted = (wanted, w)"
| "keep_previously_kept minn w (fuc # cs) wanted =
     (if length wanted \<ge> minn then (wanted, w)
      else if \<not> min_nodes_kept (get_node fuc w) then keep_previously_kept minn w cs wanted
      else keep_previously_kept minn (upd_node fuc (\<lambda>x. x\<lparr>min_nodes_kept := True\<rparr>) w) cs (set_insert fuc wanted))"

fun keep_any :: "nat \<Rightarrow> 'q world \<Rightarrow> node_id list \<Rightarrow> node_id list \<Rightarrow> node_id list \<times> 'q world" where
  "keep_any minn w [] wanted = (wanted, w)"
| "keep_any minn w (fuc # cs) wanted =
     (if length wanted \<ge> minn then (wanted, w)
      else keep_any minn (upd_node fuc (\<lambda>x. x\<lparr>min_nodes_kept := True\<rparr>) w) cs (set_insert fuc wanted))"

definition force_up ::
    "nat \<Rightarrow> node_id list \<Rightarrow> node_id option \<Rightarrow> 'q world \<Rightarrow> node_id list \<Rightarrow> node_id list \<times> 'q world" where
  "force_up minn ns last_node w wanted =
     (let (wanted, w) = keep_last_node minn last_node w wanted;
          cands = force_up_candidates last_node w ns [];
          (wanted, w) = keep_previously_kept minn w cands wanted
      in keep_any minn w cands wanted)"

text \<open>The calculation of the wanted nodes.\<close>

definition wanted_nodes :: "pool_id \<Rightarrow> node_id option \<Rightarrow> 'q world \<Rightarrow> node_id list \<times> 'q world" where
  "wanted_nodes p last_node w =
     (let w = upd_pool p (\<lambda>x. x\<lparr>backup_pool_active := False\<rparr>) w;
          pl = get_pool p w;
          wanted = add_previously_wanted (max_nodes pl) w (nodes pl) [];
          (wanted, w) = add_any_up (max_nodes pl) w (nodes pl) wanted
      in if min_nodes pl > 0 \<and> length wanted < min_nodes pl then
           (case fault_policy pl of
              FORCE_DOWN \<Rightarrow> ([], w)
            | FORCE_UP \<Rightarrow> force_up (min_nodes pl) (nodes pl) last_node w wanted
            | BACKUP_POOL \<Rightarrow>
                (case map_of (lb_pools w) (backup_pool_name pl) of
                   None \<Rightarrow> (wanted, w)
                 | Some b \<Rightarrow>
                     (up_nodes (get_pool b w), upd_pool p (\<lambda>x. x\<lparr>backup_pool_active := True\<rparr>) w)))
         else (wanted, w))"

definition commit_wanted :: "pool_id \<Rightarrow> node_id list \<Rightarrow> 'q world \<Rightarrow> 'q world" where
  "commit_wanted p wanted w =
     (if wanted \<noteq> up_nodes (get_pool p w)
      then upd_pool p (\<lambda>x. x\<lparr>up_nodes := wanted,
                             pool_state := (if wanted = [] then POOL_DOWN else POOL_UP),
                             pf_synced := False\<rparr>) w
      else w)"

definition recompute :: "pool_id \<Rightarrow> node_id option \<Rightarrow> 'q world \<Rightarrow> 'q world" where
  "recompute p last_node w =
     (if last_node = None \<or> state_changed (get_node (the last_node) w)
      then (case wanted_nodes p last_node w of (wanted, w) \<Rightarrow> commit_wanted p wanted w)
      else w)"

text \<open>The first part of \<open>update_pfctl\<close>: the message for the pool itself.\<close>

definition sync_pool ::
    "('q \<Rightarrow> pfctl_msg \<Rightarrow> bool \<times> 'q) \<Rightarrow> pool_id \<Rightarrow> 'q world \<Rightarrow> 'q world result" where
  "sync_pool try_send p w =
     (let pl = get_pool p w in
      if \<not> pf_synced pl then
        bind_result (send_message try_send (pool_name pl) (pf_name pl) (nodes pl) (up_nodes pl) w)
          (\<lambda>(sent, w). Inr (upd_pool p (\<lambda>x. x\<lparr>pf_synced := sent\<rparr>) w))
      else Inr w)"

function (sequential) pool_logic ::
    "nat \<Rightarrow> ('q \<Rightarrow> pfctl_msg \<Rightarrow> bool \<times> 'q) \<Rightarrow> pool_id \<Rightarrow> node_id option \<Rightarrow> 'q world \<Rightarrow> 'q world result"
  and update_pfctl ::
    "nat \<Rightarrow> ('q \<Rightarrow> pfctl_msg \<Rightarrow> bool \<times> 'q) \<Rightarrow> pool_id \<Rightarrow> 'q world \<Rightarrow> 'q world result"
  and update_dependents ::
    "nat \<Rightarrow> ('q \<Rightarrow> pfctl_msg \<Rightarrow> bool \<times> 'q) \<Rightarrow> pool_id \<Rightarrow> (string \<times> pool_id) list \<Rightarrow> 'q world \<Rightarrow> 'q world result"
where
  "pool_logic 0 try_send p last_node w = Inl Unbounded_Recursion"
| "pool_logic (Suc fuel) try_send p last_node w = update_pfctl fuel try_send p (recompute p last_node w)"
| "update_pfctl fuel try_send p w =
     (case sync_pool try_send p w of
        Inl e \<Rightarrow> Inl e
      | Inr w \<Rightarrow> update_dependents fuel try_send p (lb_pools w) w)"
| "update_dependents fuel try_send p [] w = Inr w"
| "update_dependents fuel try_send p ((key, q) # rest) w =
     (if backup_pool_name (get_pool q w) = pool_name (get_pool p w) \<and> backup_pool_active (get_pool q w)
      then (case pool_logic fuel try_send q None w of
              Inl e \<Rightarrow> Inl e
            | Inr w \<Rightarrow> update_dependents fuel try_send p rest w)
      else update_dependents fuel try_send p rest w)"
  by pat_completeness auto
termination
  by (relation "measures [\<lambda>x. case x of Inl (n, _) \<Rightarrow> n | Inr (Inl (n, _)) \<Rightarrow> n | Inr (Inr (n, _)) \<Rightarrow> n,
                          \<lambda>x. case x of Inl _ \<Rightarrow> 0 | Inr (Inl (_, _, _, w)) \<Rightarrow> 2
                                | Inr (Inr (_, _, _, l, _)) \<Rightarrow> 1,
                          \<lambda>x. case x of Inr (Inr (_, _, _, l, _)) \<Rightarrow> length l | _ \<Rightarrow> 0]")
     auto

definition sync_no_hc ::
    "nat \<Rightarrow> ('q \<Rightarrow> pfctl_msg \<Rightarrow> bool \<times> 'q) \<Rightarrow> pool_id \<Rightarrow> 'q world \<Rightarrow> 'q world result" where
  "sync_no_hc fuel try_send p w =
     (if \<not> has_hcs (get_pool p w) \<and> \<not> pf_synced (get_pool p w)
      then update_pfctl fuel try_send p w else Inr w)"

end
