(* ===== verification/Pool_Select.thy ===== *)
theory Pool_Select
  imports Lb_Pool
begin

text \<open>
  The selection of the wanted nodes. The four loops of \<open>pool_logic\<close> that add nodes to a set share
  one contract, the locale \<open>bounded_add\<close>; from it follows that the selection meets the abstract
  policy \<open>pool_policy\<close>, which speaks only of the sets of up and of enabled nodes.
\<close>

section \<open>Loops that add nodes up to a limit\<close>

locale bounded_add =
  fixes add :: "node_id list \<Rightarrow> node_id list \<Rightarrow> node_id list"
    and ok :: "node_id \<Rightarrow> bool"
    and full :: "nat \<Rightarrow> bool"
  assumes add_Nil: "add [] W = W"
    and add_Cons: "distinct (n # ns) \<Longrightarrow>
      add (n # ns) W =
        (if full (length W) then W else if ok n then add ns (set_insert n W) else add ns W)"
begin

lemma add_is_set: "distinct ns \<Longrightarrow> is_set W \<Longrightarrow> is_set (add ns W)"
  by (induction ns arbitrary: W) (simp_all add: add_Nil add_Cons)

lemma add_mono: "distinct ns \<Longrightarrow> set W \<subseteq> set (add ns W)"
proof (induction ns arbitrary: W)
  case (Cons n ns)
  then have "set W \<subseteq> set (add ns W)" "set W \<subseteq> set (add ns (set_insert n W))"
    using Cons.IH [of "set_insert n W"] by auto
  with Cons.prems show ?case by (simp add: add_Cons)
qed (simp add: add_Nil)

lemma add_sub: "distinct ns \<Longrightarrow> set (add ns W) \<subseteq> set W \<union> {n \<in> set ns. ok n}"
proof (induction ns arbitrary: W)
  case (Cons n ns)
  then show ?case
    using Cons.IH [of W] Cons.IH [of "set_insert n W"] by (auto simp: add_Cons)
qed (simp add: add_Nil)

lemma add_max:
  "distinct ns \<Longrightarrow> \<not> full (length (add ns W)) \<Longrightarrow> {n \<in> set ns. ok n} \<subseteq> set (add ns W)"
proof (induction ns arbitrary: W)
  case (Cons n ns)
  then have "\<not> full (length W)" by (auto simp: add_Cons split: if_splits)
  with Cons show ?case
    using add_mono [of ns "set_insert n W"] by (auto simp: add_Cons split: if_splits)
qed simp

lemma add_bound:
  "distinct ns \<Longrightarrow> is_set W \<Longrightarrow> full l \<Longrightarrow> length W \<le> l \<Longrightarrow> length (add ns W) \<le> l"
proof (induction ns arbitrary: W)
  case (Cons n ns)
  show ?case
  proof (cases "full (length W)")
    case False
    with Cons.prems have "length W < l" by (metis le_neq_implies_less)
    then have "length (set_insert n W) \<le> l"
      using Cons.prems by (simp add: length_set_insert)
    with Cons False show ?thesis by (simp add: add_Cons)
  qed (use Cons.prems in \<open>simp add: add_Cons\<close>)
qed (simp add: add_Nil)

text \<open>With a numeric limit the size of the result is determined.\<close>

lemma add_card:
  assumes "distinct ns" "is_set W" "length W \<le> l" and full: "\<And>k. full k \<longleftrightarrow> l \<le> k"
  shows "length (add ns W) = min l (card (set W \<union> {n \<in> set ns. ok n}))"
proof -
  let ?r = "add ns W" and ?all = "set W \<union> {n \<in> set ns. ok n}"
  have card: "length ?r = card (set ?r)"
    using add_is_set assms by (simp add: is_set_def distinct_card)
  have le: "card (set ?r) \<le> card ?all"
    using add_sub assms by (intro card_mono) auto
  show ?thesis
  proof (cases "full (length ?r)")
    case True
    then have "length ?r = l" using add_bound [of ns W l] assms by simp
    with le card show ?thesis by simp
  next
    case False
    then have "set ?r = ?all"
      using add_max add_mono add_sub assms by (intro equalityI) auto
    with False card full show ?thesis by simp
  qed
qed

end

section \<open>Writes to the flags of nodes\<close>

text \<open>
  A step of the selection changes nothing but the flags \<open>min_nodes_kept\<close> and \<open>max_nodes_kept\<close>
  of nodes: the worlds before and after it are equal once these flags are cleared.
\<close>

definition strip_flags :: "'q world \<Rightarrow> 'q world" where
  "strip_flags w =
     w\<lparr>node_heap := (\<lambda>j. (node_heap w j)\<lparr>min_nodes_kept := False, max_nodes_kept := False\<rparr>)\<rparr>"

definition flags_only :: "'q world \<Rightarrow> 'q world \<Rightarrow> bool" where
  "flags_only w w' \<longleftrightarrow> strip_flags w = strip_flags w'"

lemma flags_only_refl [simp]: "flags_only w w"
  by (simp add: flags_only_def)

lemma flags_only_trans: "flags_only w w' \<Longrightarrow> flags_only w' w'' \<Longrightarrow> flags_only w w''"
  by (simp add: flags_only_def)

lemma flags_only_nodeD:
  assumes "flags_only w w'"
  shows "(get_node j w')\<lparr>min_nodes_kept := a, max_nodes_kept := b\<rparr> =
         (get_node j w)\<lparr>min_nodes_kept := a, max_nodes_kept := b\<rparr>"
proof -
  from assms have "node_heap (strip_flags w) j = node_heap (strip_flags w') j"
    by (simp add: flags_only_def)
  then have "(node_heap w j)\<lparr>min_nodes_kept := False, max_nodes_kept := False\<rparr> =
             (node_heap w' j)\<lparr>min_nodes_kept := False, max_nodes_kept := False\<rparr>"
    by (simp add: strip_flags_def)
  then show ?thesis by (cases "node_heap w j"; cases "node_heap w' j") (simp add: get_node_def)
qed

lemma flags_only_cong:
  assumes "flags_only w w'"
    and "\<And>x a b. sel (x\<lparr>min_nodes_kept := a, max_nodes_kept := b\<rparr>) = sel x"
  shows "sel (get_node j w') = sel (get_node j w)"
  using flags_only_nodeD [OF assms(1), where j = j and a = False and b = False] assms(2) by metis

lemma flags_only_node:
  assumes "flags_only w w'"
  shows "node_name (get_node j w') = node_name (get_node j w)"
    and "node_ipv4_address (get_node j w') = node_ipv4_address (get_node j w)"
    and "node_ipv6_address (get_node j w') = node_ipv6_address (get_node j w)"
    and "parent_lbpool (get_node j w') = parent_lbpool (get_node j w)"
    and "node_state (get_node j w') = node_state (get_node j w)"
    and "admin_state (get_node j w') = admin_state (get_node j w)"
    and "healthchecks (get_node j w') = healthchecks (get_node j w)"
    and "state_changed (get_node j w') = state_changed (get_node j w)"
    and "checked (get_node j w') = checked (get_node j w)"
    and "is_up (get_node j w') = is_up (get_node j w)"
  by (rule flags_only_cong [OF assms], simp add: is_up_def)+

lemma strip_flags_world [simp]:
  "pool_heap (strip_flags w) = pool_heap w" "hc_heap (strip_flags w) = hc_heap w"
  "lb_pools (strip_flags w) = lb_pools w" "pfctl_mq (strip_flags w) = pfctl_mq w"
  "node_dom (strip_flags w) = node_dom w" "pool_dom (strip_flags w) = pool_dom w"
  "hc_dom (strip_flags w) = hc_dom w"
  by (simp_all add: strip_flags_def)

lemma flags_only_world:
  assumes "flags_only w w'"
  shows "get_pool i w' = get_pool i w"
    and "get_hc k w' = get_hc k w"
    and "lb_pools w' = lb_pools w"
    and "pfctl_mq w' = pfctl_mq w"
    and "node_dom w' = node_dom w"
    and "pool_dom w' = pool_dom w"
    and "hc_dom w' = hc_dom w"
  using assms unfolding flags_only_def get_pool_def get_hc_def
  by (metis strip_flags_world)+

lemmas flags_onlyD = flags_only_node flags_only_world

lemma flags_only_upd_node:
  assumes "\<And>x. (f x)\<lparr>min_nodes_kept := False, max_nodes_kept := False\<rparr> =
               x\<lparr>min_nodes_kept := False, max_nodes_kept := False\<rparr>"
  shows "flags_only w (upd_node n f w)"
  using assms by (simp add: flags_only_def strip_flags_def upd_node_def fun_eq_iff)

lemma flags_only_min [simp]: "flags_only w (upd_node n (\<lambda>x. x\<lparr>min_nodes_kept := b\<rparr>) w)"
  by (rule flags_only_upd_node) simp

lemma flags_only_max [simp]: "flags_only w (upd_node n (\<lambda>x. x\<lparr>max_nodes_kept := b\<rparr>) w)"
  by (rule flags_only_upd_node) simp

lemma add_any_up_flags: "flags_only w (snd (add_any_up maxn w ns W))"
  by (induction maxn w ns W rule: add_any_up.induct)
     (auto intro: flags_only_trans [OF flags_only_max])

lemma keep_previously_kept_flags: "flags_only w (snd (keep_previously_kept minn w cs W))"
  by (induction minn w cs W rule: keep_previously_kept.induct)
     (auto intro: flags_only_trans [OF flags_only_min])

lemma keep_any_flags: "flags_only w (snd (keep_any minn w cs W))"
  by (induction minn w cs W rule: keep_any.induct)
     (auto intro: flags_only_trans [OF flags_only_min])

lemma keep_last_node_flags: "flags_only w (snd (keep_last_node minn l w W))"
  by (simp add: keep_last_node_def split: option.splits)

lemma force_up_flags: "flags_only w (snd (force_up minn ns l w W))"
proof -
  obtain W1 w1 where 1: "keep_last_node minn l w W = (W1, w1)" by fastforce
  let ?cs = "force_up_candidates l w1 ns []"
  obtain W2 w2 where 2: "keep_previously_kept minn w1 ?cs W1 = (W2, w2)" by fastforce
  have "flags_only w w1" using keep_last_node_flags [of w minn l W] 1 by simp
  moreover have "flags_only w1 w2" using keep_previously_kept_flags [of w1 minn ?cs W1] 2 by simp
  moreover have "flags_only w2 (snd (keep_any minn w2 ?cs W2))" by (rule keep_any_flags)
  ultimately have "flags_only w (snd (keep_any minn w2 ?cs W2))"
    by (blast intro: flags_only_trans)
  then show ?thesis by (simp add: force_up_def 1 2)
qed

text \<open>The wanted set of a loop depends on the nodes it still has to visit only.\<close>

lemma add_any_up_upd:
  assumes "n \<notin> set ns"
  shows "fst (add_any_up maxn (upd_node n f w) ns W) = fst (add_any_up maxn w ns W)"
  using assms
proof (induction maxn w ns W arbitrary: f rule: add_any_up.induct)
  case (2 maxn w m ns wanted)
  have swap: "upd_node m g (upd_node n f w) = upd_node n f (upd_node m g w)" for g
    using "2.prems" by (auto simp: upd_node_def fun_upd_twist)
  show ?case using 2 by (auto simp: swap node_store.get_upd_other)
qed simp

lemma keep_previously_kept_upd:
  assumes "n \<notin> set ns"
  shows "fst (keep_previously_kept minn (upd_node n f w) ns W) = fst (keep_previously_kept minn w ns W)"
  using assms
proof (induction minn w ns W arbitrary: f rule: keep_previously_kept.induct)
  case (2 minn w m ns wanted)
  have swap: "upd_node m g (upd_node n f w) = upd_node n f (upd_node m g w)" for g
    using "2.prems" by (auto simp: upd_node_def fun_upd_twist)
  show ?case using 2 by (auto simp: swap node_store.get_upd_other)
qed simp

lemma keep_any_upd: "fst (keep_any minn w cs W) = fst (keep_any minn w' cs W)"
  by (induction cs arbitrary: w w' W) auto

section \<open>The loops meet the contract\<close>

interpretation prev_wanted: bounded_add
    "add_previously_wanted maxn w"
    "\<lambda>n. is_up (get_node n w) \<and> max_nodes_kept (get_node n w)"
    "\<lambda>k. maxn \<noteq> 0 \<and> maxn \<le> k" for maxn w
  by unfold_locales auto

interpretation any_up: bounded_add
    "\<lambda>ns W. fst (add_any_up maxn w ns W)"
    "\<lambda>n. is_up (get_node n w) \<and> \<not> max_nodes_kept (get_node n w)"
    "\<lambda>k. maxn \<noteq> 0 \<and> maxn \<le> k" for maxn w
  by unfold_locales (auto simp: add_any_up_upd)

interpretation prev_kept: bounded_add
    "\<lambda>ns W. fst (keep_previously_kept minn w ns W)"
    "\<lambda>n. min_nodes_kept (get_node n w)"
    "\<lambda>k. minn \<le> k" for minn w
  by unfold_locales (auto simp: keep_previously_kept_upd)

interpretation kept_any: bounded_add
    "\<lambda>ns W. fst (keep_any minn w ns W)"
    "\<lambda>n. True"
    "\<lambda>k. minn \<le> k" for minn w
  by unfold_locales (auto intro: keep_any_upd)

section \<open>The abstract policy\<close>

definition up_set :: "node_id list \<Rightarrow> 'q world \<Rightarrow> node_id set" where
  "up_set ns w = {n \<in> set ns. is_up (get_node n w)}"

definition enabled_set :: "node_id list \<Rightarrow> 'q world \<Rightarrow> node_id set" where
  "enabled_set ns w = {n \<in> set ns. admin_state (get_node n w) = STATE_ENABLED}"

definition kept_set :: "node_id list \<Rightarrow> 'q world \<Rightarrow> node_id set" where
  "kept_set ns w = {n \<in> set ns. is_up (get_node n w) \<and> max_nodes_kept (get_node n w)}"

text \<open>
  \<open>pool_policy pl U E bk W\<close>: with up nodes \<open>U\<close> and enabled nodes \<open>E\<close>, and \<open>bk\<close> the nodes of the
  backup pool if there is one, \<open>W\<close> is an admissible set of nodes to send traffic to. As many up
  nodes as \<open>max_nodes\<close> allows are used; when these are fewer than \<open>min_nodes\<close>, the fault policy
  decides.
\<close>

definition pool_policy ::
    "LbPool \<Rightarrow> node_id set \<Rightarrow> node_id set \<Rightarrow> node_id set option \<Rightarrow> node_id set \<Rightarrow> bool" where
  "pool_policy pl U E bk W \<longleftrightarrow>
     (\<exists>B \<subseteq> U. card B = (if max_nodes pl = 0 then card U else min (max_nodes pl) (card U)) \<and>
        (if min_nodes pl \<le> card B then W = B
         else (case fault_policy pl of
                 FORCE_DOWN \<Rightarrow> W = {}
               | FORCE_UP \<Rightarrow> B \<subseteq> W \<and> W \<subseteq> E \<and> card W = min (min_nodes pl) (card E)
               | BACKUP_POOL \<Rightarrow> W = (case bk of None \<Rightarrow> B | Some S \<Rightarrow> S))))"

lemma up_subset_enabled: "up_set ns w \<subseteq> enabled_set ns w"
  by (auto simp: up_set_def enabled_set_def is_up_def)

lemma finite_node_sets [simp]: "finite (up_set ns w)" "finite (enabled_set ns w)" "finite (kept_set ns w)"
  by (simp_all add: up_set_def enabled_set_def kept_set_def)

lemma flags_only_sets:
  assumes "flags_only w w'"
  shows "up_set ns w' = up_set ns w" "enabled_set ns w' = enabled_set ns w"
  using flags_only_node [OF assms] by (simp_all add: up_set_def enabled_set_def)

section \<open>The two loops over the up nodes\<close>

definition base_wanted :: "nat \<Rightarrow> 'q world \<Rightarrow> node_id list \<Rightarrow> node_id list" where
  "base_wanted maxn w ns = fst (add_any_up maxn w ns (add_previously_wanted maxn w ns []))"

lemma prev_wanted_eq:
  assumes "is_set ns"
  shows "is_set (add_previously_wanted maxn w ns [])"
    and "set (add_previously_wanted maxn w ns []) \<subseteq> kept_set ns w"
    and "maxn = 0 \<or> card (kept_set ns w) \<le> maxn \<Longrightarrow>
           set (add_previously_wanted maxn w ns []) = kept_set ns w"
    and "maxn \<noteq> 0 \<Longrightarrow> length (add_previously_wanted maxn w ns []) = min maxn (card (kept_set ns w))"
proof -
  let ?P = "add_previously_wanted maxn w ns []"
  have d: "distinct ns" using assms by (rule is_set_distinct)
  show s: "is_set ?P" by (rule prev_wanted.add_is_set [OF d is_set_Nil])
  show sub: "set ?P \<subseteq> kept_set ns w"
    using prev_wanted.add_sub [OF d, of maxn w "[]"] by (auto simp: kept_set_def)
  show len: "length ?P = min maxn (card (kept_set ns w))" if "maxn \<noteq> 0"
    using prev_wanted.add_card [OF d is_set_Nil, of maxn maxn w] that by (simp add: kept_set_def)
  show "set ?P = kept_set ns w" if lim: "maxn = 0 \<or> card (kept_set ns w) \<le> maxn"
  proof (cases "maxn = 0")
    case True
    with prev_wanted.add_max [OF d, of maxn w "[]"] sub show ?thesis by (auto simp: kept_set_def)
  next
    case False
    with lim len have "card (set ?P) = card (kept_set ns w)"
      using s by (simp add: is_set_def distinct_card)
    with sub show ?thesis by (simp add: card_subset_eq)
  qed
qed

lemma base_wanted_up:
  assumes "is_set ns"
  shows "is_set (base_wanted maxn w ns)"
    and "set (base_wanted maxn w ns) \<subseteq> up_set ns w"
    and "maxn = 0 \<or> card (kept_set ns w) \<le> maxn \<Longrightarrow> kept_set ns w \<subseteq> set (base_wanted maxn w ns)"
proof -
  let ?P = "add_previously_wanted maxn w ns []"
  have d: "distinct ns" using assms by (rule is_set_distinct)
  note P = prev_wanted_eq [OF assms, of maxn w]
  show "is_set (base_wanted maxn w ns)"
    using any_up.add_is_set [OF d P(1)] by (simp add: base_wanted_def)
  show "set (base_wanted maxn w ns) \<subseteq> up_set ns w"
    using any_up.add_sub [OF d, of maxn w ?P] P(2)
    by (auto simp: base_wanted_def up_set_def kept_set_def)
  show "kept_set ns w \<subseteq> set (base_wanted maxn w ns)"
    if "maxn = 0 \<or> card (kept_set ns w) \<le> maxn"
    using any_up.add_mono [OF d, of ?P maxn w] P(3) [OF that] by (simp add: base_wanted_def)
qed

lemma base_wanted_card:
  assumes "is_set ns"
  shows "length (base_wanted maxn w ns) =
           (if maxn = 0 then card (up_set ns w) else min maxn (card (up_set ns w)))"
proof -
  let ?P = "add_previously_wanted maxn w ns []" and ?B = "base_wanted maxn w ns"
  let ?new = "{n \<in> set ns. is_up (get_node n w) \<and> \<not> max_nodes_kept (get_node n w)}"
  have d: "distinct ns" using assms by (rule is_set_distinct)
  note P = prev_wanted_eq [OF assms, of maxn w]
  note B = base_wanted_up [OF assms, of maxn w]
  have split: "kept_set ns w \<union> ?new = up_set ns w"
    by (auto simp: kept_set_def up_set_def)
  have card: "length ?B = card (set ?B)" using B(1) by (simp add: is_set_def distinct_card)
  show ?thesis
  proof (cases "maxn = 0")
    case True
    with any_up.add_max [OF d, of maxn w ?P] have "?new \<subseteq> set ?B"
      by (simp add: base_wanted_def)
    with True B split have "set ?B = up_set ns w" by blast
    with True card show ?thesis by simp
  next
    case False
    have "length ?P \<le> maxn" using P(4) [OF False] by simp
    then have len: "length ?B = min maxn (card (set ?P \<union> ?new))"
      using any_up.add_card [OF d P(1), of maxn maxn w] False by (simp add: base_wanted_def)
    show ?thesis
    proof (cases "card (kept_set ns w) \<le> maxn")
      case True
      with P(3) split have "set ?P \<union> ?new = up_set ns w" by simp
      with len False show ?thesis by simp
    next
      case more: False
      then have "card (set ?P) = maxn"
        using P(1) P(4) [OF False] by (simp add: is_set_def distinct_card)
      moreover have "card (set ?P) \<le> card (set ?P \<union> ?new)" by (intro card_mono) auto
      moreover have "card (kept_set ns w) \<le> card (up_set ns w)"
        using split by (intro card_mono) auto
      ultimately show ?thesis using len False more by simp
    qed
  qed
qed

text \<open>After the loops exactly the selected nodes carry the mark in addition to those that had it.\<close>

lemma add_any_up_marks:
  assumes "distinct ns" "\<forall>j \<in> set W. max_nodes_kept (get_node j w)"
  shows "max_nodes_kept (get_node j (snd (add_any_up maxn w ns W))) \<longleftrightarrow>
           max_nodes_kept (get_node j w) \<or> j \<in> set (fst (add_any_up maxn w ns W))"
  using assms
proof (induction maxn w ns W rule: add_any_up.induct)
  case (2 maxn w n ns wanted)
  let ?w = "upd_node n (\<lambda>x. x\<lparr>max_nodes_kept := True\<rparr>) w"
  have "n \<in> set (fst (add_any_up maxn ?w ns (set_insert n wanted)))"
    using any_up.add_mono [of ns "set_insert n wanted" maxn ?w] "2.prems"(1) by auto
  with 2 show ?case by (auto simp: node_store.get_upd)
qed auto

section \<open>Forcing nodes up\<close>

lemma force_up_candidates_set:
  "set (force_up_candidates l w ns C) =
     set C \<union> {n \<in> set ns. l \<noteq> Some n \<and> admin_state (get_node n w) = STATE_ENABLED}"
  by (induction l w ns C rule: force_up_candidates.induct) auto

lemma force_up_candidates_is_set: "is_set C \<Longrightarrow> is_set (force_up_candidates l w ns C)"
  by (induction l w ns C rule: force_up_candidates.induct) auto

text \<open>The node that changed last joins the selection when it is enabled and down.\<close>

lemma keep_last_node_wanted:
  assumes "is_set W" "length W < minn" "set_option l \<subseteq> set ns"
    and "up_set ns w \<subseteq> set W"
  shows "is_set (fst (keep_last_node minn l w W))"
    and "set W \<subseteq> set (fst (keep_last_node minn l w W))"
    and "set (fst (keep_last_node minn l w W)) \<subseteq> set W \<union> enabled_set ns w"
    and "length (fst (keep_last_node minn l w W)) \<le> minn"
    and "\<And>x. l = Some x \<Longrightarrow> x \<in> enabled_set ns w \<Longrightarrow> x \<in> set (fst (keep_last_node minn l w W))"
proof -
  have down: "node_state (get_node x w) = NODE_DOWN"
    if "x \<in> enabled_set ns w" "x \<notin> set W" for x
    using that assms(4) by (cases "node_state (get_node x w)") (auto simp: up_set_def enabled_set_def is_up_def)
  show "is_set (fst (keep_last_node minn l w W))"
    "set W \<subseteq> set (fst (keep_last_node minn l w W))"
    "set (fst (keep_last_node minn l w W)) \<subseteq> set W \<union> enabled_set ns w"
    "length (fst (keep_last_node minn l w W)) \<le> minn"
    using assms by (auto simp: keep_last_node_def enabled_set_def length_set_insert split: option.splits)
  show "x \<in> set (fst (keep_last_node minn l w W))" if "l = Some x" "x \<in> enabled_set ns w" for x
    using that down [OF that(2)] assms(2) by (auto simp: keep_last_node_def enabled_set_def)
qed

lemma force_up_wanted:
  assumes ns: "is_set ns" and W: "is_set W" "set W \<subseteq> enabled_set ns w" "up_set ns w \<subseteq> set W"
    and minn: "length W < minn" and l: "set_option l \<subseteq> set ns"
  shows "is_set (fst (force_up minn ns l w W))"
    and "set W \<subseteq> set (fst (force_up minn ns l w W))"
    and "set (fst (force_up minn ns l w W)) \<subseteq> enabled_set ns w"
    and "length (fst (force_up minn ns l w W)) = min minn (card (enabled_set ns w))"
proof -
  obtain W1 w1 where 1: "keep_last_node minn l w W = (W1, w1)" by fastforce
  define cs where "cs = force_up_candidates l w1 ns []"
  obtain W2 w2 where 2: "keep_previously_kept minn w1 cs W1 = (W2, w2)" by fastforce
  note k1 = keep_last_node_wanted [OF W(1) minn l W(3), unfolded 1 fst_conv]
  have "flags_only w w1" using keep_last_node_flags [of w minn l W] 1 by simp
  then have cs: "set cs = {n \<in> enabled_set ns w. l \<noteq> Some n}"
    by (auto simp: cs_def force_up_candidates_set enabled_set_def flags_only_node)
  have dc: "distinct cs" by (simp add: cs_def force_up_candidates_is_set is_set_distinct)
  have 3: "force_up minn ns l w W = keep_any minn w2 cs W2"
    by (simp add: force_up_def 1 2 cs_def [symmetric])
  have k2: "is_set W2" "set W1 \<subseteq> set W2" "set W2 \<subseteq> set W1 \<union> set cs" "length W2 \<le> minn"
    using prev_kept.add_is_set [OF dc k1(1), of minn w1] prev_kept.add_mono [OF dc, of W1 minn w1]
      prev_kept.add_sub [OF dc, of minn w1 W1] prev_kept.add_bound [OF dc k1(1), of minn minn w1] k1(4)
    by (auto simp: 2)
  have all: "set W2 \<union> set cs = enabled_set ns w"
    using k1 k2 W(2) cs by auto
  show "is_set (fst (force_up minn ns l w W))"
    using kept_any.add_is_set [OF dc k2(1), of minn w2] by (simp add: 3)
  show "set W \<subseteq> set (fst (force_up minn ns l w W))"
    using kept_any.add_mono [OF dc, of W2 minn w2] k1(2) k2(2) by (auto simp: 3)
  show "set (fst (force_up minn ns l w W)) \<subseteq> enabled_set ns w"
    using kept_any.add_sub [OF dc, of minn w2 W2] all by (auto simp: 3)
  show "length (fst (force_up minn ns l w W)) = min minn (card (enabled_set ns w))"
    using kept_any.add_card [OF dc k2(1,4), where w = w2] all by (simp add: 3)
qed

section \<open>The calculation refines the policy\<close>

definition backup_set :: "LbPool \<Rightarrow> 'q world \<Rightarrow> node_id set option" where
  "backup_set pl w =
     map_option (\<lambda>b. set (up_nodes (get_pool b w))) (map_of (lb_pools w) (backup_pool_name pl))"

text \<open>What the configuration guarantees of a pool, and of the node a handler reports.\<close>

definition pool_wf :: "pool_id \<Rightarrow> 'q world \<Rightarrow> bool" where
  "pool_wf p w \<longleftrightarrow>
     is_set (nodes (get_pool p w)) \<and>
     (max_nodes (get_pool p w) > 0 \<longrightarrow> min_nodes (get_pool p w) \<le> max_nodes (get_pool p w))"

abbreviation deactivated :: "pool_id \<Rightarrow> 'q world \<Rightarrow> 'q world" where
  "deactivated p w \<equiv> upd_pool p (\<lambda>x. x\<lparr>backup_pool_active := False\<rparr>) w"

definition after_loops :: "pool_id \<Rightarrow> 'q world \<Rightarrow> 'q world" where
  "after_loops p w =
     (let w0 = deactivated p w; pl = get_pool p w0 in
      snd (add_any_up (max_nodes pl) w0 (nodes pl) (add_previously_wanted (max_nodes pl) w0 (nodes pl) [])))"

lemma after_loops_flags: "flags_only (deactivated p w) (after_loops p w)"
  by (simp add: after_loops_def Let_def add_any_up_flags)

lemma add_previously_wanted_frame:
  "add_previously_wanted maxn (upd_pool p f w) ns W = add_previously_wanted maxn w ns W"
  by (induction maxn w ns W rule: add_previously_wanted.induct) auto

lemma add_any_up_frame: "fst (add_any_up maxn (upd_pool p f w) ns W) = fst (add_any_up maxn w ns W)"
proof (induction maxn w ns W rule: add_any_up.induct)
  case (2 maxn w n ns wanted)
  have "upd_node n g (upd_pool p f w) = upd_pool p f (upd_node n g w)" for g
    by (simp add: upd_node_def upd_pool_def)
  with 2 show ?case by auto
qed simp

lemma base_wanted_frame [simp]: "base_wanted maxn (upd_pool p f w) ns = base_wanted maxn w ns"
  by (simp add: base_wanted_def add_previously_wanted_frame add_any_up_frame)

lemma node_sets_frame [simp]:
  "up_set ns (upd_pool p f w) = up_set ns w"
  "enabled_set ns (upd_pool p f w) = enabled_set ns w"
  "kept_set ns (upd_pool p f w) = kept_set ns w"
  by (simp_all add: up_set_def enabled_set_def kept_set_def)

lemma wanted_nodes_eq:
  fixes p w
  defines "pl \<equiv> get_pool p w" and "B \<equiv> base_wanted (max_nodes (get_pool p w)) w (nodes (get_pool p w))"
    and "w1 \<equiv> after_loops p w"
  shows "wanted_nodes p l w =
     (if min_nodes pl \<le> length B then (B, w1)
      else (case fault_policy pl of
              FORCE_DOWN \<Rightarrow> ([], w1)
            | FORCE_UP \<Rightarrow> force_up (min_nodes pl) (nodes pl) l w1 B
            | BACKUP_POOL \<Rightarrow>
                (case map_of (lb_pools w) (backup_pool_name pl) of
                   None \<Rightarrow> (B, w1)
                 | Some b \<Rightarrow> (up_nodes (get_pool b w), upd_pool p (\<lambda>x. x\<lparr>backup_pool_active := True\<rparr>) w1))))"
proof -
  have B: "(B, w1) = add_any_up (max_nodes pl) (deactivated p w) (nodes pl)
             (add_previously_wanted (max_nodes pl) (deactivated p w) (nodes pl) [])"
    by (simp add: B_def w1_def after_loops_def base_wanted_def add_previously_wanted_frame
        add_any_up_frame Let_def pl_def prod_eq_iff)
  have up: "up_nodes (get_pool b w1) = up_nodes (get_pool b w)" for b
    using after_loops_flags [of p w] by (simp add: w1_def flags_onlyD pool_store.get_upd)
  have m: "lb_pools w1 = lb_pools w"
    using after_loops_flags [of p w] by (simp add: w1_def flags_onlyD)
  show ?thesis
    by (simp add: wanted_nodes_def Let_def B [symmetric, simplified pl_def] up m pl_def
        split: FaultPolicy.split option.split)
qed

lemma wanted_nodes_policy:
  assumes wf: "pool_wf p w" and l: "set_option l \<subseteq> set (nodes (get_pool p w))"
  shows "pool_policy (get_pool p w) (up_set (nodes (get_pool p w)) w)
           (enabled_set (nodes (get_pool p w)) w) (backup_set (get_pool p w) w)
           (set (fst (wanted_nodes p l w)))"
proof -
  let ?pl = "get_pool p w"
  let ?ns = "nodes ?pl" and ?B = "base_wanted (max_nodes ?pl) w (nodes ?pl)" and ?w1 = "after_loops p w"
  have ns: "is_set ?ns" using wf by (simp add: pool_wf_def)
  note B = base_wanted_up [OF ns, of "max_nodes ?pl" w]
  have card: "card (set ?B) = length ?B" using B(1) by (simp add: is_set_def distinct_card)
  have sets: "up_set ?ns ?w1 = up_set ?ns w" "enabled_set ?ns ?w1 = enabled_set ?ns w"
    using flags_only_sets [OF after_loops_flags [of p w]] by simp_all
  have forced: "set ?B \<subseteq> set (fst F) \<and> set (fst F) \<subseteq> enabled_set ?ns w \<and>
      card (set (fst F)) = min (min_nodes ?pl) (card (enabled_set ?ns w))"
    if few: "\<not> min_nodes ?pl \<le> length ?B" and F: "F = force_up (min_nodes ?pl) ?ns l ?w1 ?B" for F
  proof -
    have "set ?B = up_set ?ns w"
      using B card few wf base_wanted_card [OF ns, of "max_nodes ?pl" w]
      by (intro card_subset_eq) (auto simp: pool_wf_def split: if_splits)
    moreover from this have "set ?B \<subseteq> enabled_set ?ns ?w1" "up_set ?ns ?w1 \<subseteq> set ?B"
      using up_subset_enabled [of ?ns w] sets by auto
    ultimately show ?thesis
      using force_up_wanted [OF ns B(1), of ?w1 "min_nodes ?pl" l] l few F
      by (auto simp: sets is_set_def distinct_card)
  qed
  have size: "card (set ?B) =
      (if max_nodes ?pl = 0 then card (up_set ?ns w) else min (max_nodes ?pl) (card (up_set ?ns w)))"
    using base_wanted_card [OF ns, of "max_nodes ?pl" w] card by simp
  show ?thesis
  proof (cases "min_nodes ?pl \<le> length ?B")
    case True
    then show ?thesis
      unfolding pool_policy_def by (intro exI [of _ "set ?B"]) (simp add: wanted_nodes_eq B(2) size [symmetric] card)
  next
    case False
    then show ?thesis
      unfolding pool_policy_def using forced [OF False refl]
      by (intro exI [of _ "set ?B"])
         (simp add: wanted_nodes_eq B(2) size [symmetric] card backup_set_def
           split: FaultPolicy.split option.split)
  qed
qed

lemma pool_policy_enabled:
  assumes "pool_policy pl U E None W" "U \<subseteq> E"
  shows "W \<subseteq> E"
  using assms by (cases "fault_policy pl") (auto simp: pool_policy_def split: if_splits)

end
