(* ===== verification/Pool_Inv.thy ===== *)
theory Pool_Inv
  imports Pool_Select
begin

text \<open>
  The invariant of a pool and of all pools, and that \<open>pool_logic\<close> establishes it: the nodes in use
  meet the policy, the pool's state says whether there are any, the marks of \<open>max_nodes\<close> are on
  nodes in use, and a pool that runs on its backup pool mirrors that pool's nodes.
\<close>

section \<open>The invariant of one pool\<close>

definition marked_set :: "node_id list \<Rightarrow> 'q world \<Rightarrow> node_id set" where
  "marked_set ns w = {n \<in> set ns. max_nodes_kept (get_node n w)}"

text \<open>What holds of a pool also while the state of one of its nodes is being changed.\<close>

definition pool_weak :: "pool_id \<Rightarrow> 'q world \<Rightarrow> bool" where
  "pool_weak p w \<longleftrightarrow>
     (let pl = get_pool p w in
      (pool_state pl = POOL_UP \<longleftrightarrow> up_nodes pl \<noteq> []) \<and> is_set (up_nodes pl) \<and>
      marked_set (nodes pl) w \<subseteq> up_set (nodes pl) w \<and>
      (max_nodes pl \<noteq> 0 \<longrightarrow> card (marked_set (nodes pl) w) \<le> max_nodes pl))"

definition pool_inv :: "pool_id \<Rightarrow> 'q world \<Rightarrow> bool" where
  "pool_inv p w \<longleftrightarrow>
     pool_weak p w \<and>
     (let pl = get_pool p w in
      (backup_pool_active pl \<longrightarrow> fault_policy pl = BACKUP_POOL) \<and>
      pool_policy pl (up_set (nodes pl) w) (enabled_set (nodes pl) w)
        (if backup_pool_active pl then Some (set (up_nodes pl)) else None) (set (up_nodes pl)))"

text \<open>A pool that runs on its backup uses exactly the nodes the backup pool uses.\<close>

definition linked :: "pool_id \<Rightarrow> 'q world \<Rightarrow> bool" where
  "linked p w \<longleftrightarrow>
     (let pl = get_pool p w in
      backup_pool_active pl \<longrightarrow>
        (\<exists>b. map_of (lb_pools w) (backup_pool_name pl) = Some b \<and> up_nodes pl = up_nodes (get_pool b w)))"

lemma pool_inv_weak: "pool_inv p w \<Longrightarrow> pool_weak p w"
  by (simp add: pool_inv_def)

lemma pool_policy_synced [simp]: "pool_policy (pl\<lparr>pf_synced := c\<rparr>) = pool_policy pl"
  by (simp add: pool_policy_def fun_eq_iff cong: FaultPolicy.case_cong)

lemma marked_set_finite [simp]: "finite (marked_set ns w)"
  by (simp add: marked_set_def)

lemma marked_set_frame [simp]: "marked_set ns (upd_pool p f w) = marked_set ns w"
  by (simp add: marked_set_def)

lemma kept_set_eq: "kept_set ns w = marked_set ns w \<inter> up_set ns w"
  by (auto simp: kept_set_def marked_set_def up_set_def)

lemma node_sets_cong:
  assumes "\<And>n. n \<in> set ns \<Longrightarrow> get_node n w' = get_node n w"
  shows "up_set ns w' = up_set ns w" "enabled_set ns w' = enabled_set ns w" "marked_set ns w' = marked_set ns w"
  using assms by (auto simp: up_set_def enabled_set_def marked_set_def)

lemma pool_inv_cong:
  assumes "get_pool q w' = get_pool q w"
    and "\<And>n. n \<in> set (nodes (get_pool q w)) \<Longrightarrow> get_node n w' = get_node n w"
  shows "pool_inv q w' \<longleftrightarrow> pool_inv q w" "pool_weak q w' \<longleftrightarrow> pool_weak q w"
  using assms node_sets_cong [of "nodes (get_pool q w)" w' w]
  by (simp_all add: pool_inv_def pool_weak_def Let_def)

section \<open>What a selection changes\<close>

text \<open>
  The worlds before and after \<open>pool_logic\<close> agree once the dynamic parts are cleared: the marks of
  nodes, the selection of pools and the message queue.
\<close>

definition strip_pool :: "LbPool \<Rightarrow> LbPool" where
  "strip_pool pl = pl\<lparr>pool_state := POOL_DOWN, backup_pool_active := False, pf_synced := False, up_nodes := []\<rparr>"

definition strip_dynamic :: "'q world \<Rightarrow> 'q world" where
  "strip_dynamic w = (strip_flags w)\<lparr>pool_heap := (\<lambda>j. strip_pool (pool_heap w j)), pfctl_mq := undefined\<rparr>"

definition static_eq :: "'q world \<Rightarrow> 'q world \<Rightarrow> bool" where
  "static_eq w w' \<longleftrightarrow> strip_dynamic w = strip_dynamic w'"

lemma static_eq_refl [simp]: "static_eq w w"
  by (simp add: static_eq_def)

lemma static_eq_trans: "static_eq w w' \<Longrightarrow> static_eq w' w'' \<Longrightarrow> static_eq w w''"
  by (simp add: static_eq_def)

lemma flags_only_static: "flags_only w w' \<Longrightarrow> static_eq w w'"
proof -
  assume f: "flags_only w w'"
  then have "pool_heap w' = pool_heap w" by (metis flags_only_def strip_flags_world(1))
  with f show ?thesis by (simp add: static_eq_def strip_dynamic_def flags_only_def)
qed

lemma upd_pool_static:
  assumes "\<And>x. strip_pool (f x) = strip_pool x"
  shows "static_eq w (upd_pool p f w)"
  using assms by (simp add: static_eq_def strip_dynamic_def strip_flags_def upd_pool_def fun_eq_iff)

lemma mq_static: "static_eq w (w\<lparr>pfctl_mq := q\<rparr>)"
  by (simp add: static_eq_def strip_dynamic_def strip_flags_def)

lemma strip_dynamic_node:
  "(get_node j (strip_dynamic w)) = (get_node j w)\<lparr>min_nodes_kept := False, max_nodes_kept := False\<rparr>"
  by (simp add: strip_dynamic_def strip_flags_def get_node_def)

lemma strip_dynamic_world [simp]:
  "get_pool j (strip_dynamic w) = strip_pool (get_pool j w)"
  "get_hc k (strip_dynamic w) = get_hc k w"
  "lb_pools (strip_dynamic w) = lb_pools w"
  "node_dom (strip_dynamic w) = node_dom w"
  "pool_dom (strip_dynamic w) = pool_dom w"
  "hc_dom (strip_dynamic w) = hc_dom w"
  by (simp_all add: strip_dynamic_def strip_flags_def get_pool_def get_hc_def)

lemma strip_dynamic_globals: "same_globals (strip_dynamic w) w"
  by (simp add: strip_dynamic_def strip_flags_def same_globals_def)

lemma static_eq_nodeD:
  assumes "static_eq w w'" and "\<And>x a b. sel (x\<lparr>min_nodes_kept := a, max_nodes_kept := b\<rparr>) = sel x"
  shows "sel (get_node j w') = sel (get_node j w)"
  using assms strip_dynamic_node [of j w] strip_dynamic_node [of j w'] unfolding static_eq_def by metis

lemma static_eq_poolD:
  assumes "static_eq w w'" and "\<And>x. sel (strip_pool x) = sel x"
  shows "sel (get_pool j w') = sel (get_pool j w)"
  using assms strip_dynamic_world(1) [of j w] strip_dynamic_world(1) [of j w'] unfolding static_eq_def by metis

lemma static_eq_node:
  assumes "static_eq w w'"
  shows "parent_lbpool (get_node j w') = parent_lbpool (get_node j w)"
    and "node_state (get_node j w') = node_state (get_node j w)"
    and "admin_state (get_node j w') = admin_state (get_node j w)"
    and "healthchecks (get_node j w') = healthchecks (get_node j w)"
    and "state_changed (get_node j w') = state_changed (get_node j w)"
    and "checked (get_node j w') = checked (get_node j w)"
    and "node_name (get_node j w') = node_name (get_node j w)"
    and "node_ipv4_address (get_node j w') = node_ipv4_address (get_node j w)"
    and "node_ipv6_address (get_node j w') = node_ipv6_address (get_node j w)"
    and "is_up (get_node j w') = is_up (get_node j w)"
  by (rule static_eq_nodeD [OF assms], simp add: is_up_def)+

lemma static_eq_pool:
  assumes "static_eq w w'"
  shows "pool_name (get_pool j w') = pool_name (get_pool j w)"
    and "pf_name (get_pool j w') = pf_name (get_pool j w)"
    and "nodes (get_pool j w') = nodes (get_pool j w)"
    and "backup_pool_name (get_pool j w') = backup_pool_name (get_pool j w)"
    and "min_nodes (get_pool j w') = min_nodes (get_pool j w)"
    and "max_nodes (get_pool j w') = max_nodes (get_pool j w)"
    and "fault_policy (get_pool j w') = fault_policy (get_pool j w)"
    and "has_hcs (get_pool j w') = has_hcs (get_pool j w)"
  by (rule static_eq_poolD [OF assms], simp add: strip_pool_def)+

lemma static_eq_world:
  assumes "static_eq w w'"
  shows "lb_pools w' = lb_pools w" "get_hc k w' = get_hc k w" "node_dom w' = node_dom w"
    "pool_dom w' = pool_dom w" "hc_dom w' = hc_dom w"
  using assms unfolding static_eq_def by (metis strip_dynamic_world)+

lemma static_eq_globals: "static_eq w w' \<Longrightarrow> same_globals w w'"
  using strip_dynamic_globals [of w] strip_dynamic_globals [of w'] by (simp add: static_eq_def same_globals_def)

lemmas static_eqD = static_eq_node static_eq_pool static_eq_world

lemma static_eq_sets:
  assumes "static_eq w w'"
  shows "up_set ns w' = up_set ns w" "enabled_set ns w' = enabled_set ns w" "pool_wf p w' = pool_wf p w"
  using static_eqD [OF assms] by (simp_all add: up_set_def enabled_set_def pool_wf_def)

lemma wanted_nodes_static: "static_eq w (snd (wanted_nodes p l w))"
proof -
  have 0: "static_eq w (after_loops p w)"
    by (rule static_eq_trans [OF upd_pool_static flags_only_static [OF after_loops_flags]])
       (simp add: strip_pool_def)
  then have "static_eq w (snd (force_up m ns l (after_loops p w) W))" for m ns W
    by (rule static_eq_trans [OF _ flags_only_static [OF force_up_flags]])
  moreover from 0 have "static_eq w (upd_pool p (\<lambda>x. x\<lparr>backup_pool_active := True\<rparr>) (after_loops p w))"
    by (rule static_eq_trans) (rule upd_pool_static, simp add: strip_pool_def)
  ultimately show ?thesis
    using 0 by (simp add: wanted_nodes_eq split: FaultPolicy.split option.split)
qed

lemma commit_wanted_static: "static_eq w (commit_wanted p W w)"
  unfolding commit_wanted_def by (auto intro!: upd_pool_static simp: strip_pool_def)

lemma recompute_static: "static_eq w (recompute p l w)"
proof -
  have "static_eq w (commit_wanted p W (snd (wanted_nodes p l w)))" for W
    by (rule static_eq_trans [OF wanted_nodes_static commit_wanted_static])
  then show ?thesis by (simp add: recompute_def case_prod_beta)
qed

text \<open>Sending the message of a pool changes the queue and the pool's \<open>pf_synced\<close>.\<close>

lemma sync_pool_cases:
  assumes "sync_pool try_send p w = Inr w'"
  obtains "w' = w"
  | q b where "w' = upd_pool p (\<lambda>x. x\<lparr>pf_synced := b\<rparr>) (w\<lparr>pfctl_mq := q\<rparr>)"
proof (cases "pf_synced (get_pool p w)")
  case True
  with assms that(1) show ?thesis by (simp add: sync_pool_def)
next
  case False
  with assms obtain b w1 where sent: "send_message try_send (pool_name (get_pool p w)) (pf_name (get_pool p w))
         (nodes (get_pool p w)) (up_nodes (get_pool p w)) w = Inr (b, w1)"
      and w': "w' = upd_pool p (\<lambda>x. x\<lparr>pf_synced := b\<rparr>) w1"
    by (auto simp: sync_pool_def Let_def bind_result_Inr_iff)
  from sent have "w1 = w\<lparr>pfctl_mq := pfctl_mq w1\<rparr>" by (rule send_message_Inr(4))
  with w' that(2) show ?thesis by metis
qed

lemma sync_pool_static:
  assumes "sync_pool try_send p w = Inr w'"
  shows "static_eq w w'"
  using assms
proof (cases rule: sync_pool_cases)
  case (2 q b)
  have "static_eq (w\<lparr>pfctl_mq := q\<rparr>) w'" unfolding 2 by (rule upd_pool_static) (simp add: strip_pool_def)
  then show ?thesis by (rule static_eq_trans [OF mq_static])
qed simp

lemma pool_logic_static:
  "pool_logic fuel try_send p l w = Inr w1 \<Longrightarrow> static_eq w w1"
  "update_pfctl fuel try_send p w = Inr w1 \<Longrightarrow> static_eq w w1"
  "update_dependents fuel try_send p rest w = Inr w1 \<Longrightarrow> static_eq w w1"
proof (induction fuel try_send p l w and fuel try_send p w and fuel try_send p rest w
    arbitrary: w1 and w1 and w1 rule: pool_logic_update_pfctl_update_dependents.induct)
  case (2 fuel try_send p l w)
  then show ?case by (auto intro: static_eq_trans [OF recompute_static])
next
  case (3 fuel try_send p w)
  then show ?case by (auto split: sum.splits intro: static_eq_trans [OF sync_pool_static])
next
  case (5 fuel try_send p key q rest w)
  then show ?case by (auto split: sum.splits if_splits intro: static_eq_trans)
qed auto

section \<open>A selection establishes the invariant of its pool\<close>

text \<open>The first part of \<open>pool_logic\<close> runs at the start and after a change of a node.\<close>

definition triggered :: "node_id option \<Rightarrow> 'q world \<Rightarrow> bool" where
  "triggered l w \<longleftrightarrow> l = None \<or> state_changed (get_node (the l) w)"

definition uses_backup :: "pool_id \<Rightarrow> 'q world \<Rightarrow> bool" where
  "uses_backup p w \<longleftrightarrow>
     (let pl = get_pool p w in
      \<not> min_nodes pl \<le> length (base_wanted (max_nodes pl) w (nodes pl)) \<and>
      fault_policy pl = BACKUP_POOL \<and> map_of (lb_pools w) (backup_pool_name pl) \<noteq> None)"

lemma wanted_nodes_pool:
  "get_pool q (snd (wanted_nodes p l w)) =
     (if q = p then (get_pool p w)\<lparr>backup_pool_active := uses_backup p w\<rparr> else get_pool q w)"
proof -
  have loops: "get_pool q (after_loops p w) = get_pool q (deactivated p w)"
    using after_loops_flags [of p w] by (rule flags_only_world)
  then have "get_pool q (snd (force_up m ns l (after_loops p w) W)) = get_pool q (deactivated p w)" for m ns W
    using flags_only_world(1) [OF force_up_flags] by metis
  with loops show ?thesis
    by (auto simp: wanted_nodes_eq uses_backup_def Let_def pool_store.get_upd
        split: FaultPolicy.splits option.splits)
qed

lemma recompute_untriggered: "\<not> triggered l w \<Longrightarrow> recompute p l w = w"
  by (auto simp: recompute_def triggered_def)

lemma recompute_pool:
  assumes "triggered l w"
  shows "get_pool q (recompute p l w) =
     (if q = p
      then (let pl = get_pool p w; W = fst (wanted_nodes p l w) in
            if W = up_nodes pl then pl\<lparr>backup_pool_active := uses_backup p w\<rparr>
            else pl\<lparr>backup_pool_active := uses_backup p w, up_nodes := W,
                    pool_state := (if W = [] then POOL_DOWN else POOL_UP), pf_synced := False\<rparr>)
      else get_pool q w)"
  using assms wanted_nodes_pool [of q p l w] wanted_nodes_pool [of p p l w]
  by (auto simp: recompute_def triggered_def commit_wanted_def case_prod_beta Let_def pool_store.get_upd)

lemma recompute_up_nodes:
  "triggered l w \<Longrightarrow> up_nodes (get_pool p (recompute p l w)) = fst (wanted_nodes p l w)"
  "triggered l w \<Longrightarrow> backup_pool_active (get_pool p (recompute p l w)) = uses_backup p w"
  by (simp_all add: recompute_pool Let_def)

lemma recompute_other_pool: "q \<noteq> p \<Longrightarrow> get_pool q (recompute p l w) = get_pool q w"
  by (cases "triggered l w") (simp_all add: recompute_pool recompute_untriggered)

text \<open>Only the marks of the pool's own nodes are touched.\<close>

lemma add_any_up_outside: "j \<notin> set ns \<Longrightarrow> get_node j (snd (add_any_up m w ns W)) = get_node j w"
  by (induction m w ns W rule: add_any_up.induct) (auto simp: node_store.get_upd)

lemma keep_previously_kept_outside:
  "j \<notin> set cs \<Longrightarrow> get_node j (snd (keep_previously_kept m w cs W)) = get_node j w"
  by (induction m w cs W rule: keep_previously_kept.induct) (auto simp: node_store.get_upd)

lemma keep_any_outside: "j \<notin> set cs \<Longrightarrow> get_node j (snd (keep_any m w cs W)) = get_node j w"
  by (induction m w cs W rule: keep_any.induct) (auto simp: node_store.get_upd)

lemma keep_last_node_outside:
  "set_option l \<subseteq> set ns \<Longrightarrow> j \<notin> set ns \<Longrightarrow> get_node j (snd (keep_last_node m l w W)) = get_node j w"
  by (auto simp: keep_last_node_def node_store.get_upd split: option.splits)

lemma force_up_outside:
  assumes "set_option l \<subseteq> set ns" "j \<notin> set ns"
  shows "get_node j (snd (force_up m ns l w W)) = get_node j w"
proof -
  obtain W1 w1 where 1: "keep_last_node m l w W = (W1, w1)" by fastforce
  obtain W2 w2 where 2: "keep_previously_kept m w1 (force_up_candidates l w1 ns []) W1 = (W2, w2)" by fastforce
  have cs: "j \<notin> set (force_up_candidates l w1 ns [])"
    using assms(2) by (simp add: force_up_candidates_set)
  show ?thesis
    using keep_last_node_outside [OF assms, of m w W] keep_previously_kept_outside [OF cs, of m w1 W1]
      keep_any_outside [OF cs, of m w2 W2]
    by (simp add: force_up_def 1 2)
qed

lemma recompute_outside:
  assumes "set_option l \<subseteq> set (nodes (get_pool p w))" "j \<notin> set (nodes (get_pool p w))"
  shows "get_node j (recompute p l w) = get_node j w"
proof -
  have 0: "get_node j (after_loops p w) = get_node j w"
    using assms(2) by (simp add: after_loops_def Let_def add_any_up_outside)
  then have "get_node j (snd (wanted_nodes p l w)) = get_node j w"
    by (simp add: wanted_nodes_eq force_up_outside [OF assms] split: FaultPolicy.split option.split)
  then show ?thesis
    by (simp add: recompute_def commit_wanted_def case_prod_beta)
qed

text \<open>The marks after a selection.\<close>

lemma keep_marks:
  "max_nodes_kept (get_node j (snd (force_up m ns l w W))) = max_nodes_kept (get_node j w)"
proof -
  have a: "max_nodes_kept (get_node j (snd (keep_any m w cs W))) = max_nodes_kept (get_node j w)" for w W and cs
    by (induction m w cs W rule: keep_any.induct) (auto simp: node_store.get_upd)
  have b: "max_nodes_kept (get_node j (snd (keep_previously_kept m w cs W))) = max_nodes_kept (get_node j w)" for w W and cs
    by (induction m w cs W rule: keep_previously_kept.induct) (auto simp: node_store.get_upd)
  have c: "max_nodes_kept (get_node j (snd (keep_last_node m l w W))) = max_nodes_kept (get_node j w)"
    by (auto simp: keep_last_node_def node_store.get_upd split: option.splits)
  show ?thesis by (simp add: force_up_def Let_def case_prod_beta a b c)
qed

lemma recompute_marks:
  assumes wf: "pool_wf p w" and weak: "pool_weak p w" and t: "triggered l w"
  shows "marked_set (nodes (get_pool p w)) (recompute p l w) =
           set (base_wanted (max_nodes (get_pool p w)) w (nodes (get_pool p w)))"
proof -
  let ?pl = "get_pool p w" and ?w0 = "deactivated p w"
  let ?ns = "nodes ?pl" and ?P = "add_previously_wanted (max_nodes ?pl) w (nodes ?pl) []"
  let ?B = "base_wanted (max_nodes ?pl) w ?ns"
  have ns: "is_set ?ns" using wf by (simp add: pool_wf_def)
  have "max_nodes_kept (get_node j (snd (wanted_nodes p l w))) = max_nodes_kept (get_node j (after_loops p w))" for j
    by (simp add: wanted_nodes_eq keep_marks split: FaultPolicy.split option.split)
  then have "max_nodes_kept (get_node j (recompute p l w)) = max_nodes_kept (get_node j (after_loops p w))" for j
    using t by (simp add: recompute_def triggered_def commit_wanted_def case_prod_beta)
  moreover have "max_nodes_kept (get_node j (after_loops p w)) \<longleftrightarrow> max_nodes_kept (get_node j w) \<or> j \<in> set ?B" for j
    using add_any_up_marks [OF is_set_distinct [OF ns], of ?P ?w0 j "max_nodes ?pl"] prev_wanted_eq(2) [OF ns, of "max_nodes ?pl" w]
    by (auto simp: after_loops_def Let_def base_wanted_def add_previously_wanted_frame add_any_up_frame kept_set_def)
  moreover have "marked_set ?ns w \<subseteq> set ?B"
    using base_wanted_up(3) [OF ns, of "max_nodes ?pl" w] weak
    by (auto simp: pool_weak_def Let_def kept_set_eq Int_absorb2)
  moreover have "set ?B \<subseteq> set ?ns" using base_wanted_up(2) [OF ns, of "max_nodes ?pl" w] by (auto simp: up_set_def)
  ultimately show ?thesis by (auto simp: marked_set_def)
qed

lemma wanted_nodes_is_set:
  assumes "pool_wf p w" "set_option l \<subseteq> set (nodes (get_pool p w))"
    and "\<And>b. map_of (lb_pools w) (backup_pool_name (get_pool p w)) = Some b \<Longrightarrow> is_set (up_nodes (get_pool b w))"
  shows "is_set (fst (wanted_nodes p l w))"
proof -
  let ?pl = "get_pool p w" and ?w1 = "after_loops p w"
  let ?B = "base_wanted (max_nodes ?pl) w (nodes ?pl)"
  have ns: "is_set (nodes ?pl)" using assms(1) by (simp add: pool_wf_def)
  note B = base_wanted_up [OF ns, of "max_nodes ?pl" w]
  have "is_set (fst (force_up (min_nodes ?pl) (nodes ?pl) l ?w1 ?B))" if few: "\<not> min_nodes ?pl \<le> length ?B"
  proof -
    have sets: "up_set (nodes ?pl) ?w1 = up_set (nodes ?pl) w" "enabled_set (nodes ?pl) ?w1 = enabled_set (nodes ?pl) w"
      using flags_only_sets [OF after_loops_flags [of p w]] by simp_all
    have "card (set ?B) = card (up_set (nodes ?pl) w)"
      using B(1) few assms(1) base_wanted_card [OF ns, of "max_nodes ?pl" w]
      by (auto simp: pool_wf_def is_set_def distinct_card split: if_splits)
    then have "set ?B = up_set (nodes ?pl) w" using B(2) by (intro card_subset_eq) auto
    then show ?thesis
      using force_up_wanted(1) [OF ns B(1), of ?w1 "min_nodes ?pl" l] up_subset_enabled [of "nodes ?pl" w] few assms(2)
      by (simp add: sets)
  qed
  then show ?thesis
    using B(1) assms(3) by (simp add: wanted_nodes_eq split: FaultPolicy.split option.split)
qed

lemma pool_policy_cong:
  assumes "max_nodes pl' = max_nodes pl" "min_nodes pl' = min_nodes pl" "fault_policy pl' = fault_policy pl"
    and "fault_policy pl = BACKUP_POOL \<Longrightarrow>
         \<not> min_nodes pl \<le> (if max_nodes pl = 0 then card U else min (max_nodes pl) (card U)) \<Longrightarrow> bk' = bk"
    and "pool_policy pl U E bk W"
  shows "pool_policy pl' U E bk' W"
proof -
  from assms(5) obtain B where B: "B \<subseteq> U"
      "card B = (if max_nodes pl = 0 then card U else min (max_nodes pl) (card U))"
      "if min_nodes pl \<le> card B then W = B
       else (case fault_policy pl of
               FORCE_DOWN \<Rightarrow> W = {}
             | FORCE_UP \<Rightarrow> B \<subseteq> W \<and> W \<subseteq> E \<and> card W = min (min_nodes pl) (card E)
             | BACKUP_POOL \<Rightarrow> W = (case bk of None \<Rightarrow> B | Some S \<Rightarrow> S))"
    unfolding pool_policy_def by blast
  show ?thesis
  proof (cases "fault_policy pl = BACKUP_POOL \<and> \<not> min_nodes pl \<le> card B")
    case True
    with assms(4) B(2) have "bk' = bk" by simp
    with B assms(1-3) show ?thesis unfolding pool_policy_def by metis
  next
    case False
    with B assms(1-3) show ?thesis
      unfolding pool_policy_def by (intro exI [of _ B]) (auto split: FaultPolicy.splits)
  qed
qed

text \<open>A triggered selection turns the weak invariant of its pool into the full one.\<close>

lemma recompute_inv:
  assumes wf: "pool_wf p w" and weak: "pool_weak p w" and t: "triggered l w"
    and l: "set_option l \<subseteq> set (nodes (get_pool p w))"
    and bk: "\<And>b. map_of (lb_pools w) (backup_pool_name (get_pool p w)) = Some b \<Longrightarrow> is_set (up_nodes (get_pool b w))"
  shows "pool_inv p (recompute p l w)"
proof -
  let ?w' = "recompute p l w" and ?pl = "get_pool p w"
  let ?ns = "nodes ?pl" and ?B = "base_wanted (max_nodes ?pl) w (nodes ?pl)"
  let ?pl' = "get_pool p ?w'" and ?W = "fst (wanted_nodes p l w)"
  have ns: "is_set ?ns" using wf by (simp add: pool_wf_def)
  note B = base_wanted_up [OF ns, of "max_nodes ?pl" w]
  have st: "static_eq w ?w'" by (rule recompute_static)
  note sets = static_eq_sets(1,2) [OF st]
  note cfg = static_eq_pool [OF st]
  have marks: "marked_set ?ns ?w' = set ?B" by (rule recompute_marks [OF wf weak t])
  have card: "card (set ?B) = length ?B" using B(1) by (simp add: is_set_def distinct_card)
  have "max_nodes ?pl \<noteq> 0 \<Longrightarrow> card (set ?B) \<le> max_nodes ?pl"
    using base_wanted_card [OF ns, of "max_nodes ?pl" w] card by simp
  moreover have "is_set ?W" by (rule wanted_nodes_is_set [OF wf l bk])
  moreover have "pool_state ?pl' = POOL_UP \<longleftrightarrow> up_nodes ?pl' \<noteq> []"
    using weak t by (auto simp: recompute_pool pool_weak_def Let_def)
  ultimately have "pool_weak p ?w'"
    using marks B(2) t by (simp add: pool_weak_def Let_def cfg sets recompute_up_nodes)
  moreover have "pool_policy ?pl' (up_set ?ns w) (enabled_set ?ns w)
      (if uses_backup p w then Some (set ?W) else None) (set ?W)"
  proof (rule pool_policy_cong [OF cfg(6,5,7) _ wanted_nodes_policy [OF wf l]])
    assume "fault_policy ?pl = BACKUP_POOL" and
      "\<not> min_nodes ?pl \<le> (if max_nodes ?pl = 0 then card (up_set ?ns w) else min (max_nodes ?pl) (card (up_set ?ns w)))"
    moreover from this(2) have "\<not> min_nodes ?pl \<le> length ?B"
      by (simp add: base_wanted_card [OF ns])
    ultimately show "(if uses_backup p w then Some (set ?W) else None) = backup_set ?pl w"
      by (auto simp: uses_backup_def wanted_nodes_eq backup_set_def Let_def)
  qed
  ultimately show ?thesis
    using t by (simp add: pool_inv_def Let_def recompute_up_nodes cfg sets) (auto simp: uses_backup_def Let_def)
qed

end
