(* ===== verification/Pool_World.thy ===== *)
theory Pool_World
  imports Pool_Inv
begin

text \<open>
  All pools together: the recursion of \<open>pool_logic\<close> over the pools that use a pool as their backup
  keeps the invariant of every pool, and it ends when the backup relation has no cycle.
\<close>

section \<open>The invariant of the program's pools\<close>

definition world_wf :: "'q world \<Rightarrow> bool" where
  "world_wf w \<longleftrightarrow>
     is_set (map fst (lb_pools w)) \<and>
     (\<forall>(k, p) \<in> set (lb_pools w).
        pool_name (get_pool p w) = k \<and> pool_wf p w \<and>
        (\<forall>n \<in> set (nodes (get_pool p w)). parent_lbpool (get_node n w) = p))"

text \<open>The invariant with exceptions: pools in \<open>X\<close> may lag behind their backup pool.\<close>

definition pools_inv :: "pool_id set \<Rightarrow> 'q world \<Rightarrow> bool" where
  "pools_inv X w \<longleftrightarrow>
     world_wf w \<and> (\<forall>(k, p) \<in> set (lb_pools w). pool_inv p w \<and> (p \<notin> X \<longrightarrow> linked p w))"

abbreviation world_inv :: "'q world \<Rightarrow> bool" where
  "world_inv \<equiv> pools_inv {}"

definition dependents :: "pool_id \<Rightarrow> 'q world \<Rightarrow> pool_id set" where
  "dependents p w = {q. backup_pool_name (get_pool q w) = pool_name (get_pool p w)}"

lemma static_eq_wf: "static_eq w w' \<Longrightarrow> world_wf w' = world_wf w"
  by (simp add: world_wf_def static_eqD static_eq_sets)

lemma static_eq_dependents: "static_eq w w' \<Longrightarrow> dependents p w' = dependents p w"
  by (simp add: dependents_def static_eqD)

lemma world_wf_pool:
  assumes "world_wf w" "(k, p) \<in> set (lb_pools w)"
  shows "pool_name (get_pool p w) = k" "pool_wf p w"
    "\<And>n. n \<in> set (nodes (get_pool p w)) \<Longrightarrow> parent_lbpool (get_node n w) = p"
    "map_of (lb_pools w) k = Some p"
proof -
  show "pool_name (get_pool p w) = k" "pool_wf p w"
    "\<And>n. n \<in> set (nodes (get_pool p w)) \<Longrightarrow> parent_lbpool (get_node n w) = p"
    using assms by (auto simp: world_wf_def)
  have "distinct (map fst (lb_pools w))" using assms(1) by (simp add: world_wf_def is_set_def)
  then show "map_of (lb_pools w) k = Some p" using assms(2) by simp
qed

lemma world_wf_disjoint:
  assumes "world_wf w" "(k, p) \<in> set (lb_pools w)" "(j, q) \<in> set (lb_pools w)" "p \<noteq> q"
  shows "set (nodes (get_pool p w)) \<inter> set (nodes (get_pool q w)) = {}"
  using world_wf_pool(3) [OF assms(1,2)] world_wf_pool(3) [OF assms(1,3)] assms(4) by blast

lemma pools_invD:
  assumes "pools_inv X w" "(k, p) \<in> set (lb_pools w)"
  shows "world_wf w" "pool_inv p w" "p \<notin> X \<Longrightarrow> linked p w"
  using assms by (auto simp: pools_inv_def)

lemma pools_inv_mono: "pools_inv X w \<Longrightarrow> X \<subseteq> Y \<Longrightarrow> pools_inv Y w"
  by (auto simp: pools_inv_def)

text \<open>The state in which a handler of a node of pool \<open>p\<close> calls \<open>pool_logic\<close>.\<close>

definition call_inv :: "pool_id set \<Rightarrow> pool_id \<Rightarrow> 'q world \<Rightarrow> bool" where
  "call_inv X p w \<longleftrightarrow>
     world_wf w \<and> (pool_name (get_pool p w), p) \<in> set (lb_pools w) \<and> pool_weak p w \<and>
     (\<forall>(k, q) \<in> set (lb_pools w).
        q \<noteq> p \<longrightarrow> pool_inv q w \<and> (q \<notin> X \<union> dependents p w \<longrightarrow> linked q w))"

lemma pools_inv_call:
  assumes "pools_inv X w" "(k, p) \<in> set (lb_pools w)"
  shows "call_inv X p w"
proof -
  note inv = pools_invD [OF assms] and wf = world_wf_pool [OF pools_invD(1) [OF assms] assms(2)]
  have "(pool_name (get_pool p w), p) \<in> set (lb_pools w)" using wf(1) assms(2) by simp
  with inv assms(1) show ?thesis
    by (auto simp: call_inv_def pools_inv_def pool_inv_weak)
qed

lemma linked_cong:
  assumes "lb_pools w' = lb_pools w" "get_pool q w' = get_pool q w"
    and "\<And>b. map_of (lb_pools w) (backup_pool_name (get_pool q w)) = Some b \<Longrightarrow>
           up_nodes (get_pool b w') = up_nodes (get_pool b w)"
  shows "linked q w' = linked q w"
  using assms by (auto simp: linked_def Let_def)

lemma recompute_linked:
  assumes t: "triggered l w"
  shows "linked p (recompute p l w)"
  unfolding linked_def Let_def
proof
  assume "backup_pool_active (get_pool p (recompute p l w))"
  then have "uses_backup p w" using t by (simp add: recompute_up_nodes)
  then obtain b where b: "map_of (lb_pools w) (backup_pool_name (get_pool p w)) = Some b"
      and W: "fst (wanted_nodes p l w) = up_nodes (get_pool b w)"
    by (auto simp: uses_backup_def wanted_nodes_eq Let_def)
  have "up_nodes (get_pool p (recompute p l w)) = up_nodes (get_pool b (recompute p l w))"
    using W t by (cases "b = p") (simp_all add: recompute_up_nodes recompute_other_pool)
  with b show "\<exists>b. map_of (lb_pools (recompute p l w)) (backup_pool_name (get_pool p (recompute p l w))) = Some b \<and>
      up_nodes (get_pool p (recompute p l w)) = up_nodes (get_pool b (recompute p l w))"
    using static_eqD [OF recompute_static [of w p l]] by auto
qed

text \<open>The selection of one pool restores everything but the links of its dependents.\<close>

lemma recompute_call_inv:
  assumes c: "call_inv X p w" and t: "triggered l w" and l: "set_option l \<subseteq> set (nodes (get_pool p w))"
  shows "pools_inv (X \<union> dependents p w) (recompute p l w)"
proof -
  let ?w' = "recompute p l w"
  have wf: "world_wf w" and p: "(pool_name (get_pool p w), p) \<in> set (lb_pools w)" and weak: "pool_weak p w"
    and others: "\<And>k q. (k, q) \<in> set (lb_pools w) \<Longrightarrow> q \<noteq> p \<Longrightarrow>
        pool_inv q w \<and> (q \<notin> X \<union> dependents p w \<longrightarrow> linked q w)"
    using c by (auto simp: call_inv_def)
  have st: "static_eq w ?w'" by (rule recompute_static)
  have is_set: "is_set (up_nodes (get_pool b w))" if "(k, b) \<in> set (lb_pools w)" for k b
    using others [OF that] weak by (cases "b = p") (auto simp: pool_inv_def pool_weak_def Let_def)
  have "pool_inv p ?w'"
    by (rule recompute_inv [OF world_wf_pool(2) [OF wf p] weak t l]) (rule is_set, erule map_of_SomeD)
  moreover have "pool_inv q ?w' \<and> (q \<notin> X \<union> dependents p w \<longrightarrow> linked q ?w')"
    if q: "(k, q) \<in> set (lb_pools w)" "q \<noteq> p" for k q
  proof
    have "get_pool q ?w' = get_pool q w" using q(2) by (rule recompute_other_pool)
    moreover have "get_node n ?w' = get_node n w" if "n \<in> set (nodes (get_pool q w))" for n
      using world_wf_disjoint [OF wf q(1) p q(2)] that by (intro recompute_outside [OF l]) auto
    ultimately show "pool_inv q ?w'" using others [OF q] pool_inv_cong(1) by blast
    show "q \<notin> X \<union> dependents p w \<longrightarrow> linked q ?w'"
    proof
      assume nd: "q \<notin> X \<union> dependents p w"
      have "linked q ?w' = linked q w"
      proof (rule linked_cong)
        fix b assume "map_of (lb_pools w) (backup_pool_name (get_pool q w)) = Some b"
        then have "pool_name (get_pool b w) = backup_pool_name (get_pool q w)"
          using world_wf_pool(1) [OF wf] by (blast dest: map_of_SomeD)
        with nd have "b \<noteq> p" by (auto simp: dependents_def)
        then show "up_nodes (get_pool b ?w') = up_nodes (get_pool b w)" by (simp add: recompute_other_pool)
      qed (use q(2) st in \<open>simp_all add: static_eqD recompute_other_pool\<close>)
      with nd others [OF q] show "linked q ?w'" by blast
    qed
  qed
  ultimately show ?thesis
    using wf recompute_linked [OF t, of p] by (auto simp: pools_inv_def static_eq_wf [OF st] static_eqD [OF st])
qed

text \<open>Sending a message changes none of it.\<close>

lemma pools_inv_sync:
  assumes inv: "pools_inv X w" and sync: "sync_pool try_send p w = Inr w'"
  shows "pools_inv X w'"
  using sync
proof (cases rule: sync_pool_cases)
  case (2 q b)
  have pl: "\<exists>c. get_pool j w' = (get_pool j w)\<lparr>pf_synced := c\<rparr>" for j
    unfolding 2 by (cases "j = p") (auto simp: pool_store.get_upd intro: exI [of _ "pf_synced (get_pool j w)"])
  have nodes: "get_node j w' = get_node j w" for j unfolding 2 by simp
  have st: "static_eq w w'" by (rule sync_pool_static [OF sync])
  have up: "up_nodes (get_pool j w') = up_nodes (get_pool j w)" for j using pl [of j] by auto
  have "pool_inv j w' = pool_inv j w" "linked j w' = linked j w" for j
    using pl [of j] node_sets_cong [of _ w' w] nodes
    by (auto simp: pool_inv_def pool_weak_def linked_def Let_def up static_eqD [OF st])
  with inv show ?thesis
    by (simp add: pools_inv_def static_eq_wf [OF st] static_eqD [OF st])
qed (use inv in simp)

section \<open>The recursion keeps the invariant\<close>

text \<open>
  What the calls of \<open>pool_logic\<close> and \<open>update_pfctl\<close> keep, beside the invariant of the pools: any
  predicate \<open>I\<close> that a new selection and a message keep. The predicate \<open>K\<close> says which pools may be
  sent. The lemma is about a call, about \<open>update_pfctl\<close> after a selection, where the dependents of
  the pool may lag, and about its loop, where only the dependents still to be visited may.
\<close>

locale pool_calls =
  fixes K :: "pool_id \<Rightarrow> 'q world \<Rightarrow> bool" and I :: "('q \<Rightarrow> pfctl_msg \<Rightarrow> bool \<times> 'q) \<Rightarrow> 'q world \<Rightarrow> bool"
  assumes known: "call_inv X p w \<Longrightarrow> K p w"
    and known_static: "static_eq w w' \<Longrightarrow> K p w \<Longrightarrow> K p w'"
    and recompute_keeps: "call_inv X p w \<Longrightarrow> I try_send w \<Longrightarrow> I try_send (recompute p None w)"
    and sync_keeps: "pools_inv X w \<Longrightarrow> K p w \<Longrightarrow> sync_pool try_send p w = Inr w' \<Longrightarrow> I try_send w \<Longrightarrow> I try_send w'"
begin

lemma dependent_call:
  assumes "pools_inv (X \<union> (dependents p w \<inter> snd ` set ((key, q) # rest))) w" "(key, q) \<in> set (lb_pools w)"
  shows "call_inv (X \<union> (dependents p w \<inter> snd ` set rest)) q w"
proof -
  let ?X = "X \<union> (dependents p w \<inter> snd ` set rest)"
  have "call_inv (insert q ?X) q w"
    using pools_inv_call [OF pools_inv_mono [OF assms(1)] assms(2), of "insert q ?X"] by auto
  then show ?thesis by (auto simp: call_inv_def)
qed

lemma other_pool:
  assumes "pools_inv (X \<union> (dependents p w \<inter> snd ` set ((key, q) # rest))) w" "(key, q) \<in> set (lb_pools w)"
    and "\<not> (backup_pool_name (get_pool q w) = pool_name (get_pool p w) \<and> backup_pool_active (get_pool q w))"
  shows "pools_inv (X \<union> (dependents p w \<inter> snd ` set rest)) w"
proof -
  have "q \<in> dependents p w \<Longrightarrow> linked q w" using assms(3) by (simp add: dependents_def linked_def)
  with assms(1,2) show ?thesis by (auto simp: pools_inv_def)
qed

lemma recursion:
  "pool_logic fuel try_send p l w = Inr w' \<Longrightarrow> l = None \<Longrightarrow> call_inv X p w \<Longrightarrow> I try_send w \<Longrightarrow> pools_inv X w' \<and> I try_send w'"
  "update_pfctl fuel try_send p w = Inr w' \<Longrightarrow> K p w \<Longrightarrow> pools_inv (X \<union> dependents p w) w \<Longrightarrow> I try_send w \<Longrightarrow>
     pools_inv X w' \<and> I try_send w'"
  "update_dependents fuel try_send p rest w = Inr w' \<Longrightarrow> set rest \<subseteq> set (lb_pools w) \<Longrightarrow>
     pools_inv (X \<union> (dependents p w \<inter> snd ` set rest)) w \<Longrightarrow> I try_send w \<Longrightarrow> pools_inv X w' \<and> I try_send w'"
proof (induction fuel try_send p l w and fuel try_send p w and fuel try_send p rest w
    arbitrary: X w' and X w' and X w' rule: pool_logic_update_pfctl_update_dependents.induct)
  case (2 fuel try_send p l w)
  have st: "static_eq w (recompute p l w)" by (rule recompute_static)
  have "pools_inv (X \<union> dependents p w) (recompute p l w)"
    using recompute_call_inv [OF "2.prems"(3)] "2.prems"(2) by (simp add: triggered_def)
  moreover have "I try_send (recompute p l w)" using recompute_keeps "2.prems"(2-4) by blast
  ultimately show ?case
    using "2.IH" "2.prems"(1) known_static [OF st known [OF "2.prems"(3)]] by (simp add: static_eq_dependents [OF st])
next
  case (3 fuel try_send p w)
  then obtain w1 where sync: "sync_pool try_send p w = Inr w1"
      and rest: "update_dependents fuel try_send p (lb_pools w1) w1 = Inr w'"
    by (auto split: sum.splits)
  have "pools_inv (X \<union> dependents p w1) w1"
    using pools_inv_sync [OF "3.prems"(3) sync] by (simp add: static_eq_dependents [OF sync_pool_static [OF sync]])
  then have "pools_inv (X \<union> (dependents p w1 \<inter> snd ` set (lb_pools w1))) w1"
    by (force simp: pools_inv_def)
  then show ?case using "3.IH" [OF sync rest] sync_keeps [OF "3.prems"(3,2) sync "3.prems"(4)] by simp
next
  case (5 fuel try_send p key q rest w)
  have q: "(key, q) \<in> set (lb_pools w)" using "5.prems"(2) by simp
  show ?case
  proof (cases "backup_pool_name (get_pool q w) = pool_name (get_pool p w) \<and> backup_pool_active (get_pool q w)")
    case True
    then obtain w1 where called: "pool_logic fuel try_send q None w = Inr w1"
        and rest: "update_dependents fuel try_send p rest w1 = Inr w'"
      using "5.prems"(1) by (auto split: sum.splits)
    have st: "static_eq w w1" by (rule pool_logic_static(1) [OF called])
    show ?thesis
      using "5.IH"(1) [OF True called refl dependent_call [OF "5.prems"(3) q] "5.prems"(4)] "5.IH"(2) [OF True called rest, of X] "5.prems"(2)
      by (simp add: static_eqD [OF st] static_eq_dependents [OF st])
  next
    case False
    then show ?thesis using "5.IH"(3) [OF False] other_pool [OF "5.prems"(3) q False] "5.prems" by auto
  qed
qed simp_all

end

interpretation any_call: pool_calls "\<lambda>p w. True" "\<lambda>try_send w. True"
  by unfold_locales simp_all

lemma pool_logic_None_inv:
  "pool_logic fuel try_send p l w = Inr w' \<Longrightarrow> l = None \<Longrightarrow> call_inv X p w \<Longrightarrow> pools_inv X w'"
  "update_pfctl fuel try_send p w = Inr w' \<Longrightarrow> pools_inv (X \<union> dependents p w) w \<Longrightarrow> pools_inv X w'"
proof -
  show "pool_logic fuel try_send p l w = Inr w' \<Longrightarrow> l = None \<Longrightarrow> call_inv X p w \<Longrightarrow> pools_inv X w'"
    using any_call.recursion(1) [of fuel try_send p l w w' X] by simp
  show "update_pfctl fuel try_send p w = Inr w' \<Longrightarrow> pools_inv (X \<union> dependents p w) w \<Longrightarrow> pools_inv X w'"
    using any_call.recursion(2) [of fuel try_send p w w' X] by simp
qed

lemma pool_logic_inv:
  assumes "pool_logic fuel try_send p l w = Inr w'" "call_inv X p w" "triggered l w"
    and "set_option l \<subseteq> set (nodes (get_pool p w))"
  shows "pools_inv X w'"
proof -
  from assms(1) obtain n where n: "fuel = Suc n" by (cases fuel) auto
  have "pools_inv (X \<union> dependents p w) (recompute p l w)" by (rule recompute_call_inv [OF assms(2-4)])
  moreover have "dependents p (recompute p l w) = dependents p w" by (rule static_eq_dependents [OF recompute_static])
  moreover have "update_pfctl n try_send p (recompute p l w) = Inr w'" using assms(1) n by simp
  ultimately show ?thesis using pool_logic_None_inv(2) by metis
qed

lemma pool_logic_untriggered_inv:
  assumes "pool_logic fuel try_send p l w = Inr w'" "pools_inv {} w" "\<not> triggered l w"
  shows "pools_inv {} w'"
proof -
  from assms(1) obtain n where n: "fuel = Suc n" by (cases fuel) auto
  then have "update_pfctl n try_send p w = Inr w'" using assms by (simp add: recompute_untriggered)
  then show ?thesis by (rule pool_logic_None_inv(2)) (rule pools_inv_mono [OF assms(2)], simp)
qed

section \<open>The recursion ends\<close>

text \<open>\<open>(a, b)\<close> when the pool named \<open>a\<close> has the pool named \<open>b\<close> as its backup.\<close>

definition backup_rel :: "'q world \<Rightarrow> (string \<times> string) set" where
  "backup_rel w =
     {(k, backup_pool_name (get_pool q w)) | k q. (k, q) \<in> set (lb_pools w) \<and> fault_policy (get_pool q w) = BACKUP_POOL}"

definition active_ok :: "'q world \<Rightarrow> bool" where
  "active_ok w \<longleftrightarrow>
     (\<forall>(k, q) \<in> set (lb_pools w). backup_pool_active (get_pool q w) \<longrightarrow> fault_policy (get_pool q w) = BACKUP_POOL)"

definition ranked :: "(string \<Rightarrow> nat) \<Rightarrow> 'q world \<Rightarrow> bool" where
  "ranked r w \<longleftrightarrow> (\<forall>(a, b) \<in> backup_rel w. r a < r b)"

lemma backup_rel_static: "static_eq w w' \<Longrightarrow> backup_rel w' = backup_rel w"
  by (simp add: backup_rel_def static_eqD)

lemma world_inv_active_ok: "pools_inv X w \<Longrightarrow> active_ok w"
  by (auto simp: pools_inv_def active_ok_def pool_inv_def Let_def)

lemma recompute_active_ok: "active_ok w \<Longrightarrow> active_ok (recompute p l w)"
proof -
  assume a: "active_ok w"
  note st = static_eqD [OF recompute_static [of w p l]]
  have "backup_pool_active (get_pool q (recompute p l w)) \<Longrightarrow>
      fault_policy (get_pool q w) = BACKUP_POOL \<or> backup_pool_active (get_pool q w)" for q
    by (cases "triggered l w"; cases "q = p")
       (auto simp: recompute_up_nodes recompute_untriggered recompute_other_pool uses_backup_def Let_def)
  with a show ?thesis by (auto simp: active_ok_def st)
qed

lemma sync_pool_active_ok:
  assumes "active_ok w" "sync_pool try_send p w = Inr w'"
  shows "active_ok w'"
  using assms(2)
proof (cases rule: sync_pool_cases)
  case (2 q b)
  then have "backup_pool_active (get_pool j w') = backup_pool_active (get_pool j w)" for j
    by (simp add: pool_store.get_upd)
  with assms(1) show ?thesis
    using static_eqD [OF sync_pool_static [OF assms(2)]] by (simp add: active_ok_def)
qed (use assms(1) in simp)

lemma pool_logic_active_ok:
  "pool_logic fuel try_send p l w = Inr w' \<Longrightarrow> active_ok w \<Longrightarrow> active_ok w'"
  "update_pfctl fuel try_send p w = Inr w' \<Longrightarrow> active_ok w \<Longrightarrow> active_ok w'"
  "update_dependents fuel try_send p rest w = Inr w' \<Longrightarrow> active_ok w \<Longrightarrow> active_ok w'"
proof (induction fuel try_send p l w and fuel try_send p w and fuel try_send p rest w
    arbitrary: w' and w' and w' rule: pool_logic_update_pfctl_update_dependents.induct)
  case (2 fuel try_send p l w)
  then show ?case by (simp add: recompute_active_ok)
next
  case (3 fuel try_send p w)
  then show ?case by (auto split: sum.splits dest: sync_pool_active_ok)
next
  case (5 fuel try_send p key q rest w)
  then show ?case by (auto split: sum.splits if_splits)
qed auto

lemma send_message_no_recursion: "send_message try_send pool table all up w \<noteq> Inl Unbounded_Recursion"
  by (simp add: send_message_def split: prod.split)

lemma sync_pool_no_recursion: "sync_pool try_send p w \<noteq> Inl Unbounded_Recursion"
  by (auto simp: sync_pool_def Let_def bind_result_Inl_iff send_message_no_recursion split: prod.splits)

lemma dependent_rank:
  assumes "ranked r w" "active_ok w" "world_wf w" "(key, q) \<in> set (lb_pools w)"
    and "backup_pool_name (get_pool q w) = pool_name (get_pool p w)" "backup_pool_active (get_pool q w)"
  shows "r (pool_name (get_pool q w)) < r (pool_name (get_pool p w))"
proof -
  have "fault_policy (get_pool q w) = BACKUP_POOL" using assms(2,4,6) by (auto simp: active_ok_def)
  then have "(key, pool_name (get_pool p w)) \<in> backup_rel w"
    using assms(4,5) by (auto simp: backup_rel_def intro!: exI [of _ q])
  then have "r key < r (pool_name (get_pool p w))" using assms(1) by (auto simp: ranked_def)
  then show ?thesis using world_wf_pool(1) [OF assms(3,4)] by simp
qed

lemma pool_logic_ranked:
  "ranked r w \<Longrightarrow> active_ok w \<Longrightarrow> world_wf w \<Longrightarrow> r (pool_name (get_pool p w)) < fuel \<Longrightarrow>
     pool_logic fuel try_send p l w \<noteq> Inl Unbounded_Recursion"
  "ranked r w \<Longrightarrow> active_ok w \<Longrightarrow> world_wf w \<Longrightarrow> r (pool_name (get_pool p w)) \<le> fuel \<Longrightarrow>
     update_pfctl fuel try_send p w \<noteq> Inl Unbounded_Recursion"
  "ranked r w \<Longrightarrow> active_ok w \<Longrightarrow> world_wf w \<Longrightarrow> r (pool_name (get_pool p w)) \<le> fuel \<Longrightarrow>
     set rest \<subseteq> set (lb_pools w) \<Longrightarrow> update_dependents fuel try_send p rest w \<noteq> Inl Unbounded_Recursion"
proof (induction fuel try_send p l w and fuel try_send p w and fuel try_send p rest w
    rule: pool_logic_update_pfctl_update_dependents.induct)
  case (2 fuel try_send p l w)
  have st: "static_eq w (recompute p l w)" by (rule recompute_static)
  from 2 show ?case
    by (simp add: ranked_def backup_rel_static [OF st] recompute_active_ok static_eq_wf [OF st] static_eqD [OF st])
next
  case (3 fuel try_send p w)
  show ?case
  proof (cases "sync_pool try_send p w")
    case (Inl e)
    then show ?thesis using sync_pool_no_recursion [of try_send p w] by auto
  next
    case (Inr w1)
    have st: "static_eq w w1" by (rule sync_pool_static [OF Inr])
    show ?thesis
      using "3.IH" [OF Inr] "3.prems" sync_pool_active_ok [OF "3.prems"(2) Inr] Inr
      by (simp add: ranked_def backup_rel_static [OF st] static_eq_wf [OF st] static_eqD [OF st])
  qed
next
  case (5 fuel try_send p key q rest w)
  show ?case
  proof (cases "backup_pool_name (get_pool q w) = pool_name (get_pool p w) \<and> backup_pool_active (get_pool q w)")
    case True
    have "(key, q) \<in> set (lb_pools w)" using "5.prems"(5) by simp
    from dependent_rank [OF "5.prems"(1-3) this] have less: "r (pool_name (get_pool q w)) < fuel"
      using True "5.prems"(4) by (meson less_le_trans)
    show ?thesis
    proof (cases "pool_logic fuel try_send q None w")
      case (Inl e)
      then show ?thesis using "5.IH"(1) [OF True "5.prems"(1-3) less] True by auto
    next
      case (Inr w1)
      have st: "static_eq w w1" by (rule pool_logic_static(1) [OF Inr])
      show ?thesis
        using "5.IH"(2) [OF True Inr] "5.prems" pool_logic_active_ok(1) [OF Inr "5.prems"(2)] True Inr
        by (simp add: ranked_def backup_rel_static [OF st] static_eq_wf [OF st] static_eqD [OF st])
    qed
  next
    case False
    then show ?thesis using "5.IH"(3) [OF False] "5.prems" by auto
  qed
qed auto

text \<open>
  Without a cycle the number of pools that depend on a pool, directly or not, is a rank; it is at
  most the number of pools.
\<close>

definition below :: "'q world \<Rightarrow> string \<Rightarrow> string set" where
  "below w k = {j. (j, k) \<in> (backup_rel w)\<^sup>+}"

lemma below_keys: "below w k \<subseteq> fst ` set (lb_pools w)"
proof -
  have "fst (j, k) \<in> fst ` set (lb_pools w)" if "(j, k) \<in> (backup_rel w)\<^sup>+" for j
    using that by (induction rule: converse_trancl_induct) (auto simp: backup_rel_def rev_image_eqI)
  then show ?thesis by (auto simp: below_def)
qed

lemma below_card: "finite (below w k)" "card (below w k) \<le> length (lb_pools w)"
proof -
  show "finite (below w k)" by (rule finite_subset [OF below_keys]) simp
  have "card (below w k) \<le> card (fst ` set (lb_pools w))" by (rule card_mono [OF _ below_keys]) simp
  also have "\<dots> \<le> length (lb_pools w)"
    by (metis card_image_le card_length le_trans List.finite_set)
  finally show "card (below w k) \<le> length (lb_pools w)" .
qed

lemma acyclic_ranked:
  assumes "acyclic (backup_rel w)"
  shows "ranked (\<lambda>k. card (below w k)) w"
  unfolding ranked_def
proof clarify
  fix a b assume ab: "(a, b) \<in> backup_rel w"
  then have "below w a \<subset> below w b"
    using assms by (auto simp: below_def acyclic_def intro: trancl_into_trancl)
  then show "card (below w a) < card (below w b)" by (rule psubset_card_mono [OF below_card(1)])
qed

lemma pool_logic_acyclic:
  assumes "acyclic (backup_rel w)" "world_wf w" "active_ok w" "length (lb_pools w) < fuel"
  shows "pool_logic fuel try_send p l w \<noteq> Inl Unbounded_Recursion"
proof (rule pool_logic_ranked(1) [OF acyclic_ranked [OF assms(1)] assms(3,2)])
  show "card (below w (pool_name (get_pool p w))) < fuel"
    using below_card(2) [of w] assms(4) by (rule le_less_trans)
qed

text \<open>More fuel never changes a result.\<close>

lemma pool_logic_more_fuel:
  "pool_logic fuel try_send p l w = r \<Longrightarrow> r \<noteq> Inl Unbounded_Recursion \<Longrightarrow> pool_logic (Suc fuel) try_send p l w = r"
  "update_pfctl fuel try_send p w = r \<Longrightarrow> r \<noteq> Inl Unbounded_Recursion \<Longrightarrow> update_pfctl (Suc fuel) try_send p w = r"
  "update_dependents fuel try_send p rest w = r \<Longrightarrow> r \<noteq> Inl Unbounded_Recursion \<Longrightarrow>
     update_dependents (Suc fuel) try_send p rest w = r"
proof (induction fuel try_send p l w and fuel try_send p w and fuel try_send p rest w
    arbitrary: r and r and r rule: pool_logic_update_pfctl_update_dependents.induct)
  case (1 try_send p l w)
  then show ?case by simp
next
  case (2 fuel try_send p l w)
  then show ?case by (metis pool_logic.simps(2))
next
  case (3 fuel try_send p w)
  then show ?case by (auto split: sum.splits)
next
  case (4 fuel try_send p w)
  then show ?case by simp
next
  case (5 fuel try_send p key q rest w)
  show ?case
  proof (cases "backup_pool_name (get_pool q w) = pool_name (get_pool p w) \<and> backup_pool_active (get_pool q w)")
    case True
    show ?thesis
    proof (cases "pool_logic fuel try_send q None w")
      case (Inl e)
      with True "5.prems" have "e \<noteq> Unbounded_Recursion" "r = Inl e" by auto
      with "5.IH"(1) [OF True Inl] True show ?thesis by (simp del: pool_logic.simps)
    next
      case (Inr w1)
      with True "5.prems" have "update_dependents fuel try_send p rest w1 = r" by simp
      with "5.IH"(1) [OF True Inr] "5.IH"(2) [OF True Inr] "5.prems"(2) True show ?thesis
        by (simp del: pool_logic.simps)
    qed
  next
    case False
    with "5.IH"(3) [OF False] "5.prems" show ?thesis by auto
  qed
qed

text \<open>
  A pool that is its own backup pool never returns once it runs on it: the update of its
  dependents calls its own \<open>pool_logic\<close> again.
\<close>

definition self_backup :: "string \<Rightarrow> pool_id \<Rightarrow> 'q world \<Rightarrow> bool" where
  "self_backup k p w \<longleftrightarrow>
     lb_pools w = [(k, p)] \<and> pool_name (get_pool p w) = k \<and> backup_pool_name (get_pool p w) = k \<and>
     fault_policy (get_pool p w) = BACKUP_POOL \<and> is_set (nodes (get_pool p w)) \<and>
     card (up_set (nodes (get_pool p w)) w) < min_nodes (get_pool p w) \<and>
     length (nodes (get_pool p w)) < MAX_NODES \<and> length (up_nodes (get_pool p w)) < MAX_NODES"

lemma self_backup_uses: "self_backup k p w \<Longrightarrow> uses_backup p w"
  by (auto simp: self_backup_def uses_backup_def Let_def base_wanted_card split: if_splits)

lemma self_backup_up_nodes: "self_backup k p w \<Longrightarrow> fst (wanted_nodes p None w) = up_nodes (get_pool p w)"
  using self_backup_uses [of k p w]
  by (auto simp: uses_backup_def wanted_nodes_eq self_backup_def Let_def)

lemma self_backup_kept:
  assumes "self_backup k p w" "static_eq w w'" "up_nodes (get_pool p w') = up_nodes (get_pool p w)"
  shows "self_backup k p w'"
  using assms(1,3) by (simp add: self_backup_def static_eqD [OF assms(2)] static_eq_sets [OF assms(2)])

lemma sync_pool_returns:
  assumes "length (nodes (get_pool p w)) < MAX_NODES" "length (up_nodes (get_pool p w)) < MAX_NODES"
  shows "\<exists>w'. sync_pool try_send p w = Inr w'"
  using assms by (simp add: sync_pool_def Let_def send_message_def case_prod_beta)

lemma self_backup_diverges:
  assumes "self_backup k p w"
  shows "pool_logic fuel try_send p None w = Inl Unbounded_Recursion"
  using assms
proof (induction fuel arbitrary: w)
  case (Suc fuel)
  let ?w1 = "recompute p None w"
  have t: "triggered None w" by (simp add: triggered_def)
  have "self_backup k p ?w1"
    by (rule self_backup_kept [OF Suc.prems recompute_static])
       (simp add: recompute_up_nodes [OF t] self_backup_up_nodes [OF Suc.prems])
  moreover obtain w2 where sync: "sync_pool try_send p ?w1 = Inr w2"
    using calculation sync_pool_returns [of p ?w1 try_send] by (auto simp: self_backup_def)
  moreover have up: "up_nodes (get_pool p w2) = up_nodes (get_pool p ?w1)"
    and act: "backup_pool_active (get_pool p w2) = backup_pool_active (get_pool p ?w1)"
    using sync by (cases rule: sync_pool_cases; simp add: pool_store.get_upd)+
  ultimately have w2: "self_backup k p w2" by (metis self_backup_kept sync_pool_static)
  have "backup_pool_active (get_pool p w2)"
    using act recompute_up_nodes(2) [OF t, of p] self_backup_uses [OF Suc.prems] by simp
  with w2 Suc.IH [OF w2] sync show ?case by (simp add: self_backup_def)
qed simp

section \<open>Where the traffic goes\<close>

text \<open>No pool uses a node that is not enabled, also not through a chain of backup pools.\<close>

lemma world_inv_up_nodes_enabled:
  assumes inv: "world_inv w" and ac: "acyclic (backup_rel w)"
  shows "(k, p) \<in> set (lb_pools w) \<Longrightarrow> n \<in> set (up_nodes (get_pool p w)) \<Longrightarrow> admin_state (get_node n w) = STATE_ENABLED"
proof (induction "length (lb_pools w) - card (below w k)" arbitrary: k p rule: less_induct)
  case less
  let ?pl = "get_pool p w"
  have wf: "world_wf w" and pi: "pool_inv p w" and li: "linked p w"
    using pools_invD [OF inv less.prems(1)] by simp_all
  have pol: "pool_policy ?pl (up_set (nodes ?pl) w) (enabled_set (nodes ?pl) w)
      (if backup_pool_active ?pl then Some (set (up_nodes ?pl)) else None) (set (up_nodes ?pl))"
    and bp: "backup_pool_active ?pl \<longrightarrow> fault_policy ?pl = BACKUP_POOL"
    using pi by (simp_all add: pool_inv_def Let_def)
  show ?case
  proof (cases "backup_pool_active ?pl")
    case True
    then obtain b where b: "map_of (lb_pools w) (backup_pool_name ?pl) = Some b" "up_nodes ?pl = up_nodes (get_pool b w)"
      using li by (auto simp: linked_def Let_def)
    have mem: "(backup_pool_name ?pl, b) \<in> set (lb_pools w)" using b(1) by (rule map_of_SomeD)
    have "(k, backup_pool_name ?pl) \<in> backup_rel w" using less.prems(1) bp True by (auto simp: backup_rel_def)
    then have "card (below w k) < card (below w (backup_pool_name ?pl))"
      using acyclic_ranked [OF ac] by (auto simp: ranked_def)
    moreover have "card (below w (backup_pool_name ?pl)) \<le> length (lb_pools w)" by (rule below_card)
    ultimately show ?thesis using less.hyps [OF _ mem] less.prems(2) b(2) by simp
  next
    case False
    have "n \<in> enabled_set (nodes ?pl) w"
      using pool_policy_enabled [OF _ up_subset_enabled] pol False less.prems(2) by fastforce
    then show ?thesis by (simp add: enabled_set_def)
  qed
qed

lemma pool_inv_force_down_up:
  assumes "pool_inv p w" "fault_policy (get_pool p w) = FORCE_DOWN" "n \<in> set (up_nodes (get_pool p w))"
  shows "n \<in> set (nodes (get_pool p w))" "is_up (get_node n w)"
proof -
  have "n \<in> up_set (nodes (get_pool p w)) w"
    using assms by (auto simp: pool_inv_def Let_def pool_policy_def split: if_splits)
  then show "n \<in> set (nodes (get_pool p w))" "is_up (get_node n w)" by (simp_all add: up_set_def)
qed

end
