(* ===== verification/Pool_Total.thy ===== *)
theory Pool_Total
  imports Pool_World
begin

text \<open>
  \<open>pool_logic\<close> returns: with no cycle of backup pools and fewer than \<open>MAX_NODES\<close> nodes in every
  pool, neither the recursion through dependent pools nor the assertions on the message can stop
  the main process.
\<close>

definition within_limits :: "pool_id \<Rightarrow> 'q world \<Rightarrow> bool" where
  "within_limits p w \<longleftrightarrow>
     length (nodes (get_pool p w)) < MAX_NODES \<and>
     is_set (up_nodes (get_pool p w)) \<and> length (up_nodes (get_pool p w)) < MAX_NODES"

definition small :: "'q world \<Rightarrow> bool" where
  "small w \<longleftrightarrow> (\<forall>(k, p) \<in> set (lb_pools w). within_limits p w)"

lemma smallD: "small w \<Longrightarrow> (k, p) \<in> set (lb_pools w) \<Longrightarrow> within_limits p w"
  by (auto simp: small_def)

lemma policy_within:
  assumes "pool_policy pl (up_set ns w) (enabled_set ns w) bk W" "finite S" "S = set ns"
    and "\<And>B. bk = Some B \<Longrightarrow> card B < M" "card S < M"
  shows "card W < M"
proof -
  have sub: "up_set ns w \<subseteq> S" "enabled_set ns w \<subseteq> S"
    using assms(3) by (auto simp: up_set_def enabled_set_def)
  have le: "card X < M" if "X \<subseteq> S" for X
    using card_mono [OF assms(2) that] assms(5) by simp
  obtain B where B: "B \<subseteq> up_set ns w"
    "if min_nodes pl \<le> card B then W = B
     else (case fault_policy pl of FORCE_DOWN \<Rightarrow> W = {}
           | FORCE_UP \<Rightarrow> B \<subseteq> W \<and> W \<subseteq> enabled_set ns w \<and> card W = min (min_nodes pl) (card (enabled_set ns w))
           | BACKUP_POOL \<Rightarrow> W = (case bk of None \<Rightarrow> B | Some S \<Rightarrow> S))"
    using assms(1) unfolding pool_policy_def by auto
  have "B \<subseteq> S" using B(1) sub by blast
  then show ?thesis
    using B(2) sub le [of B] le [of W] le [of "{}"] assms(4)
    by (auto split: if_splits FaultPolicy.splits option.splits)
qed

lemma recompute_within:
  assumes wf: "pool_wf p w" and s: "small w" and lim: "within_limits p w"
    and l: "set_option l \<subseteq> set (nodes (get_pool p w))"
  shows "within_limits p (recompute p l w)"
proof (cases "triggered l w")
  case False
  then show ?thesis using lim by (simp add: recompute_untriggered)
next
  case True
  let ?pl = "get_pool p w" and ?W = "fst (wanted_nodes p l w)"
  have bk: "within_limits b w" if "map_of (lb_pools w) (backup_pool_name ?pl) = Some b" for b
    using smallD [OF s map_of_SomeD [OF that]] .
  have set: "is_set ?W"
    using bk by (intro wanted_nodes_is_set [OF wf l]) (simp add: within_limits_def)
  have "card (set ?W) < MAX_NODES"
  proof (rule policy_within [OF wanted_nodes_policy [OF wf l] finite_set refl])
    show "card B < MAX_NODES" if "backup_set ?pl w = Some B" for B
      using that bk card_length [of "up_nodes (get_pool b w)" for b]
      by (fastforce simp: backup_set_def within_limits_def is_set_def distinct_card)
    show "card (set (nodes ?pl)) < MAX_NODES"
      using lim card_length [of "nodes ?pl"] by (simp add: within_limits_def)
  qed
  moreover have "nodes (get_pool p (recompute p l w)) = nodes ?pl"
    using static_eq_pool(3) [OF recompute_static] .
  ultimately show ?thesis
    using set lim True by (simp add: within_limits_def recompute_up_nodes is_set_def distinct_card)
qed

lemma recompute_small:
  assumes "world_wf w" "small w" "(k, p) \<in> set (lb_pools w)" "set_option l \<subseteq> set (nodes (get_pool p w))"
  shows "small (recompute p l w)"
proof -
  have "within_limits q (recompute p l w)" if "(j, q) \<in> set (lb_pools w)" for j q
  proof (cases "q = p")
    case True
    then show ?thesis
      using recompute_within [OF world_wf_pool(2) [OF assms(1,3)] assms(2) smallD [OF assms(2,3)] assms(4)] by simp
  next
    case False
    then show ?thesis
      using smallD [OF assms(2) that] by (simp add: within_limits_def recompute_other_pool)
  qed
  then show ?thesis
    by (auto simp: small_def static_eq_world(1) [OF recompute_static])
qed

lemma sync_pool_small:
  assumes "small w" "sync_pool try_send p w = Inr w'"
  shows "small w'"
  using assms(2)
proof (cases rule: sync_pool_cases)
  case 1
  then show ?thesis using assms(1) by simp
next
  case (2 q b)
  then show ?thesis
    using assms(1) by (auto simp: small_def within_limits_def pool_store.get_upd)
qed

lemma sync_pool_total: "within_limits p w \<Longrightarrow> \<exists>w'. sync_pool try_send p w = Inr w'"
  by (rule sync_pool_returns) (simp_all add: within_limits_def)

text \<open>The only way not to return is then to run out of fuel.\<close>

definition only_recursion :: "'a result \<Rightarrow> ('a \<Rightarrow> bool) \<Rightarrow> bool" where
  "only_recursion r P \<longleftrightarrow> (case r of Inl e \<Rightarrow> e = Unbounded_Recursion | Inr x \<Rightarrow> P x)"

lemma pool_logic_only_recursion:
  "world_wf w \<Longrightarrow> small w \<Longrightarrow> p \<in> snd ` set (lb_pools w) \<Longrightarrow> set_option l \<subseteq> set (nodes (get_pool p w)) \<Longrightarrow>
     only_recursion (pool_logic fuel try_send p l w) small"
  "world_wf w \<Longrightarrow> small w \<Longrightarrow> p \<in> snd ` set (lb_pools w) \<Longrightarrow>
     only_recursion (update_pfctl fuel try_send p w) small"
  "world_wf w \<Longrightarrow> small w \<Longrightarrow> set rest \<subseteq> set (lb_pools w) \<Longrightarrow>
     only_recursion (update_dependents fuel try_send p rest w) small"
proof (induction fuel try_send p l w and fuel try_send p w and fuel try_send p rest w
    rule: pool_logic_update_pfctl_update_dependents.induct)
  case (1 try_send p last_node w)
  then show ?case by (simp add: only_recursion_def)
next
  case (2 fuel try_send p last_node w)
  then obtain k where "(k, p) \<in> set (lb_pools w)" by auto
  note small = recompute_small [OF 2(2,3) this 2(5)]
  then show ?case
    using 2 static_eq_wf [OF recompute_static [of w p last_node]] by (simp add: static_eq_world(1) [OF recompute_static])
next
  case (3 fuel try_send p w)
  then have "within_limits p w" by (auto dest: smallD)
  then obtain w1 where w1: "sync_pool try_send p w = Inr w1" using sync_pool_total by blast
  have "static_eq w w1" using w1 by (rule sync_pool_static)
  then show ?case
    using 3(1) [OF w1] 3(2,3) w1 sync_pool_small [OF 3(3) w1] static_eq_wf [of w w1] by simp
next
  case (4 fuel try_send p w)
  then show ?case by (simp add: only_recursion_def)
next
  case (5 fuel try_send p key q rest w)
  show ?case
  proof (cases "backup_pool_name (get_pool q w) = pool_name (get_pool p w) \<and> backup_pool_active (get_pool q w)")
    case False
    then show ?thesis using 5 by auto
  next
    case True
    have q: "q \<in> snd ` set (lb_pools w)" using 5(6) by force
    have rec: "only_recursion (pool_logic fuel try_send q None w) small"
      using 5(1) [OF True] 5(4,5) q by simp
    show ?thesis
    proof (cases "pool_logic fuel try_send q None w")
      case (Inl e)
      then show ?thesis using rec True by (simp add: only_recursion_def)
    next
      case (Inr w1)
      have st: "static_eq w w1" using pool_logic_static(1) [OF Inr] .
      have "small w1" using rec Inr by (simp add: only_recursion_def)
      then show ?thesis
        using 5(2) [OF True Inr] 5(4,6) True Inr static_eq_wf [OF st] static_eq_world(1) [OF st] by auto
    qed
  qed
qed

lemma pool_logic_returns:
  assumes "acyclic (backup_rel w)" "world_wf w" "active_ok w" "small w" "length (lb_pools w) < fuel"
    and "p \<in> snd ` set (lb_pools w)" "set_option l \<subseteq> set (nodes (get_pool p w))"
  shows "\<exists>w'. pool_logic fuel try_send p l w = Inr w' \<and> small w'"
  using pool_logic_acyclic [OF assms(1-3,5), of try_send p l]
    pool_logic_only_recursion(1) [OF assms(2,4,6,7), of fuel try_send]
  by (cases "pool_logic fuel try_send p l w") (auto simp: only_recursion_def)

end
