(* ===== verification/Lb_Node.thy ===== *)
theory Lb_Node
  imports Pool_Total
begin

text \<open>
  The node of \<open>lb_node.cpp\<close>: its state follows from the hard states of its health checks
  (\<open>node_logic\<close>) and from the administrative state of the configuration (\<open>change_downtime\<close>); both
  report to the pool. The constructor is in the theory of the constructors.
\<close>

section \<open>The operations\<close>

definition admin_state_from_config :: "string \<Rightarrow> LbNodeAdminState" where
  "admin_state_from_config s =
     (if s = ''online'' then STATE_ENABLED
      else if s = ''deploy_online'' then STATE_ENABLED
      else if s = ''deploy_offline'' then STATE_DRAIN_HARD
      else if s = ''maintenance'' then STATE_DOWNTIME
      else if s = ''cold_standby'' then STATE_DOWNTIME
      else if s = ''retired'' then STATE_DOWNTIME
      else STATE_ENABLED)"

primrec get_state_string :: "LbNodeState \<Rightarrow> string" where
  "get_state_string NODE_DOWN = ''down''"
| "get_state_string NODE_UP = ''up''"

primrec get_admin_state_string :: "LbNodeAdminState \<Rightarrow> string" where
  "get_admin_state_string STATE_DRAIN_HARD = ''drained_hard''"
| "get_admin_state_string STATE_DRAIN_SOFT = ''drained_soft''"
| "get_admin_state_string STATE_DOWNTIME = ''downtimed''"
| "get_admin_state_string STATE_ENABLED = ''enabled''"

definition is_up_string :: "LbNode \<Rightarrow> string" where
  "is_up_string n = (if is_up n then ''up'' else ''down'')"

text \<open>The loop of \<open>node_logic\<close> over the health checks: \<open>checked\<close>, passed checks, draining checks.\<close>

fun count_checks :: "'q world \<Rightarrow> hc_id list \<Rightarrow> bool \<times> nat \<times> nat \<Rightarrow> bool \<times> nat \<times> nat" where
  "count_checks w [] acc = acc"
| "count_checks w (hc # hcs) (chk, okc, drain) =
     count_checks w hcs
       (if ran (get_hc hc w) then True else chk,
        if hard_state (get_hc hc w) = HC_STATE_UP then Suc okc else okc,
        if hard_state (get_hc hc w) = HC_STATE_DRAIN then Suc drain else drain)"

text \<open>The change of the node's state for given counts.\<close>

definition node_transition :: "nat \<Rightarrow> nat \<Rightarrow> nat \<Rightarrow> LbNode \<Rightarrow> LbNode" where
  "node_transition num_healthchecks ok_healthchecks drain_healthchecks n =
     (let n = n\<lparr>state_changed := False\<rparr>;
          new_state = (if ok_healthchecks < num_healthchecks then NODE_DOWN else NODE_UP);
          new_admin_state = (if drain_healthchecks = 0 then STATE_ENABLED else STATE_DRAIN_SOFT)
      in if node_state n = NODE_UP \<and> new_state = NODE_DOWN then
           n\<lparr>state_changed := True, max_nodes_kept := False, node_state := NODE_DOWN,
             admin_state := (if admin_state n = STATE_ENABLED then new_admin_state else admin_state n)\<rparr>
         else if node_state n = NODE_DOWN \<and> new_state = NODE_UP then
           n\<lparr>state_changed := True, min_nodes_kept := False, node_state := NODE_UP,
             admin_state := (if admin_state n = STATE_DRAIN_SOFT then STATE_ENABLED else admin_state n)\<rparr>
         else n)"

definition node_logic ::
    "nat \<Rightarrow> ('q \<Rightarrow> pfctl_msg \<Rightarrow> bool \<times> 'q) \<Rightarrow> node_id \<Rightarrow> 'q world \<Rightarrow> 'q world result" where
  "node_logic fuel try_send n w =
     (let hcs = healthchecks (get_node n w);
          (chk, ok_healthchecks, drain_healthchecks) = count_checks w hcs (checked (get_node n w), 0, 0);
          w = upd_node n (\<lambda>x. x\<lparr>checked := chk\<rparr>) w
      in if \<not> chk then Inr w
         else let w = upd_node n (node_transition (length hcs) ok_healthchecks drain_healthchecks) w
              in pool_logic fuel try_send (parent_lbpool (get_node n w)) (Some n) w)"

definition change_downtime ::
    "nat \<Rightarrow> ('q \<Rightarrow> pfctl_msg \<Rightarrow> bool \<times> 'q) \<Rightarrow> node_id \<Rightarrow> string \<Rightarrow> 'q world \<Rightarrow> 'q world result" where
  "change_downtime fuel try_send n s w =
     (let new_admin_state = admin_state_from_config s in
      if new_admin_state = admin_state (get_node n w) then Inr w
      else let w = (if new_admin_state < STATE_ENABLED
                    then upd_node n (\<lambda>x. x\<lparr>kill_states := \<not> (new_admin_state \<le> STATE_DRAIN_SOFT),
                                            max_nodes_kept := False, state_changed := True\<rparr>) w
                    else upd_node n (\<lambda>x. x\<lparr>node_state := NODE_DOWN, state_changed := True\<rparr>) w);
               w = upd_node n (\<lambda>x. x\<lparr>admin_state := new_admin_state\<rparr>) w
           in pool_logic fuel try_send (parent_lbpool (get_node n w)) (Some n) w)"

section \<open>Changes of one node\<close>

definition registered :: "node_id \<Rightarrow> 'q world \<Rightarrow> bool" where
  "registered n w \<longleftrightarrow>
     (let p = parent_lbpool (get_node n w) in
      (pool_name (get_pool p w), p) \<in> set (lb_pools w) \<and> n \<in> set (nodes (get_pool p w)))"

lemma world_wf_upd_node:
  assumes "world_wf w" "parent_lbpool (f (get_node n w)) = parent_lbpool (get_node n w)"
  shows "world_wf (upd_node n f w)"
  using assms by (auto simp: world_wf_def pool_wf_def node_store.get_upd)

lemma registered_pool:
  assumes "world_wf w" "registered n w" "(k, q) \<in> set (lb_pools w)"
  shows "n \<in> set (nodes (get_pool q w)) \<longleftrightarrow> q = parent_lbpool (get_node n w)"
  using assms world_wf_pool(3) [OF assms(1,3)] by (auto simp: registered_def Let_def)

lemma upd_node_other_pool:
  assumes "n \<notin> set (nodes (get_pool q w))"
  shows "pool_inv q (upd_node n f w) = pool_inv q w" "pool_weak q (upd_node n f w) = pool_weak q w"
  using assms by (auto intro!: pool_inv_cong simp: node_store.get_upd)

lemma linked_upd_node [simp]: "linked q (upd_node n f w) = linked q w"
  by (simp add: linked_def Let_def)

lemma dependents_upd_node [simp]: "dependents q (upd_node n f w) = dependents q w"
  by (simp add: dependents_def)

text \<open>
  A handler may change a node in any way that does not add a mark and leaves no mark on a node
  that is not up; the pool's selection then has to follow.
\<close>

lemma node_change_call_inv:
  assumes inv: "world_inv w" and reg: "registered n w"
    and par: "parent_lbpool (f (get_node n w)) = parent_lbpool (get_node n w)"
    and mark: "max_nodes_kept (f (get_node n w)) \<Longrightarrow> max_nodes_kept (get_node n w) \<and> is_up (f (get_node n w))"
  shows "call_inv {} (parent_lbpool (get_node n w)) (upd_node n f w)"
proof -
  let ?p = "parent_lbpool (get_node n w)" and ?w = "upd_node n f w"
  let ?pl = "get_pool ?p w"
  have p: "(pool_name ?pl, ?p) \<in> set (lb_pools w)" using reg by (simp add: registered_def Let_def)
  have wf: "world_wf w" using inv by (simp add: pools_inv_def)
  have weak: "pool_weak ?p w" using pools_invD(2) [OF inv p] by (rule pool_inv_weak)
  have sub: "marked_set (nodes ?pl) ?w \<subseteq> marked_set (nodes ?pl) w"
    using mark by (auto simp: marked_set_def node_store.get_upd split: if_splits)
  then have "card (marked_set (nodes ?pl) ?w) \<le> card (marked_set (nodes ?pl) w)" by (intro card_mono) auto
  moreover have "marked_set (nodes ?pl) ?w \<subseteq> up_set (nodes ?pl) ?w"
    using weak mark by (auto simp: pool_weak_def Let_def marked_set_def up_set_def node_store.get_upd split: if_splits)
  ultimately have "pool_weak ?p ?w" using weak by (auto simp: pool_weak_def Let_def)
  moreover have "pool_inv q ?w \<and> linked q ?w" if "(k, q) \<in> set (lb_pools w)" "q \<noteq> ?p" for k q
    using registered_pool [OF wf reg that(1)] that pools_invD [OF inv that(1)] by (simp add: upd_node_other_pool)
  ultimately show ?thesis
    using p world_wf_upd_node [of w f n, OF wf par] by (auto simp: call_inv_def)
qed

lemma pool_inv_node_irrelevant:
  assumes "is_up (f (get_node n w)) = is_up (get_node n w)" "admin_state (f (get_node n w)) = admin_state (get_node n w)"
    and "max_nodes_kept (f (get_node n w)) = max_nodes_kept (get_node n w)"
  shows "pool_inv q (upd_node n f w) = pool_inv q w"
proof -
  have "up_set ns (upd_node n f w) = up_set ns w" "enabled_set ns (upd_node n f w) = enabled_set ns w"
    "marked_set ns (upd_node n f w) = marked_set ns w" for ns
    using assms by (auto simp: up_set_def enabled_set_def marked_set_def node_store.get_upd)
  then show ?thesis by (simp add: pool_inv_def pool_weak_def Let_def)
qed

lemma world_inv_node_irrelevant:
  assumes "is_up (f (get_node n w)) = is_up (get_node n w)" "admin_state (f (get_node n w)) = admin_state (get_node n w)"
    and "max_nodes_kept (f (get_node n w)) = max_nodes_kept (get_node n w)"
    and "parent_lbpool (f (get_node n w)) = parent_lbpool (get_node n w)"
    and "pools_inv X w"
  shows "pools_inv X (upd_node n f w)"
  using assms world_wf_upd_node [of w f n] by (auto simp: pools_inv_def pool_inv_node_irrelevant)

lemma registered_upd_node:
  assumes "parent_lbpool (f (get_node n w)) = parent_lbpool (get_node n w)"
  shows "registered m (upd_node n f w) = registered m w"
  using assms by (auto simp: registered_def Let_def node_store.get_upd)

section \<open>The handlers keep the invariant\<close>

lemma node_transition_cases:
  obtains (same) "node_transition num okc drain n = n\<lparr>state_changed := False\<rparr>"
  | (down) "node_state n = NODE_UP" "okc < num"
      "node_transition num okc drain n = n\<lparr>state_changed := True, max_nodes_kept := False, node_state := NODE_DOWN,
         admin_state := (if admin_state n = STATE_ENABLED
                         then (if drain = 0 then STATE_ENABLED else STATE_DRAIN_SOFT) else admin_state n)\<rparr>"
  | (up) "node_state n = NODE_DOWN" "\<not> okc < num"
      "node_transition num okc drain n = n\<lparr>state_changed := True, min_nodes_kept := False, node_state := NODE_UP,
         admin_state := (if admin_state n = STATE_DRAIN_SOFT then STATE_ENABLED else admin_state n)\<rparr>"
proof -
  consider "node_state n = NODE_UP" "okc < num" | "node_state n = NODE_DOWN" "\<not> okc < num"
    | "node_state n = NODE_UP" "\<not> okc < num" | "node_state n = NODE_DOWN" "okc < num"
    by (cases "node_state n"; cases "okc < num") simp_all
  then show ?thesis
    by cases (simp_all add: node_transition_def that)
qed

lemma node_transition_parent [simp]: "parent_lbpool (node_transition num okc drain n) = parent_lbpool n"
  by (cases num okc drain n rule: node_transition_cases) simp_all

lemma node_transition_mark:
  assumes "max_nodes_kept n \<Longrightarrow> is_up n" "max_nodes_kept (node_transition num okc drain n)"
  shows "max_nodes_kept n \<and> is_up (node_transition num okc drain n)"
  using assms by (cases num okc drain n rule: node_transition_cases) (auto simp: is_up_def split: if_splits)

lemma world_inv_mark:
  assumes "world_inv w" "registered n w" "max_nodes_kept (get_node n w)"
  shows "is_up (get_node n w)"
proof -
  let ?p = "parent_lbpool (get_node n w)"
  have "pool_inv ?p w" using assms pools_invD(2) by (auto simp: registered_def Let_def)
  then show ?thesis
    using assms by (auto simp: pool_inv_def pool_weak_def Let_def registered_def marked_set_def up_set_def)
qed

text \<open>
  The state in which \<open>node_logic\<close> calls the pool: the node has changed and the pool will select
  again, or nothing the invariant speaks of has changed and it will not.
\<close>

lemma node_transition_call:
  fixes num okc drain chk w n
  assumes inv: "world_inv w" and reg: "registered n w"
  defines "w2 \<equiv> upd_node n (node_transition num okc drain) (upd_node n (\<lambda>x. x\<lparr>checked := chk\<rparr>) w)"
  shows "call_inv {} (parent_lbpool (get_node n w)) w2 \<and> triggered (Some n) w2 \<or> world_inv w2 \<and> \<not> triggered (Some n) w2"
proof -
  let ?w1 = "upd_node n (\<lambda>x. x\<lparr>checked := chk\<rparr>) w" and ?f = "node_transition num okc drain"
  have inv1: "world_inv ?w1" using inv by (rule world_inv_node_irrelevant [rotated 4]) (simp_all add: is_up_def)
  have reg1: "registered n ?w1" using reg by (simp add: registered_upd_node)
  show ?thesis
  proof (cases "state_changed (?f (get_node n ?w1))")
    case True
    then show ?thesis
      using node_change_call_inv [OF inv1 reg1, of ?f] node_transition_mark [OF world_inv_mark [OF inv1 reg1]]
      by (simp add: w2_def triggered_def)
  next
    case False
    then have "?f (get_node n ?w1) = (get_node n ?w1)\<lparr>state_changed := False\<rparr>"
      by (cases num okc drain "get_node n ?w1" rule: node_transition_cases) simp_all
    then have "world_inv w2" unfolding w2_def by (intro world_inv_node_irrelevant [OF _ _ _ _ inv1]) (simp_all add: is_up_def)
    then show ?thesis using False by (simp add: w2_def triggered_def)
  qed
qed

text \<open>The two outcomes of \<open>node_logic\<close>: no check has run yet, or the pool is called.\<close>

lemma node_logic_cases:
  assumes "node_logic fuel try_send n w = Inr w'"
  obtains (idle) "w' = upd_node n (\<lambda>x. x\<lparr>checked := False\<rparr>) w"
  | (called) okc drain where
      "pool_logic fuel try_send (parent_lbpool (get_node n w)) (Some n)
         (upd_node n (node_transition (length (healthchecks (get_node n w))) okc drain)
            (upd_node n (\<lambda>x. x\<lparr>checked := True\<rparr>) w)) = Inr w'"
  using assms that
  by (cases "count_checks w (healthchecks (get_node n w)) (checked (get_node n w), 0, 0)")
     (auto simp: node_logic_def Let_def split: if_splits)

lemma node_logic_inv:
  assumes inv: "world_inv w" and reg: "registered n w" and run: "node_logic fuel try_send n w = Inr w'"
  shows "world_inv w'"
  using run
proof (cases rule: node_logic_cases)
  case idle
  have "world_inv (upd_node n (\<lambda>x. x\<lparr>checked := False\<rparr>) w)"
    using inv by (rule world_inv_node_irrelevant [rotated 4]) (simp_all add: is_up_def)
  then show ?thesis using idle by simp
next
  case (called okc drain)
  show ?thesis
    using node_transition_call [OF inv reg, of "length (healthchecks (get_node n w))" okc drain True]
      pool_logic_inv [OF called] pool_logic_untriggered_inv [OF called] reg
    by (auto simp: registered_def Let_def)
qed

text \<open>The change \<open>change_downtime\<close> makes to a node before it calls the pool.\<close>

definition downtime_change :: "LbNodeAdminState \<Rightarrow> LbNode \<Rightarrow> LbNode" where
  "downtime_change a x =
     (if a < STATE_ENABLED
      then x\<lparr>kill_states := \<not> (a \<le> STATE_DRAIN_SOFT), max_nodes_kept := False, state_changed := True, admin_state := a\<rparr>
      else x\<lparr>node_state := NODE_DOWN, state_changed := True, admin_state := a\<rparr>)"

lemma downtime_change_fields [simp]:
  "parent_lbpool (downtime_change a x) = parent_lbpool x"
  "healthchecks (downtime_change a x) = healthchecks x"
  "checked (downtime_change a x) = checked x"
  "admin_state (downtime_change a x) = a"
  "state_changed (downtime_change a x)"
  by (simp_all add: downtime_change_def)

lemma change_downtime_eq:
  "change_downtime fuel try_send n s w =
     (if admin_state_from_config s = admin_state (get_node n w) then Inr w
      else pool_logic fuel try_send (parent_lbpool (get_node n w)) (Some n)
             (upd_node n (downtime_change (admin_state_from_config s)) w))"
  by (cases "admin_state_from_config s < STATE_ENABLED")
     (simp_all add: change_downtime_def Let_def node_store.upd_upd downtime_change_def [abs_def])

lemma change_downtime_inv:
  assumes inv: "world_inv w" and reg: "registered n w" and run: "change_downtime fuel try_send n s w = Inr w'"
  shows "world_inv w'"
proof (cases "admin_state_from_config s = admin_state (get_node n w)")
  case True
  with run inv show ?thesis by (simp add: change_downtime_eq)
next
  case False
  let ?f = "downtime_change (admin_state_from_config s)"
  have "call_inv {} (parent_lbpool (get_node n w)) (upd_node n ?f w)"
    using world_inv_mark [OF inv reg] False
    by (intro node_change_call_inv [OF inv reg]) (auto simp: is_up_def downtime_change_def split: if_splits)
  moreover have call: "pool_logic fuel try_send (parent_lbpool (get_node n w)) (Some n) (upd_node n ?f w) = Inr w'"
    using run False by (simp add: change_downtime_eq)
  ultimately show ?thesis
    using pool_logic_inv [OF call] reg by (simp add: triggered_def registered_def Let_def)
qed

section \<open>The handlers return\<close>

text \<open>
  What the handlers need of a configuration, and keep: the invariant, no cycle of backup pools,
  no pool with \<open>MAX_NODES\<close> nodes, and more fuel than there are pools.
\<close>

definition sound :: "nat \<Rightarrow> 'q world \<Rightarrow> bool" where
  "sound fuel w \<longleftrightarrow>
     world_inv w \<and> small w \<and> acyclic (backup_rel w) \<and> length (lb_pools w) < fuel"

lemma backup_rel_upd_node [simp]: "backup_rel (upd_node n f w) = backup_rel w"
  by (simp add: backup_rel_def)

lemma small_upd_node [simp]: "small (upd_node n f w) = small w"
  by (simp add: small_def within_limits_def)

lemma active_ok_upd_node [simp]: "active_ok (upd_node n f w) = active_ok w"
  by (simp add: active_ok_def)

lemma registered_pool_known: "registered n w \<Longrightarrow> parent_lbpool (get_node n w) \<in> snd ` set (lb_pools w)"
  by (force simp: registered_def Let_def)

text \<open>A call of \<open>pool_logic\<close> after a change of one of its nodes.\<close>

lemma pool_logic_after_change:
  assumes s: "sound fuel w" and reg: "registered n w"
    and par: "parent_lbpool (f (get_node n w)) = parent_lbpool (get_node n w)"
  obtains w' where "pool_logic fuel try_send (parent_lbpool (get_node n w)) (Some n) (upd_node n f w) = Inr w'"
    "static_eq (upd_node n f w) w'" "small w'" "acyclic (backup_rel w')" "length (lb_pools w') < fuel"
proof -
  let ?w = "upd_node n f w"
  have wf: "world_wf ?w" using s world_wf_upd_node [of w f n] par by (auto simp: sound_def pools_inv_def)
  have "\<exists>w'. pool_logic fuel try_send (parent_lbpool (get_node n w)) (Some n) ?w = Inr w' \<and> small w'"
    using s reg wf registered_pool_known [OF reg]
    by (intro pool_logic_returns) (auto simp: sound_def registered_def Let_def intro: world_inv_active_ok)
  then obtain w' where w': "pool_logic fuel try_send (parent_lbpool (get_node n w)) (Some n) ?w = Inr w'" "small w'"
    by blast
  have st: "static_eq ?w w'" using pool_logic_static(1) [OF w'(1)] .
  show ?thesis
    using that [OF w'(1) st w'(2)] s backup_rel_static [OF st] static_eq_world(1) [OF st] by (simp add: sound_def)
qed

text \<open>What a handler may change of the nodes and pools: their dynamic members.\<close>

definition same_config :: "'q world \<Rightarrow> 'q world \<Rightarrow> bool" where
  "same_config w w' \<longleftrightarrow>
     lb_pools w' = lb_pools w \<and>
     (\<forall>p. nodes (get_pool p w') = nodes (get_pool p w) \<and> pool_name (get_pool p w') = pool_name (get_pool p w)) \<and>
     (\<forall>n. parent_lbpool (get_node n w') = parent_lbpool (get_node n w) \<and>
          healthchecks (get_node n w') = healthchecks (get_node n w))"

lemma same_config_refl [simp, intro]: "same_config w w"
  by (simp add: same_config_def)

lemma same_config_trans: "same_config w w' \<Longrightarrow> same_config w' w'' \<Longrightarrow> same_config w w''"
  by (simp add: same_config_def)

lemma static_eq_same_config: "static_eq w w' \<Longrightarrow> same_config w w'"
  by (simp add: same_config_def static_eqD)

lemma same_config_upd_node:
  assumes "parent_lbpool (f (get_node n w)) = parent_lbpool (get_node n w)"
    "healthchecks (f (get_node n w)) = healthchecks (get_node n w)"
  shows "same_config w (upd_node n f w)"
  using assms by (simp add: same_config_def node_store.get_upd)

lemma same_config_registered: "same_config w w' \<Longrightarrow> registered n w' = registered n w"
  by (simp add: same_config_def registered_def)

lemma node_transition_healthchecks [simp]: "healthchecks (node_transition num okc drain n) = healthchecks n"
  by (cases num okc drain n rule: node_transition_cases) simp_all

lemma sound_upd_checked: "sound fuel w \<Longrightarrow> sound fuel (upd_node n (\<lambda>x. x\<lparr>checked := c\<rparr>) w)"
  using world_inv_node_irrelevant [of "\<lambda>x. x\<lparr>checked := c\<rparr>" n w "{}"] by (simp add: sound_def is_up_def)

lemma node_logic_returns:
  assumes s: "sound fuel w" and reg: "registered n w"
  obtains w' where "node_logic fuel try_send n w = Inr w'" "sound fuel w'" "same_config w w'"
    "\<And>h. get_hc h w' = get_hc h w" "same_globals w w'"
proof -
  obtain chk okc drain where cnt: "count_checks w (healthchecks (get_node n w)) (checked (get_node n w), 0, 0) = (chk, okc, drain)"
    by (cases "count_checks w (healthchecks (get_node n w)) (checked (get_node n w), 0, 0)")
  let ?w1 = "upd_node n (\<lambda>x. x\<lparr>checked := chk\<rparr>) w"
  let ?f = "node_transition (length (healthchecks (get_node n w))) okc drain"
  have s1: "sound fuel ?w1" using s by (rule sound_upd_checked)
  have reg1: "registered n ?w1" using reg by (simp add: registered_upd_node)
  have cfg1: "same_config w ?w1" by (rule same_config_upd_node) simp_all
  show ?thesis
  proof (cases chk)
    case False
    then show ?thesis using that [of ?w1] cnt s1 cfg1 by (simp add: node_logic_def)
  next
    case True
    obtain w' where w': "pool_logic fuel try_send (parent_lbpool (get_node n ?w1)) (Some n) (upd_node n ?f ?w1) = Inr w'"
      "static_eq (upd_node n ?f ?w1) w'" "small w'" "acyclic (backup_rel w')" "length (lb_pools w') < fuel"
      using pool_logic_after_change [OF s1 reg1, of ?f] by auto
    have run: "node_logic fuel try_send n w = Inr w'"
      using cnt True w'(1) by (simp add: node_logic_def Let_def)
    have "world_inv w'" using node_logic_inv [OF _ reg run] s by (simp add: sound_def)
    moreover have "same_config w w'"
      using cfg1 same_config_upd_node [of ?f n ?w1] static_eq_same_config [OF w'(2)]
      by (auto intro: same_config_trans)
    moreover have "same_globals w w'"
      using same_globals_trans [OF upd_node_frame(8) same_globals_trans [OF upd_node_frame(8) static_eq_globals [OF w'(2)]]] .
    ultimately show ?thesis
      using that [OF run] w' static_eq_world(2) [OF w'(2)] by (simp add: sound_def)
  qed
qed

lemma change_downtime_returns:
  assumes s: "sound fuel w" and reg: "registered n w"
  obtains w' where "change_downtime fuel try_send n a w = Inr w'" "sound fuel w'" "same_config w w'"
    "\<And>h. get_hc h w' = get_hc h w" "same_globals w w'"
proof (cases "admin_state_from_config a = admin_state (get_node n w)")
  case True
  then show ?thesis using that [of w] s by (simp add: change_downtime_eq)
next
  case False
  let ?f = "downtime_change (admin_state_from_config a)"
  obtain w' where w': "pool_logic fuel try_send (parent_lbpool (get_node n w)) (Some n) (upd_node n ?f w) = Inr w'"
    "static_eq (upd_node n ?f w) w'" "small w'" "acyclic (backup_rel w')" "length (lb_pools w') < fuel"
    using pool_logic_after_change [OF s reg, of ?f] by auto
  have run: "change_downtime fuel try_send n a w = Inr w'" using False w'(1) by (simp add: change_downtime_eq)
  have "world_inv w'" using change_downtime_inv [OF _ reg run] s by (simp add: sound_def)
  moreover have "same_config w w'"
    using same_config_upd_node [of ?f n w] static_eq_same_config [OF w'(2)] by (auto intro: same_config_trans)
  moreover have "same_globals w w'"
    using same_globals_trans [OF upd_node_frame(8) static_eq_globals [OF w'(2)]] .
  ultimately show ?thesis
    using that [OF run] w' static_eq_world(2) [OF w'(2)] by (simp add: sound_def)
qed

end
