(* ===== verification/Healthcheck.thy ===== *)
theory Healthcheck
  imports Lb_Node
begin

text \<open>
  The part of \<open>healthcheck.cpp\<close> all types of health checks share: when a check may be started
  (\<open>schedule_healthcheck\<close>), how its result changes the hard state (\<open>handle_result\<close>), and the end
  of a check (\<open>end_check\<close>), which reports to the node.
\<close>

section \<open>The operations\<close>

definition schedule_healthcheck :: "timespec \<Rightarrow> Healthcheck \<Rightarrow> bool \<times> Healthcheck" where
  "schedule_healthcheck now h =
     (if is_running h then (False, h)
      else if timespec_diff_ms now (last_checked h) < to_int32 (check_interval h * 1000 + uint (extra_delay h))
      then (False, h)
      else (True, h\<lparr>last_checked := now, is_running := True\<rparr>))"

definition handle_result :: "Healthcheck \<Rightarrow> Healthcheck" where
  "handle_result h =
     (let h = (if last_state h = HC_STATE_UP then h\<lparr>failure_counter := 0\<rparr> else h);
          h = (if hard_state h = HC_STATE_UP then
                 (case last_state h of
                    HC_STATE_UP \<Rightarrow> h
                  | HC_STATE_DOWN \<Rightarrow>
                      (let h = h\<lparr>failure_counter := failure_counter h + 1\<rparr> in
                       if uint (failure_counter h) \<ge> max_failed_checks h
                       then h\<lparr>hard_state := HC_STATE_DOWN\<rparr> else h)
                  | HC_STATE_DRAIN \<Rightarrow> h\<lparr>hard_state := HC_STATE_DRAIN\<rparr>)
               else if last_state h = HC_STATE_UP then
                 h\<lparr>hard_state := HC_STATE_UP, failure_counter := 0\<rparr>
               else h)
      in h\<lparr>is_running := False, ran := True\<rparr>)"

text \<open>The result of a check that did not panic, as a state.\<close>

definition end_check ::
    "nat \<Rightarrow> ('q \<Rightarrow> pfctl_msg \<Rightarrow> bool \<times> 'q) \<Rightarrow> hc_id \<Rightarrow> HealthcheckResult \<Rightarrow> 'q world \<Rightarrow> 'q world result" where
  "end_check fuel try_send hc result w =
     (case result of
        HC_PASS \<Rightarrow>
          let w = upd_hc hc (\<lambda>h. handle_result (h\<lparr>last_state := HC_STATE_UP\<rparr>)) w
          in node_logic fuel try_send (parent_lbnode (get_hc hc w)) w
      | HC_FAIL \<Rightarrow>
          let w = upd_hc hc (\<lambda>h. handle_result (h\<lparr>last_state := HC_STATE_DOWN\<rparr>)) w
          in node_logic fuel try_send (parent_lbnode (get_hc hc w)) w
      | HC_DRAIN \<Rightarrow>
          let w = upd_hc hc (\<lambda>h. handle_result (h\<lparr>last_state := HC_STATE_DRAIN\<rparr>)) w
          in node_logic fuel try_send (parent_lbnode (get_hc hc w)) w
      | HC_PANIC \<Rightarrow> Inl (Exit 2))"

definition timeout_to_ms :: "Healthcheck \<Rightarrow> int" where
  "timeout_to_ms h = to_int32 (timeval_to_ms (timeout h))"

section \<open>Hard and soft state\<close>

text \<open>A check that ends with each of the given states in turn.\<close>

definition with_result :: "HealthcheckState \<Rightarrow> Healthcheck \<Rightarrow> Healthcheck" where
  "with_result r h = handle_result (h\<lparr>last_state := r\<rparr>)"

text \<open>
  The hard state as a function of all results so far: only the results after the last pass count;
  of these, a run of failures as long as the limit takes the check down, unless a drain comes
  first.
\<close>

definition since_pass :: "HealthcheckState list \<Rightarrow> HealthcheckState list" where
  "since_pass rs = rev (takeWhile (\<lambda>r. r \<noteq> HC_STATE_UP) (rev rs))"

definition hard_state_after :: "nat \<Rightarrow> HealthcheckState list \<Rightarrow> HealthcheckState" where
  "hard_state_after limit rs =
     (let fails = takeWhile (\<lambda>r. r = HC_STATE_DOWN) (since_pass rs) in
      if limit \<le> length fails then HC_STATE_DOWN
      else if fails = since_pass rs then HC_STATE_UP
      else HC_STATE_DRAIN)"

lemma since_pass_snoc: "since_pass (rs @ [r]) = (if r = HC_STATE_UP then [] else since_pass rs @ [r])"
  by (simp add: since_pass_def)

lemma handle_result_fields [simp]:
  "max_failed_checks (handle_result h) = max_failed_checks h"
  "parent_lbnode (handle_result h) = parent_lbnode h"
  "last_state (handle_result h) = last_state h"
  "is_running (handle_result h) = False"
  "ran (handle_result h) = True"
  "derived (handle_result h) = derived h"
  "last_checked (handle_result h) = last_checked h"
  by (simp_all add: handle_result_def Let_def split: HealthcheckState.split)

lemma with_result_fields [simp]:
  "max_failed_checks (with_result r h) = max_failed_checks h"
  "parent_lbnode (with_result r h) = parent_lbnode h"
  by (simp_all add: with_result_def)

lemma with_result_pass:
  "hard_state (with_result HC_STATE_UP h) = HC_STATE_UP" "failure_counter (with_result HC_STATE_UP h) = 0"
  by (simp_all add: with_result_def handle_result_def Let_def)

lemma with_result_fail:
  "hard_state h = HC_STATE_UP \<Longrightarrow> failure_counter (with_result HC_STATE_DOWN h) = failure_counter h + 1"
  "hard_state h = HC_STATE_UP \<Longrightarrow> hard_state (with_result HC_STATE_DOWN h) =
     (if max_failed_checks h \<le> uint (failure_counter h + 1) then HC_STATE_DOWN else HC_STATE_UP)"
  "hard_state h \<noteq> HC_STATE_UP \<Longrightarrow> hard_state (with_result HC_STATE_DOWN h) = hard_state h"
  by (simp_all add: with_result_def handle_result_def Let_def)

lemma with_result_drain:
  "hard_state (with_result HC_STATE_DRAIN h) =
     (if hard_state h = HC_STATE_UP then HC_STATE_DRAIN else hard_state h)"
  by (simp add: with_result_def handle_result_def Let_def)

lemma takeWhile_snoc_eq:
  "takeWhile P (xs @ [x]) = (if takeWhile P xs = xs then if P x then xs @ [x] else xs else takeWhile P xs)"
  by (auto simp: takeWhile_append takeWhile_eq_all_conv)

lemma takeWhile_neq_snoc [simp]: "takeWhile P xs \<noteq> xs @ [y]"
proof
  assume "takeWhile P xs = xs @ [y]"
  then have "length (takeWhile P xs) = Suc (length xs)" by simp
  then show False using length_takeWhile_le [of P xs] by simp
qed

text \<open>
  While the hard state is up, the failure counter is the number of results since the last pass;
  it cannot wrap around before it reaches a limit that fits its 16 bits.
\<close>

lemma failure_counts:
  assumes "unat (failure_counter h) = length s" "length s < limit" "limit \<le> 65535"
  shows "unat (failure_counter h + 1) = Suc (length s)" "uint (failure_counter h + 1) = int (Suc (length s))"
proof -
  show "unat (failure_counter h + 1) = Suc (length s)" using assms by (simp add: unat_word_ariths)
  then show "uint (failure_counter h + 1) = int (Suc (length s))" by (metis uint_nat)
qed

lemma hard_state_run:
  fixes h0 rs
  defines "h \<equiv> fold with_result rs h0"
  assumes up: "hard_state h0 = HC_STATE_UP" "failure_counter h0 = 0"
    and lim: "limit = nat (max 1 (max_failed_checks h0))" "max_failed_checks h0 \<le> 65535"
  shows "hard_state h = hard_state_after limit rs \<and> max_failed_checks h = max_failed_checks h0 \<and>
         (hard_state h = HC_STATE_UP \<longrightarrow> unat (failure_counter h) = length (since_pass rs))"
  unfolding h_def
proof (induction rs rule: rev_induct)
  case Nil
  then show ?case using up lim by (simp add: hard_state_after_def since_pass_def)
next
  case (snoc r rs)
  let ?h = "fold with_result rs h0" and ?s = "since_pass rs"
  let ?fails = "takeWhile (\<lambda>r. r = HC_STATE_DOWN) ?s"
  have step: "fold with_result (rs @ [r]) h0 = with_result r ?h" by simp
  have limit: "0 < limit" "limit \<le> 65535" using lim by auto
  have IH: "hard_state ?h = hard_state_after limit rs" "max_failed_checks ?h = max_failed_checks h0"
    "hard_state ?h = HC_STATE_UP \<Longrightarrow> unat (failure_counter ?h) = length ?s"
    using snoc by auto
  show ?case
  proof (cases r)
    case HC_STATE_UP
    then show ?thesis using limit IH
      by (simp add: with_result_pass hard_state_after_def since_pass_snoc)
  next
    case HC_STATE_DRAIN
    then show ?thesis using IH
      by (auto simp: with_result_drain hard_state_after_def since_pass_snoc takeWhile_snoc_eq Let_def
          simp del: takeWhile_eq_all_conv split: if_splits)
  next
    case HC_STATE_DOWN
    show ?thesis
    proof (cases "hard_state ?h = HC_STATE_UP")
      case True
      then have all: "?fails = ?s" and few: "length ?s < limit"
        using IH(1) by (auto simp: hard_state_after_def Let_def simp del: takeWhile_eq_all_conv split: if_splits)
      show ?thesis
        using HC_STATE_DOWN True all few lim IH(2) failure_counts [OF IH(3) [OF True] few limit(2)]
        by (auto simp: with_result_fail hard_state_after_def since_pass_snoc takeWhile_snoc_eq Let_def
          simp del: takeWhile_eq_all_conv split: if_splits)
    next
      case False
      then show ?thesis
        using HC_STATE_DOWN IH
        by (auto simp: with_result_fail hard_state_after_def since_pass_snoc takeWhile_snoc_eq Let_def
          simp del: takeWhile_eq_all_conv split: if_splits)
    qed
  qed
qed

lemma never_down_above_16_bits:
  assumes "hard_state h = HC_STATE_UP" "65535 < max_failed_checks h"
  shows "hard_state (fold with_result (replicate k HC_STATE_DOWN) h) = HC_STATE_UP"
  using assms
proof (induction k arbitrary: h)
  case (Suc k)
  have "uint (failure_counter h + 1) < 2 ^ 16" using uint_bounded [of "failure_counter h + 1"] by simp
  then have "hard_state (with_result HC_STATE_DOWN h) = HC_STATE_UP"
    using Suc.prems by (simp add: with_result_fail)
  with Suc show ?case by simp
qed simp

section \<open>Scheduling\<close>

lemma schedule_healthcheck_iff:
  "fst (schedule_healthcheck now h) \<longleftrightarrow>
     \<not> is_running h \<and> to_int32 (check_interval h * 1000 + uint (extra_delay h)) \<le> timespec_diff_ms now (last_checked h)"
  by (auto simp: schedule_healthcheck_def)

lemma schedule_healthcheck_True:
  "fst (schedule_healthcheck now h) \<Longrightarrow>
     snd (schedule_healthcheck now h) = h\<lparr>last_checked := now, is_running := True\<rparr>"
  by (auto simp: schedule_healthcheck_def split: if_splits)

lemma schedule_healthcheck_False: "\<not> fst (schedule_healthcheck now h) \<Longrightarrow> snd (schedule_healthcheck now h) = h"
  by (auto simp: schedule_healthcheck_def split: if_splits)

section \<open>The end of a check keeps the invariant\<close>

lemma world_inv_upd_hc: "pools_inv X (upd_hc hc f w) = pools_inv X w"
proof -
  have "up_set ns (upd_hc hc f w) = up_set ns w" "enabled_set ns (upd_hc hc f w) = enabled_set ns w"
    "marked_set ns (upd_hc hc f w) = marked_set ns w" for ns
    by (simp_all add: up_set_def enabled_set_def marked_set_def)
  then show ?thesis
    by (simp add: pools_inv_def world_wf_def pool_wf_def pool_inv_def pool_weak_def linked_def)
qed

lemma registered_upd_hc [simp]: "registered n (upd_hc hc f w) = registered n w"
  by (simp add: registered_def)

definition result_state :: "HealthcheckResult \<Rightarrow> HealthcheckState" where
  "result_state r = (case r of HC_PASS \<Rightarrow> HC_STATE_UP | HC_FAIL \<Rightarrow> HC_STATE_DOWN | _ \<Rightarrow> HC_STATE_DRAIN)"

lemma end_check_eq:
  "end_check fuel try_send hc r w =
     (if r = HC_PANIC then Inl (Exit 2)
      else node_logic fuel try_send (parent_lbnode (get_hc hc w)) (upd_hc hc (with_result (result_state r)) w))"
  by (simp add: end_check_def result_state_def with_result_def [abs_def] Let_def split: HealthcheckResult.split)

lemma end_check_inv:
  assumes "world_inv w" "registered (parent_lbnode (get_hc hc w)) w" "end_check fuel try_send hc r w = Inr w'"
  shows "world_inv w'"
  using assms node_logic_inv [of "upd_hc hc (with_result (result_state r)) w"]
  by (auto simp: end_check_eq world_inv_upd_hc split: if_splits)

text \<open>A check whose node is registered always ends, unless it panics.\<close>

lemma sound_upd_hc [simp]: "sound fuel (upd_hc hc f w) = sound fuel w"
  by (simp add: sound_def world_inv_upd_hc small_def within_limits_def backup_rel_def)

lemma same_config_upd_hc [simp]: "same_config w (upd_hc hc f w)"
  by (simp add: same_config_def)

lemma end_check_returns:
  assumes "sound fuel w" "registered (parent_lbnode (get_hc hc w)) w" "r \<noteq> HC_PANIC"
  obtains w' where "end_check fuel try_send hc r w = Inr w'" "sound fuel w'" "same_config w w'"
    "\<And>h. get_hc h w' = (if h = hc then with_result (result_state r) (get_hc hc w) else get_hc h w)"
    "same_globals w w'"
proof -
  let ?w = "upd_hc hc (with_result (result_state r)) w"
  have "sound fuel ?w" "registered (parent_lbnode (get_hc hc w)) ?w" using assms by simp_all
  then obtain w' where w': "node_logic fuel try_send (parent_lbnode (get_hc hc w)) ?w = Inr w'"
    "sound fuel w'" "same_config ?w w'" "\<And>h. get_hc h w' = get_hc h ?w" "same_globals ?w w'"
    using node_logic_returns [of fuel ?w _ try_send] by blast
  have "same_config w w'" using w'(3) same_config_trans [OF same_config_upd_hc] by blast
  moreover have "same_globals w w'" using same_globals_trans [OF upd_hc_frame(8) w'(5)] .
  ultimately show ?thesis
    using that w' assms(3) by (auto simp: end_check_eq hc_store.get_upd)
qed

lemma with_result_fold: "fold with_result rs = fold (\<lambda>r h. handle_result (h\<lparr>last_state := r\<rparr>)) rs"
  by (simp add: with_result_def [abs_def])

lemma handle_result_timing [simp]:
  "check_interval (handle_result h) = check_interval h" "extra_delay (handle_result h) = extra_delay h"
  by (simp_all add: handle_result_def Let_def split: HealthcheckState.split)

end
