(* ===== verification/Node_Health.thy ===== *)
theory Node_Health
  imports Healthcheck
begin

text \<open>
  How the state of a node follows its health checks: after a check has ended, the node is up
  exactly when all its checks are, and no later event leaves a checked node up with a failed
  check. The predicate \<open>live\<close> collects what holds of the main process between two events.
\<close>

section \<open>Counting the checks\<close>

lemma count_checks_eq:
  "count_checks w hcs (c, a, d) =
     (c \<or> (\<exists>h \<in> set hcs. ran (get_hc h w)),
      a + length (filter (\<lambda>h. hard_state (get_hc h w) = HC_STATE_UP) hcs),
      d + length (filter (\<lambda>h. hard_state (get_hc h w) = HC_STATE_DRAIN) hcs))"
  by (induction hcs arbitrary: c a d) auto

definition all_passed :: "node_id \<Rightarrow> 'q world \<Rightarrow> bool" where
  "all_passed n w \<longleftrightarrow> (\<forall>h \<in> set (healthchecks (get_node n w)). hard_state (get_hc h w) = HC_STATE_UP)"

lemma all_passed_count:
  "length (filter (\<lambda>h. hard_state (get_hc h w) = HC_STATE_UP) (healthchecks (get_node n w)))
     < length (healthchecks (get_node n w)) \<longleftrightarrow> \<not> all_passed n w"
  unfolding all_passed_def by (metis (mono_tags, lifting) filter_True length_filter_less less_irrefl)

lemma node_transition_state:
  "node_state (node_transition num okc drain n) = (if okc < num then NODE_DOWN else NODE_UP)"
  by (cases "node_state n") (auto simp: node_transition_def Let_def)

lemma node_transition_checked [simp]: "checked (node_transition num okc drain n) = checked n"
  by (cases num okc drain n rule: node_transition_cases) simp_all

text \<open>What \<open>node_logic\<close> does to the states of the nodes.\<close>

lemma node_logic_states:
  assumes run: "node_logic fuel try_send n w = Inr w'"
  shows "checked (get_node n w') \<longleftrightarrow> checked (get_node n w) \<or> (\<exists>h \<in> set (healthchecks (get_node n w)). ran (get_hc h w))"
    and "checked (get_node n w') \<Longrightarrow> node_state (get_node n w') = (if all_passed n w then NODE_UP else NODE_DOWN)"
    and "m \<noteq> n \<Longrightarrow> node_state (get_node m w') = node_state (get_node m w) \<and> checked (get_node m w') = checked (get_node m w)"
    and "\<not> checked (get_node n w') \<Longrightarrow> node_state (get_node n w') = node_state (get_node n w)"
proof -
  let ?hcs = "healthchecks (get_node n w)"
  define chk where "chk \<longleftrightarrow> checked (get_node n w) \<or> (\<exists>h \<in> set ?hcs. ran (get_hc h w))"
  define ok where "ok = length (filter (\<lambda>h. hard_state (get_hc h w) = HC_STATE_UP) ?hcs)"
  define drain where "drain = length (filter (\<lambda>h. hard_state (get_hc h w) = HC_STATE_DRAIN) ?hcs)"
  let ?w1 = "upd_node n (\<lambda>x. x\<lparr>checked := chk\<rparr>) w"
  let ?w2 = "upd_node n (node_transition (length ?hcs) ok drain) ?w1"
  have cnt: "count_checks w ?hcs (checked (get_node n w), 0, 0) = (chk, ok, drain)"
    by (simp add: count_checks_eq chk_def ok_def drain_def)
  have cases: "(\<not> chk \<and> w' = ?w1) \<or> (chk \<and> static_eq ?w2 w')"
    using run pool_logic_static(1) [of fuel try_send "parent_lbpool (get_node n w)" "Some n" ?w2 w']
    by (cases chk) (simp_all add: node_logic_def Let_def cnt)
  have ok: "ok < length ?hcs \<longleftrightarrow> \<not> all_passed n w" by (simp add: ok_def all_passed_count)
  show "checked (get_node n w') \<longleftrightarrow> checked (get_node n w) \<or> (\<exists>h \<in> set ?hcs. ran (get_hc h w))"
    using cases by (auto simp: static_eq_node simp flip: chk_def)
  show "checked (get_node n w') \<Longrightarrow> node_state (get_node n w') = (if all_passed n w then NODE_UP else NODE_DOWN)"
    "\<not> checked (get_node n w') \<Longrightarrow> node_state (get_node n w') = node_state (get_node n w)"
    using cases by (auto simp: static_eq_node node_transition_state ok)
  show "m \<noteq> n \<Longrightarrow> node_state (get_node m w') = node_state (get_node m w) \<and> checked (get_node m w') = checked (get_node m w)"
    using cases by (auto simp: static_eq_node node_store.get_upd)
qed

section \<open>What holds between two events\<close>

text \<open>Every check of a registered node points back to it.\<close>

definition hcs_wf :: "'q world \<Rightarrow> bool" where
  "hcs_wf w \<longleftrightarrow>
     (\<forall>n. registered n w \<longrightarrow> (\<forall>h \<in> set (healthchecks (get_node n w)). parent_lbnode (get_hc h w) = n))"

definition attached :: "hc_id \<Rightarrow> 'q world \<Rightarrow> bool" where
  "attached h w \<longleftrightarrow>
     registered (parent_lbnode (get_hc h w)) w \<and> h \<in> set (healthchecks (get_node (parent_lbnode (get_hc h w)) w))"

text \<open>A node that was checked is up only with all its checks up.\<close>

definition agrees :: "node_id \<Rightarrow> 'q world \<Rightarrow> bool" where
  "agrees n w \<longleftrightarrow> checked (get_node n w) \<and> node_state (get_node n w) = NODE_UP \<longrightarrow> all_passed n w"

text \<open>The map from ping sequence numbers refers to checks of registered nodes.\<close>

definition seqs_attached :: "'q world \<Rightarrow> bool" where
  "seqs_attached w \<longleftrightarrow> (\<forall>s h. seq_map w s = Some h \<longrightarrow> attached h w)"

definition live :: "nat \<Rightarrow> 'q world \<Rightarrow> bool" where
  "live fuel w \<longleftrightarrow>
     sound fuel w \<and> hcs_wf w \<and> (\<forall>n. registered n w \<longrightarrow> agrees n w) \<and> seqs_attached w"

lemma hcs_wf_keep:
  assumes "hcs_wf w" "same_config w w'" "\<And>h. parent_lbnode (get_hc h w') = parent_lbnode (get_hc h w)"
  shows "hcs_wf w'"
  using assms same_config_registered [OF assms(2)] by (auto simp: hcs_wf_def same_config_def)

lemma attached_keep:
  assumes "same_config w w'" "\<And>h. parent_lbnode (get_hc h w') = parent_lbnode (get_hc h w)"
  shows "attached h w' = attached h w"
  using assms same_config_registered [OF assms(1)] by (auto simp: attached_def same_config_def)

lemma seqs_attached_keep:
  assumes "seqs_attached w" "same_config w w'" "same_globals w w'"
    and "\<And>h. parent_lbnode (get_hc h w') = parent_lbnode (get_hc h w)"
  shows "seqs_attached w'"
  using assms(1,3) attached_keep [OF assms(2,4)] by (simp add: seqs_attached_def same_globals_def)

lemma all_passed_keep:
  assumes "same_config w w'"
    and "\<And>h. h \<in> set (healthchecks (get_node n w)) \<Longrightarrow> hard_state (get_hc h w') = hard_state (get_hc h w)"
  shows "all_passed n w' = all_passed n w"
  using assms by (auto simp: all_passed_def same_config_def)

text \<open>A change of a health check that leaves its hard state alone.\<close>

lemma live_upd_hc:
  assumes "live fuel w" "hard_state (f (get_hc hc w)) = hard_state (get_hc hc w)"
    and "parent_lbnode (f (get_hc hc w)) = parent_lbnode (get_hc hc w)"
  shows "live fuel (upd_hc hc f w)"
proof -
  have par: "parent_lbnode (get_hc h (upd_hc hc f w)) = parent_lbnode (get_hc h w)" for h
    using assms by (auto simp: hc_store.get_upd)
  then have "hcs_wf (upd_hc hc f w)"
    using assms hcs_wf_keep [of w "upd_hc hc f w"] by (simp add: live_def)
  moreover have "seqs_attached (upd_hc hc f w)"
    using assms par seqs_attached_keep [of w "upd_hc hc f w"] by (simp add: live_def)
  moreover have "all_passed n (upd_hc hc f w) = all_passed n w" for n
    using assms by (intro all_passed_keep) (auto simp: hc_store.get_upd)
  ultimately show ?thesis using assms(1) by (simp add: live_def agrees_def)
qed

text \<open>The end of a check, and a change of the administrative state, keep it.\<close>

lemma end_check_live:
  assumes live: "live fuel w" and att: "attached hc w" and r: "r \<noteq> HC_PANIC"
  obtains w' where "end_check fuel try_send hc r w = Inr w'" "live fuel w'" "same_config w w'"
    "\<And>h. get_hc h w' = (if h = hc then with_result (result_state r) (get_hc hc w) else get_hc h w)"
    "same_globals w w'"
proof -
  let ?n = "parent_lbnode (get_hc hc w)" and ?w = "upd_hc hc (with_result (result_state r)) w"
  have reg: "registered ?n w" and mem: "hc \<in> set (healthchecks (get_node ?n w))"
    using att by (auto simp: attached_def)
  have snd: "sound fuel w" using live by (simp add: live_def)
  obtain w' where w': "end_check fuel try_send hc r w = Inr w'" "sound fuel w'" "same_config w w'"
    and hcs: "\<And>h. get_hc h w' = (if h = hc then with_result (result_state r) (get_hc hc w) else get_hc h w)"
    and glob: "same_globals w w'"
    using end_check_returns [OF snd reg r, of try_send] by blast
  have run: "node_logic fuel try_send ?n ?w = Inr w'" using w'(1) r by (simp add: end_check_eq)
  have hcs': "get_hc h w' = get_hc h ?w" for h by (simp add: hcs hc_store.get_upd)
  have wf: "hcs_wf w'"
    using live w'(3) hcs_wf_keep [of w w'] by (simp add: live_def hcs)
  have "agrees n w'" if n: "registered n w'" for n
  proof (cases "n = ?n")
    case True
    have "checked (get_node ?n w')"
      using node_logic_states(1) [OF run] mem by (auto simp: with_result_def intro!: bexI [of _ hc])
    then have "node_state (get_node ?n w') = (if all_passed ?n ?w then NODE_UP else NODE_DOWN)"
      by (rule node_logic_states(2) [OF run])
    moreover have "all_passed ?n w' = all_passed ?n ?w"
      using w'(3) by (simp add: all_passed_def hcs' same_config_def)
    ultimately show ?thesis using True by (simp add: agrees_def split: if_splits)
  next
    case False
    have reg': "registered n w" using n same_config_registered [OF w'(3)] by simp
    then have "hc \<notin> set (healthchecks (get_node n w))" using live False by (auto simp: live_def hcs_wf_def)
    then have "all_passed n w' = all_passed n w" using w'(3) by (intro all_passed_keep) (auto simp: hcs)
    moreover have "node_state (get_node n w') = node_state (get_node n w)" "checked (get_node n w') = checked (get_node n w)"
      using node_logic_states(3) [OF run False] by simp_all
    ultimately show ?thesis using live reg' by (simp add: live_def agrees_def)
  qed
  moreover have "seqs_attached w'"
    using live w'(3) glob seqs_attached_keep [of w w'] by (simp add: live_def hcs)
  ultimately have "live fuel w'" using w'(2) wf by (simp add: live_def)
  then show ?thesis using that w' hcs glob by blast
qed

lemma change_downtime_live:
  assumes live: "live fuel w" and reg: "registered n w"
  obtains w' where "change_downtime fuel try_send n a w = Inr w'" "live fuel w'" "same_config w w'"
    "\<And>h. get_hc h w' = get_hc h w" "same_globals w w'"
proof -
  have snd: "sound fuel w" using live by (simp add: live_def)
  obtain w' where w': "change_downtime fuel try_send n a w = Inr w'" "sound fuel w'" "same_config w w'"
    "\<And>h. get_hc h w' = get_hc h w" "same_globals w w'"
    using change_downtime_returns [OF snd reg, of try_send a] by blast
  have "node_state (get_node m w') = NODE_UP \<longrightarrow> node_state (get_node m w) = NODE_UP"
    "checked (get_node m w') = checked (get_node m w)" for m
  proof -
    let ?w = "upd_node n (downtime_change (admin_state_from_config a)) w"
    have "w' = w \<or> static_eq ?w w'"
      using w'(1) pool_logic_static(1) [of fuel try_send "parent_lbpool (get_node n w)" "Some n" ?w w']
      by (auto simp: change_downtime_eq split: if_splits)
    then show "node_state (get_node m w') = NODE_UP \<longrightarrow> node_state (get_node m w) = NODE_UP"
      "checked (get_node m w') = checked (get_node m w)"
      by (auto simp: static_eq_node node_store.get_upd downtime_change_def split: if_splits)
  qed
  moreover have "all_passed m w' = all_passed m w" for m
    using w'(3,4) by (intro all_passed_keep) simp_all
  moreover have "hcs_wf w'" using live w'(3,4) hcs_wf_keep [of w w'] by (simp add: live_def)
  moreover have "seqs_attached w'"
    using live w'(3-5) seqs_attached_keep [of w w'] by (simp add: live_def)
  ultimately have "live fuel w'"
    using live w'(2) same_config_registered [OF w'(3)] by (auto simp: live_def agrees_def)
  then show ?thesis using that w' by blast
qed

section \<open>Operations of a health check\<close>

text \<open>
  The predicates depend on the heaps and the map of pools only, so a change of another global
  keeps them.
\<close>

lemma globals_irrelevant:
  assumes "node_heap w' = node_heap w" "pool_heap w' = pool_heap w" "hc_heap w' = hc_heap w" "lb_pools w' = lb_pools w"
  shows "live fuel w \<Longrightarrow> (\<And>s h. seq_map w' s = Some h \<Longrightarrow> seq_map w s = Some h \<or> attached h w) \<Longrightarrow> live fuel w'"
    "attached h w' = attached h w" "same_config w w'"
proof -
  have g: "get_node n w' = get_node n w" "get_pool p w' = get_pool p w" "get_hc h w' = get_hc h w" for n p h
    using assms by (simp_all add: get_node_def get_pool_def get_hc_def)
  have sets: "up_set ns w' = up_set ns w" "enabled_set ns w' = enabled_set ns w" "marked_set ns w' = marked_set ns w" for ns
    by (simp_all add: up_set_def enabled_set_def marked_set_def g)
  have inv: "world_inv w' = world_inv w"
    by (simp add: pools_inv_def world_wf_def pool_wf_def pool_inv_def pool_weak_def linked_def g sets assms)
  have reg: "registered n w' = registered n w" for n by (simp add: registered_def g assms)
  have "sound fuel w' = sound fuel w"
    by (simp add: sound_def inv small_def within_limits_def backup_rel_def g assms)
  moreover show att: "attached h w' = attached h w" for h by (simp add: attached_def reg g)
  moreover have "seqs_attached w'"
    if "seqs_attached w" "\<And>s h. seq_map w' s = Some h \<Longrightarrow> seq_map w s = Some h \<or> attached h w"
    using that unfolding seqs_attached_def att by blast
  ultimately show "live fuel w'" if "live fuel w" "\<And>s h. seq_map w' s = Some h \<Longrightarrow> seq_map w s = Some h \<or> attached h w"
    using that by (simp add: live_def hcs_wf_def agrees_def all_passed_def reg g)
  show "same_config w w'" by (simp add: same_config_def g assms)
qed

text \<open>
  What every operation of a health check does to the rest of the program: the objects and their
  links stay, and \<open>live\<close> holds again at its end. \<open>E\<close> are the errors by which it may end the
  program.
\<close>

definition keeps :: "nat \<Rightarrow> 'q world \<Rightarrow> 'q world \<Rightarrow> bool" where
  "keeps fuel w w' \<longleftrightarrow>
     (live fuel w \<longrightarrow> live fuel w') \<and> same_config w w' \<and>
     (\<forall>h. parent_lbnode (get_hc h w') = parent_lbnode (get_hc h w))"

definition outcome :: "error set \<Rightarrow> nat \<Rightarrow> 'q world \<Rightarrow> 'q world result \<Rightarrow> bool" where
  "outcome E fuel w r \<longleftrightarrow> (case r of Inl e \<Rightarrow> e \<in> E | Inr w' \<Rightarrow> keeps fuel w w')"

lemma keeps_refl [simp]: "keeps fuel w w"
  by (simp add: keeps_def)

lemma keeps_trans: "keeps fuel w1 w2 \<Longrightarrow> keeps fuel w2 w3 \<Longrightarrow> keeps fuel w1 w3"
  by (auto simp: keeps_def intro: same_config_trans)

lemma keeps_attached: "keeps fuel w w' \<Longrightarrow> attached h w' = attached h w"
  using attached_keep [of w w' h] by (simp add: keeps_def)

lemma keeps_registered: "keeps fuel w w' \<Longrightarrow> registered n w' = registered n w"
  by (simp add: keeps_def same_config_registered)

lemma keeps_globals:
  assumes "node_heap w' = node_heap w" "pool_heap w' = pool_heap w" "hc_heap w' = hc_heap w" "lb_pools w' = lb_pools w"
    and "\<And>s h. seq_map w' s = Some h \<Longrightarrow> seq_map w s = Some h \<or> attached h w"
  shows "keeps fuel w w'"
  using globals_irrelevant [OF assms(1-4)] assms by (simp add: keeps_def get_hc_def)

lemma keeps_upd_hc:
  assumes "hard_state (f (get_hc hc w)) = hard_state (get_hc hc w)" "parent_lbnode (f (get_hc hc w)) = parent_lbnode (get_hc hc w)"
  shows "keeps fuel w (upd_hc hc f w)"
  using assms live_upd_hc [of fuel w f hc] by (auto simp: keeps_def hc_store.get_upd)

lemma outcome_Inr [simp]: "outcome E fuel w (Inr w') = keeps fuel w w'"
  by (simp add: outcome_def)

lemma outcome_Inl [simp]: "outcome E fuel w (Inl e) = (e \<in> E)"
  by (simp add: outcome_def)

lemma outcome_mono: "outcome E fuel w r \<Longrightarrow> E \<subseteq> E' \<Longrightarrow> outcome E' fuel w r"
  by (auto simp: outcome_def split: sum.splits)

lemma outcome_after: "keeps fuel w w1 \<Longrightarrow> outcome E fuel w1 r \<Longrightarrow> outcome E fuel w r"
  by (auto simp: outcome_def intro: keeps_trans split: sum.splits)

lemma end_check_outcome:
  assumes "live fuel w" "attached hc w"
  shows "outcome {Exit 2} fuel w (end_check fuel try_send hc r w)"
proof (cases "r = HC_PANIC")
  case True
  then show ?thesis by (simp add: end_check_eq)
next
  case False
  obtain w' where "end_check fuel try_send hc r w = Inr w'" "live fuel w'" "same_config w w'"
    "\<And>h. get_hc h w' = (if h = hc then with_result (result_state r) (get_hc hc w) else get_hc h w)"
    using end_check_live [OF assms False, of try_send] by blast
  then show ?thesis by (simp add: keeps_def)
qed

lemma keeps_live: "keeps fuel w w1 \<Longrightarrow> live fuel w \<Longrightarrow> attached hc w \<Longrightarrow> live fuel w1 \<and> attached hc w1"
  using keeps_attached by (auto simp: keeps_def)

text \<open>A check that is changed and then ended.\<close>

lemma end_check_after:
  assumes "keeps fuel w w1" "live fuel w" "attached hc w"
  shows "outcome {Exit 2} fuel w (end_check fuel try_send hc r w1)"
  using outcome_after [OF assms(1)] end_check_outcome keeps_live [OF assms] by blast

text \<open>
  The loops over all pools, the nodes of a pool and the checks of a node, for a relation \<open>R\<close> between
  the states before and after: what every iteration establishes holds of the whole loop.
\<close>

locale traversal =
  fixes R :: "'q world \<Rightarrow> 'q world \<Rightarrow> bool" and fuel :: nat
  assumes R_refl: "R w w"
    and R_trans: "R w1 w2 \<Longrightarrow> R w2 w3 \<Longrightarrow> R w1 w3"
    and R_keeps: "R w w' \<Longrightarrow> keeps fuel w w'"
begin

lemma over_checks:
  assumes live: "live fuel w" and n: "registered n w"
    and body: "\<And>hc w'. live fuel w' \<Longrightarrow> attached hc w' \<Longrightarrow> (case f hc w' of Inl e \<Rightarrow> e \<in> E | Inr w'' \<Rightarrow> R w' w'')"
  shows "case for_each f (healthchecks (get_node n w)) w of Inl e \<Rightarrow> e \<in> E | Inr w' \<Rightarrow> R w w'"
proof (rule for_each_rel)
  fix hc w' assume hc: "hc \<in> set (healthchecks (get_node n w))" and r: "R w w'"
  have "attached hc w" using hc live n by (simp add: attached_def live_def hcs_wf_def)
  then show "case f hc w' of Inl e \<Rightarrow> e \<in> E | Inr w'' \<Rightarrow> R w' w''"
    using keeps_live [OF R_keeps [OF r] live] by (intro body) simp_all
qed (auto intro: R_refl R_trans)

lemma over_nodes:
  assumes live: "live fuel w" and p: "(k, p) \<in> set (lb_pools w)"
    and body: "\<And>n w'. live fuel w' \<Longrightarrow> registered n w' \<Longrightarrow> (case f n w' of Inl e \<Rightarrow> e \<in> E | Inr w'' \<Rightarrow> R w' w'')"
  shows "case for_each f (nodes (get_pool p w)) w of Inl e \<Rightarrow> e \<in> E | Inr w' \<Rightarrow> R w w'"
proof (rule for_each_rel)
  fix n w' assume n: "n \<in> set (nodes (get_pool p w))" and r: "R w w'"
  have "world_wf w" using live by (simp add: live_def sound_def pools_inv_def)
  then have "registered n w" using world_wf_pool [OF _ p] n p by (simp add: registered_def Let_def)
  then show "case f n w' of Inl e \<Rightarrow> e \<in> E | Inr w'' \<Rightarrow> R w' w''"
    using R_keeps [OF r] live keeps_registered [OF R_keeps [OF r]] by (intro body) (simp_all add: keeps_def)
qed (auto intro: R_refl R_trans)

lemma over_pools:
  assumes live: "live fuel w"
    and body: "\<And>k p w'. live fuel w' \<Longrightarrow> (k, p) \<in> set (lb_pools w') \<Longrightarrow> (case f (k, p) w' of Inl e \<Rightarrow> e \<in> E | Inr w'' \<Rightarrow> R w' w'')"
  shows "case for_each f (lb_pools w) w of Inl e \<Rightarrow> e \<in> E | Inr w' \<Rightarrow> R w w'"
proof (rule for_each_rel)
  fix kp w' assume kp: "kp \<in> set (lb_pools w)" and r: "R w w'"
  obtain k p where "kp = (k, p)" by fastforce
  then show "case f kp w' of Inl e \<Rightarrow> e \<in> E | Inr w'' \<Rightarrow> R w' w''"
    using R_keeps [OF r] kp live body [of w' k p] by (simp add: keeps_def same_config_def)
qed (auto intro: R_refl R_trans)

text \<open>All checks of all pools.\<close>

lemma over_all_checks:
  assumes "live fuel w"
    and "\<And>hc w'. live fuel w' \<Longrightarrow> attached hc w' \<Longrightarrow> (case f hc w' of Inl e \<Rightarrow> e \<in> E | Inr w'' \<Rightarrow> R w' w'')"
  shows "case for_each (\<lambda>(k, p) w. for_each (\<lambda>n w. for_each f (healthchecks (get_node n w)) w) (nodes (get_pool p w)) w)
                (lb_pools w) w of Inl e \<Rightarrow> e \<in> E | Inr w' \<Rightarrow> R w w'"
proof (rule over_pools [OF assms(1)])
  fix k p and w1 :: "'q world" assume w1: "live fuel w1" "(k, p) \<in> set (lb_pools w1)"
  show "case (case (k, p) of (k, p) \<Rightarrow> \<lambda>w. for_each (\<lambda>n w. for_each f (healthchecks (get_node n w)) w) (nodes (get_pool p w)) w) w1 of
      Inl e \<Rightarrow> e \<in> E | Inr w' \<Rightarrow> R w1 w'"
    unfolding prod.case by (rule over_nodes [OF w1]) (rule over_checks [OF _ _ assms(2)])
qed

end

interpretation keeping: traversal "keeps fuel" fuel for fuel
  by unfold_locales (auto intro: keeps_trans)

text \<open>
  The interface of an operation of a health check type that the rest of the program relies on. An
  operation may change one health check and end it.
\<close>

locale hc_operation =
  fixes op :: "nat \<Rightarrow> ('q \<Rightarrow> pfctl_msg \<Rightarrow> bool \<times> 'q) \<Rightarrow> hc_id \<Rightarrow> 'q world \<Rightarrow> 'q world result"
    and E :: "error set"
  assumes op_outcome: "live fuel w \<Longrightarrow> attached hc w \<Longrightarrow> outcome E fuel w (op fuel try_send hc w)"
begin

lemma on_pools_outcome:
  assumes "live fuel w"
  shows "outcome E fuel w
     (for_each (\<lambda>(k, p) w. for_each (\<lambda>n w. for_each (op fuel try_send) (healthchecks (get_node n w)) w)
                             (nodes (get_pool p w)) w) (lb_pools w) w)"
  unfolding outcome_def
  by (rule keeping.over_all_checks [OF assms]) (rule op_outcome [unfolded outcome_def])

end

section \<open>What one check and one downtime change do\<close>

lemma end_check_node:
  assumes live: "live fuel w" and att: "attached hc w" and run: "end_check fuel try_send hc r w = Inr w'"
  defines "n \<equiv> parent_lbnode (get_hc hc w)"
  shows "checked (get_node n w')" "node_state (get_node n w') = (if all_passed n w' then NODE_UP else NODE_DOWN)"
    "hard_state (get_hc hc w') = hard_state (with_result (result_state r) (get_hc hc w))" "live fuel w'"
proof -
  let ?w = "upd_hc hc (with_result (result_state r)) w"
  have r: "r \<noteq> HC_PANIC" using run by (auto simp: end_check_eq)
  obtain w1 where w1: "end_check fuel try_send hc r w = Inr w1" "live fuel w1" "same_config w w1"
    "\<And>h. get_hc h w1 = (if h = hc then with_result (result_state r) (get_hc hc w) else get_hc h w)"
    using end_check_live [OF live att r, of try_send] by blast
  then have [simp]: "w1 = w'" using run by simp
  have nl: "node_logic fuel try_send n ?w = Inr w'" using run r by (simp add: end_check_eq n_def)
  have "hc \<in> set (healthchecks (get_node n w))" using att by (simp add: attached_def n_def)
  then have "\<exists>h \<in> set (healthchecks (get_node n ?w)). ran (get_hc h ?w)"
    by (intro bexI [of _ hc]) (simp_all add: with_result_def)
  then show c: "checked (get_node n w')" using node_logic_states(1) [OF nl] by blast
  have "all_passed n w' = all_passed n ?w"
    using w1(3,4) by (auto simp: all_passed_def same_config_def hc_store.get_upd)
  then show "node_state (get_node n w') = (if all_passed n w' then NODE_UP else NODE_DOWN)"
    using node_logic_states(2) [OF nl c] by simp
  show "hard_state (get_hc hc w') = hard_state (with_result (result_state r) (get_hc hc w))" "live fuel w'"
    using w1 by simp_all
qed

lemma change_downtime_admin:
  assumes "live fuel w" "registered n w"
  obtains w' where "change_downtime fuel try_send n s w = Inr w'" "live fuel w'" "same_config w w'"
    "admin_state (get_node n w') = admin_state_from_config s"
proof -
  obtain w' where w': "change_downtime fuel try_send n s w = Inr w'" "live fuel w'" "same_config w w'"
    using change_downtime_live [OF assms, of try_send s] by blast
  have "admin_state (get_node n w') = admin_state_from_config s"
  proof (cases "admin_state_from_config s = admin_state (get_node n w)")
    case True
    then show ?thesis using w'(1) by (simp add: change_downtime_eq)
  next
    case False
    then have "static_eq (upd_node n (downtime_change (admin_state_from_config s)) w) w'"
      using w'(1) pool_logic_static(1) by (fastforce simp: change_downtime_eq)
    from static_eqD(3) [OF this, of n] show ?thesis by simp
  qed
  with w' that show ?thesis by blast
qed

lemma end_check_verdict:
  assumes "live fuel w" "attached hc w"
  shows "case end_check fuel try_send hc r w of
           Inl e \<Rightarrow> e = Exit 2 \<and> r = HC_PANIC
         | Inr w' \<Rightarrow> r \<noteq> HC_PANIC \<and> live fuel w' \<and> \<not> is_running (get_hc hc w') \<and> last_state (get_hc hc w') = result_state r"
proof (cases "r = HC_PANIC")
  case True
  then show ?thesis by (simp add: end_check_eq)
next
  case False
  obtain w' where w': "end_check fuel try_send hc r w = Inr w'" "live fuel w'"
    "\<And>h. get_hc h w' = (if h = hc then with_result (result_state r) (get_hc hc w) else get_hc h w)"
    using end_check_live [OF assms False, of try_send] by blast
  then show ?thesis using False by (simp add: with_result_def)
qed

lemma result_state_up: "result_state r = HC_STATE_UP \<longleftrightarrow> r = HC_PASS"
  by (cases r) (simp_all add: result_state_def)

lemma end_check_passes:
  assumes "keeps fuel w w1" "live fuel w" "attached hc w" "end_check fuel try_send hc r w1 = Inr w'"
  shows "live fuel w' \<and> \<not> is_running (get_hc hc w') \<and> (last_state (get_hc hc w') = HC_STATE_UP \<longleftrightarrow> r = HC_PASS)"
  using end_check_verdict [where w = w1 and r = r and try_send = try_send, of fuel hc] keeps_live [OF assms(1-3)] assms(4) by (simp add: result_state_up)

lemma end_check_panics:
  assumes "keeps fuel w w1" "live fuel w" "attached hc w" "end_check fuel try_send hc r w1 = Inl e"
  shows "e = Exit 2 \<and> r = HC_PANIC"
  using end_check_verdict [where w = w1 and r = r and try_send = try_send, of fuel hc] keeps_live [OF assms(1-3)] assms(4) by simp

text \<open>The configured limits of the pools are never changed.\<close>

lemma node_logic_limits:
  assumes "node_logic fuel try_send n w = Inr w'"
  shows "max_nodes (get_pool q w') = max_nodes (get_pool q w)" "min_nodes (get_pool q w') = min_nodes (get_pool q w)"
  using assms by (cases rule: node_logic_cases; simp add: static_eq_pool [OF pool_logic_static(1)])+

lemma end_check_limits:
  assumes "end_check fuel try_send hc r w = Inr w'"
  shows "max_nodes (get_pool q w') = max_nodes (get_pool q w)" "min_nodes (get_pool q w') = min_nodes (get_pool q w)"
  using assms node_logic_limits [of fuel try_send _ _ w' q] by (auto simp: end_check_eq split: if_splits)

end
