(* ===== verification/Hc_Base.thy ===== *)
theory Hc_Base
  imports Node_Health
begin

text \<open>
  What the types of health checks share: the constructor of the base class (\<open>healthcheck.cpp\<close>),
  the start of a check on the object in the store, and the dummy type. What a constructor obtains
  from the system is an environment: the JSON library, the address \<open>operator new\<close> returns, the
  address family \<open>getaddrinfo\<close> finds, for each new health check the values of \<open>rand()\<close> and of the
  clock and the content of members the constructors leave uninitialised, and
  \<open>boost::algorithm::join\<close>.
\<close>

definition AF_INET :: int where "AF_INET = 2"

definition AF_INET6 :: int where "AF_INET6 = 28"

record 'j hc_env =
  lib :: "'j json_lib"
  new_addr :: "nat list \<Rightarrow> nat"
  numeric_family :: "string \<Rightarrow> int option"
  rand_value :: "hc_id \<Rightarrow> int"
  clock_value :: "hc_id \<Rightarrow> timespec"
  uninit_ptr :: "hc_id \<Rightarrow> bool"
  algorithm_join :: "string list \<Rightarrow> string \<Rightarrow> string"

text \<open>A constructor returns the new object or throws; both leave a changed store.\<close>

definition Healthcheck_ctor ::
    "('j, 'z) hc_env_scheme \<Rightarrow> 'j \<Rightarrow> node_id \<Rightarrow> string \<Rightarrow> 'q world \<Rightarrow> hc_id result \<times> 'q world" where
  "Healthcheck_ctor env config node ip w =
     (let hc = new_addr env (hc_dom w);
          w = w\<lparr>hc_dom := hc # hc_dom w\<rparr>;
          w = upd_hc hc (\<lambda>h. h\<lparr>hc_type := '''', log_prefix := '''', af_string := '''',
                               last_checked := clock_value env hc, parent_lbnode := node, hc_ip_address := ip\<rparr>) w;
          w = upd_node node (\<lambda>n. n\<lparr>healthchecks := healthchecks n @ [hc]\<rparr>) w
      in case numeric_family env (c_str ip) of
           None \<Rightarrow> (Inl (NotLbPoolException (''Unable to parse IP address '' @ [CHR 0x27] @ c_str ip @ [CHR 0x27])), w)
         | Some af \<Rightarrow>
             let max_failed = safe_get_int (lib env) config ''hc_max_failed'' 3;
                 tmp_timeout = safe_get_int (lib env) config ''hc_timeout'' 1500;
                 up = is_up (get_node node w)
             in (Inr hc,
                 upd_hc hc (\<lambda>h. h\<lparr>address_family := af,
                                 af_string := (if af = AF_INET then ''IPv4'' else if af = AF_INET6 then ''IPv6'' else af_string h),
                                 check_interval := safe_get_int (lib env) config ''hc_interval'' 2,
                                 max_failed_checks := max_failed,
                                 timeout := \<lparr>t_sec = tmp_timeout sdiv 1000, t_usec = (tmp_timeout smod 1000) * 1000\<rparr>,
                                 extra_delay := word_of_int (rand_value env hc smod 1000),
                                 is_running := False, ran := False,
                                 hard_state := (if up then HC_STATE_UP else HC_STATE_DOWN),
                                 last_state := (if up then HC_STATE_UP else HC_STATE_DOWN),
                                 failure_counter := (if up then 0 else word_of_int max_failed)\<rparr>) w))"

text \<open>A constructor of a derived class runs after the base constructor.\<close>

definition derived_ctor ::
    "('j, 'z) hc_env_scheme \<Rightarrow> ('j \<Rightarrow> hc_id \<Rightarrow> Healthcheck \<Rightarrow> Healthcheck result) \<Rightarrow> 'j \<Rightarrow> node_id \<Rightarrow> string \<Rightarrow> 'q world
     \<Rightarrow> hc_id result \<times> 'q world" where
  "derived_ctor env body config node ip w =
     (case Healthcheck_ctor env config node ip w of
        (Inl e, w) \<Rightarrow> (Inl e, w)
      | (Inr hc, w) \<Rightarrow>
          (case body config hc (get_hc hc w) of
             Inl e \<Rightarrow> (Inl e, w)
           | Inr h \<Rightarrow> (Inr hc, upd_hc hc (\<lambda>_. h) w)))"

text \<open>\<open>Healthcheck::schedule_healthcheck\<close> on an object of the store.\<close>

definition schedule_base :: "timespec \<Rightarrow> hc_id \<Rightarrow> 'q world \<Rightarrow> bool \<times> 'q world" where
  "schedule_base now hc w =
     (fst (schedule_healthcheck now (get_hc hc w)), upd_hc hc (\<lambda>h. snd (schedule_healthcheck now h)) w)"

text \<open>\<open>send\<close> and \<open>sendto\<close>: whether the datagram could be sent is not looked at any further.\<close>

definition send_packet :: "hc_id \<Rightarrow> string \<Rightarrow> 'q world \<Rightarrow> 'q world" where
  "send_packet hc bytes w = w\<lparr>sent_packets := sent_packets w @ [(hc, bytes)]\<rparr>"

definition finalize_base :: "hc_id \<Rightarrow> 'q world \<Rightarrow> 'q world result" where
  "finalize_base hc w = Inr w"

section \<open>The dummy health check\<close>

definition dummy_init :: "'j \<Rightarrow> hc_id \<Rightarrow> Healthcheck \<Rightarrow> Healthcheck result" where
  "dummy_init config hc h = Inr (h\<lparr>hc_type := ''dummy'', derived := Dummy\<rparr>)"

definition dummy_schedule_healthcheck ::
    "timespec \<Rightarrow> nat \<Rightarrow> ('q \<Rightarrow> pfctl_msg \<Rightarrow> bool \<times> 'q) \<Rightarrow> hc_id \<Rightarrow> 'q world \<Rightarrow> 'q world result" where
  "dummy_schedule_healthcheck now fuel try_send hc w = Inr (snd (schedule_base now hc w))"

definition dummy_callback ::
    "nat \<Rightarrow> ('q \<Rightarrow> pfctl_msg \<Rightarrow> bool \<times> 'q) \<Rightarrow> hc_id \<Rightarrow> 'q world \<Rightarrow> 'q world result" where
  "dummy_callback fuel try_send hc w = end_check fuel try_send hc HC_PANIC w"

definition dummy_end_check ::
    "HealthcheckResult \<Rightarrow> nat \<Rightarrow> ('q \<Rightarrow> pfctl_msg \<Rightarrow> bool \<times> 'q) \<Rightarrow> hc_id \<Rightarrow> 'q world \<Rightarrow> 'q world result" where
  "dummy_end_check result fuel try_send hc w = end_check fuel try_send hc result w"

section \<open>Starting a check\<close>

lemma schedule_healthcheck_fields [simp]:
  "hard_state (snd (schedule_healthcheck now h)) = hard_state h"
  "parent_lbnode (snd (schedule_healthcheck now h)) = parent_lbnode h"
  "derived (snd (schedule_healthcheck now h)) = derived h"
  "address_family (snd (schedule_healthcheck now h)) = address_family h"
  by (simp_all add: schedule_healthcheck_def)

lemma send_packet_keeps: "keeps fuel w (send_packet hc bytes w)"
  unfolding send_packet_def by (rule keeps_globals) simp_all

lemma send_packet_frame [simp]:
  "get_hc h (send_packet hc bytes w) = get_hc h w" "get_node n (send_packet hc bytes w) = get_node n w"
  "seq_map (send_packet hc bytes w) = seq_map w" "ping_id (send_packet hc bytes w) = ping_id w"
  "sent_packets (send_packet hc bytes w) = sent_packets w @ [(hc, bytes)]"
  by (simp_all add: send_packet_def get_hc_def get_node_def)

lemma schedule_base_keeps [simp]: "keeps fuel w (snd (schedule_base now hc w))"
  by (simp add: schedule_base_def keeps_upd_hc)

text \<open>An operation on a started check, as all types define their \<open>schedule_healthcheck\<close>.\<close>

lemma schedule_outcome:
  assumes "live fuel w" "attached hc w"
    and "\<And>w'. keeps fuel w w' \<Longrightarrow> live fuel w' \<Longrightarrow> attached hc w' \<Longrightarrow> outcome E fuel w' (body w')"
  shows "outcome E fuel w (case schedule_base now hc w of (ok, w') \<Rightarrow> if ok then body w' else Inr w')"
proof -
  let ?w' = "snd (schedule_base now hc w)"
  have k: "keeps fuel w ?w'" by simp
  then have "live fuel ?w'" "attached hc ?w'" using assms keeps_attached [OF k] by (simp_all add: keeps_def)
  then have "outcome E fuel w (body ?w')" using assms(3) [OF k] outcome_after [OF k] by blast
  then show ?thesis using k by (simp add: case_prod_beta)
qed

interpretation dummy_schedule: hc_operation "dummy_schedule_healthcheck now" "{}" for now
  by unfold_locales (simp add: dummy_schedule_healthcheck_def)

interpretation dummy_event: hc_operation dummy_callback "{Exit 2}"
  by unfold_locales (simp add: dummy_callback_def end_check_outcome)

end
