(* ===== verification/Hc_Tcp.thy ===== *)
theory Hc_Tcp
  imports Hc_Base
begin

text \<open>
  The TCP check (\<open>healthcheck_tcp.cpp\<close>). What libevent and the system answer while a check is
  started is an input: whether a bufferevent could be created, and whether the connection failed
  at once (a result of -1 with an error other than \<open>EINPROGRESS\<close>).
\<close>

unbundle bit_operations_syntax

section \<open>Event flags of a bufferevent\<close>

definition BEV_EVENT_EOF :: "16 word" where "BEV_EVENT_EOF = 0x10"

definition BEV_EVENT_ERROR :: "16 word" where "BEV_EVENT_ERROR = 0x20"

definition BEV_EVENT_TIMEOUT :: "16 word" where "BEV_EVENT_TIMEOUT = 0x40"

definition BEV_EVENT_CONNECTED :: "16 word" where "BEV_EVENT_CONNECTED = 0x80"

record bev_answer =
  bev_created :: bool
  bev_errno :: int
  connect_failed :: bool

section \<open>The operations\<close>

definition upd_tcp :: "(Healthcheck_tcp \<Rightarrow> Healthcheck_tcp) \<Rightarrow> Healthcheck \<Rightarrow> Healthcheck" where
  "upd_tcp f h = (case derived h of Tcp t \<Rightarrow> h\<lparr>derived := Tcp (f t)\<rparr> | _ \<Rightarrow> h)"

definition tcp_init :: "('j, 'z) hc_env_scheme \<Rightarrow> 'j \<Rightarrow> hc_id \<Rightarrow> Healthcheck \<Rightarrow> Healthcheck result" where
  "tcp_init env config hc h =
     (let port = safe_get_int (lib env) config ''hc_port'' 80
      in Inr (h\<lparr>hc_type := ''tcp'', log_prefix := ''port: '' @ decimal port,
                derived := Tcp \<lparr>tcp_bev = uninit_ptr env hc, tcp_port = port\<rparr>\<rparr>))"

definition tcp_end_check ::
    "HealthcheckResult \<Rightarrow> nat \<Rightarrow> ('q \<Rightarrow> pfctl_msg \<Rightarrow> bool \<times> 'q) \<Rightarrow> hc_id \<Rightarrow> 'q world \<Rightarrow> 'q world result" where
  "tcp_end_check result fuel try_send hc w =
     end_check fuel try_send hc result (upd_hc hc (upd_tcp (\<lambda>t. t\<lparr>tcp_bev := False\<rparr>)) w)"

definition tcp_result :: "16 word \<Rightarrow> HealthcheckResult" where
  "tcp_result events =
     (let result = HC_PANIC;
          result = (if events AND BEV_EVENT_CONNECTED \<noteq> 0 then HC_PASS else result);
          result = (if events AND BEV_EVENT_ERROR \<noteq> 0 then HC_FAIL else result)
      in if events AND BEV_EVENT_TIMEOUT \<noteq> 0 then HC_FAIL else result)"

definition tcp_event_callback ::
    "16 word \<Rightarrow> nat \<Rightarrow> ('q \<Rightarrow> pfctl_msg \<Rightarrow> bool \<times> 'q) \<Rightarrow> hc_id \<Rightarrow> 'q world \<Rightarrow> 'q world result" where
  "tcp_event_callback events fuel try_send hc w = tcp_end_check (tcp_result events) fuel try_send hc w"

definition tcp_schedule_healthcheck ::
    "(hc_id \<Rightarrow> bev_answer) \<Rightarrow> timespec \<Rightarrow> nat \<Rightarrow> ('q \<Rightarrow> pfctl_msg \<Rightarrow> bool \<times> 'q) \<Rightarrow> hc_id \<Rightarrow> 'q world \<Rightarrow> 'q world result" where
  "tcp_schedule_healthcheck ans now fuel try_send hc w =
     (case schedule_base now hc w of (ok, w) \<Rightarrow>
        if ok then
          let w = upd_hc hc (upd_tcp (\<lambda>t. t\<lparr>tcp_bev := bev_created (ans hc)\<rparr>)) w in
          if \<not> bev_created (ans hc) then Inl (HealthcheckSchedulingException (''bufferevent_socket_new errno '' @ decimal (bev_errno (ans hc))))
          else if \<not> (address_family (get_hc hc w) = AF_INET \<or> address_family (get_hc hc w) = AF_INET6)
          then Inl (HealthcheckSchedulingException (''Wrong address family: '' @ decimal (address_family (get_hc hc w))))
          else if connect_failed (ans hc) then tcp_end_check HC_FAIL fuel try_send hc w
          else Inr w
        else Inr w)"

section \<open>What the operations do\<close>

text \<open>Errors by which a check may end the program deliberately.\<close>

definition fatal :: "error set" where
  "fatal = insert (Exit 2) (range HealthcheckSchedulingException)"

lemma upd_tcp_fields [simp]:
  "hard_state (upd_tcp f h) = hard_state h" "parent_lbnode (upd_tcp f h) = parent_lbnode h"
  "address_family (upd_tcp f h) = address_family h" "is_running (upd_tcp f h) = is_running h"
  by (simp_all add: upd_tcp_def split: derived.split)

lemma tcp_end_check_outcome:
  assumes "live fuel w" "attached hc w"
  shows "outcome {Exit 2} fuel w (tcp_end_check r fuel try_send hc w)"
  unfolding tcp_end_check_def by (intro end_check_after assms keeps_upd_hc) simp_all

interpretation tcp_event: hc_operation "tcp_event_callback events" "{Exit 2}" for events
  by unfold_locales (simp add: tcp_event_callback_def tcp_end_check_outcome)

lemma tcp_schedule_outcome:
  fixes w :: "'a world"
  assumes "live fuel w" "attached hc w"
  shows "outcome fatal fuel w (tcp_schedule_healthcheck ans now fuel try_send hc w)"
  unfolding tcp_schedule_healthcheck_def
proof (rule schedule_outcome [OF assms])
  fix w1 :: "'a world" assume w1: "live fuel w1" "attached hc w1"
  let ?w = "upd_hc hc (upd_tcp (\<lambda>t. t\<lparr>tcp_bev := bev_created (ans hc)\<rparr>)) w1"
  have k: "keeps fuel w1 ?w" by (rule keeps_upd_hc) simp_all
  have "outcome fatal fuel w1 (tcp_end_check HC_FAIL fuel try_send hc ?w)"
    using outcome_after [OF k outcome_mono [OF tcp_end_check_outcome]] keeps_live [OF k w1] by (simp add: fatal_def)
  then show "outcome fatal fuel w1
     (let w = ?w in
      if \<not> bev_created (ans hc) then Inl (HealthcheckSchedulingException (''bufferevent_socket_new errno '' @ decimal (bev_errno (ans hc))))
      else if \<not> (address_family (get_hc hc w) = AF_INET \<or> address_family (get_hc hc w) = AF_INET6)
      then Inl (HealthcheckSchedulingException (''Wrong address family: '' @ decimal (address_family (get_hc hc w))))
      else if connect_failed (ans hc) then tcp_end_check HC_FAIL fuel try_send hc w else Inr w)"
    using k by (auto simp: Let_def fatal_def)
qed

interpretation tcp_schedule: hc_operation "tcp_schedule_healthcheck ans now" fatal for ans now
  by unfold_locales (rule tcp_schedule_outcome)

text \<open>The verdict of an event: only a connection without error or timeout passes.\<close>

lemma tcp_result_pass:
  "tcp_result ev = HC_PASS \<longleftrightarrow>
     ev AND BEV_EVENT_CONNECTED \<noteq> 0 \<and> ev AND BEV_EVENT_ERROR = 0 \<and> ev AND BEV_EVENT_TIMEOUT = 0"
  by (simp add: tcp_result_def)

lemma tcp_result_panic:
  "tcp_result ev = HC_PANIC \<longleftrightarrow>
     ev AND BEV_EVENT_CONNECTED = 0 \<and> ev AND BEV_EVENT_ERROR = 0 \<and> ev AND BEV_EVENT_TIMEOUT = 0"
  by (simp add: tcp_result_def)

lemma tcp_result_no_drain: "tcp_result ev \<noteq> HC_DRAIN"
  by (simp add: tcp_result_def Let_def)

end
