(* ===== verification/Hc_Http.thy ===== *)
theory Hc_Http
  imports Hc_Tcp
begin

text \<open>
  The HTTP and HTTPS checks (\<open>healthcheck_http.cpp\<close>): building the request, collecting the reply,
  and the verdict on the status code. The string functions of boost are fields of an environment.
\<close>

section \<open>The operations\<close>

record boost_strings =
  replace_all :: "string \<Rightarrow> string \<Rightarrow> string \<Rightarrow> string"
  join :: "string list \<Rightarrow> string \<Rightarrow> string"

definition HC_UA :: string where "HC_UA = ''testtool''"

definition CRLF :: string where "CRLF = [CHR 0x0D, CHR 0x0A]"

definition upd_http :: "(Healthcheck_http \<Rightarrow> Healthcheck_http) \<Rightarrow> Healthcheck \<Rightarrow> Healthcheck" where
  "upd_http f h =
     (case derived h of Http t \<Rightarrow> h\<lparr>derived := Http (f t)\<rparr> | Https t \<Rightarrow> h\<lparr>derived := Https (f t)\<rparr> | _ \<Rightarrow> h)"

definition get_http :: "Healthcheck \<Rightarrow> Healthcheck_http option" where
  "get_http h = (case derived h of Http t \<Rightarrow> Some t | Https t \<Rightarrow> Some t | _ \<Rightarrow> None)"

text \<open>The members the constructor of \<open>Healthcheck_http\<close> sets; \<open>Healthcheck_https\<close> adds none.\<close>

definition http_members :: "('j, 'z) hc_env_scheme \<Rightarrow> 'j \<Rightarrow> Healthcheck \<Rightarrow> string \<Rightarrow> Healthcheck_http" where
  "http_members env config h type =
     (let port = (if type = ''https'' then safe_get_int (lib env) config ''hc_port'' 443
                  else safe_get_int (lib env) config ''hc_port'' 80);
          host = safe_get_string (lib env) config ''hc_host'' '''';
          oks = map decimal (safe_get_ints (lib env) config ''hc_ok_codes'' [200])
      in \<lparr>http_bev = False, http_output = [],
          http_query = safe_get_string (lib env) config ''hc_query'' ''HEAD /'',
          http_host =
            (if host = '''' \<and> address_family h = AF_INET then hc_ip_address h
             else if host = '''' \<and> address_family h = AF_INET6 then ''['' @ hc_ip_address h @ '']''
             else host),
          http_port = port,
          ok_codes = (if oks = [] then [decimal 200] else oks),
          drain_codes = map decimal (safe_get_ints (lib env) config ''hc_drain_codes'' []),
          http_reply = ''''\<rparr>)"

definition http_log_prefix :: "('j, 'z) hc_env_scheme \<Rightarrow> Healthcheck_http \<Rightarrow> string" where
  "http_log_prefix env t =
     ''query: '' @ quoted (http_query t) @ '' port: '' @ decimal (http_port t) @
     '' ok_codes: '' @ algorithm_join env (ok_codes t) '','' @ '' drain_codes: '' @ algorithm_join env (drain_codes t) '',''"

definition http_init :: "('j, 'z) hc_env_scheme \<Rightarrow> 'j \<Rightarrow> hc_id \<Rightarrow> Healthcheck \<Rightarrow> Healthcheck result" where
  "http_init env config hc h =
     (let type = safe_get_string (lib env) config ''hc_type'' ''http'';
          t = http_members env config h type
      in Inr (h\<lparr>hc_type := type, log_prefix := http_log_prefix env t, derived := Http t\<rparr>))"

definition https_init :: "('j, 'z) hc_env_scheme \<Rightarrow> 'j \<Rightarrow> hc_id \<Rightarrow> Healthcheck \<Rightarrow> Healthcheck result" where
  "https_init env config hc h =
     (let type = safe_get_string (lib env) config ''hc_type'' ''http'';
          t = http_members env config h type
      in Inr (h\<lparr>hc_type := type, log_prefix := http_log_prefix env t, derived := Https t\<rparr>))"

definition up_nodes_addresses :: "pool_id \<Rightarrow> 'q world \<Rightarrow> string list" where
  "up_nodes_addresses p w =
     concat (map (\<lambda>n. (if node_ipv4_address (get_node n w) \<noteq> '''' then [node_ipv4_address (get_node n w)] else []) @
                      (if node_ipv6_address (get_node n w) \<noteq> '''' then [node_ipv6_address (get_node n w)] else []))
                 (get_up_nodes p w))"

definition parse_query_template :: "boost_strings \<Rightarrow> hc_id \<Rightarrow> string \<Rightarrow> 'q world \<Rightarrow> string" where
  "parse_query_template bs hc query w =
     (let h = get_hc hc w; n = get_node (parent_lbnode h) w; p = parent_lbpool n; pl = get_pool p w;
          q = replace_all bs query ''{POOL_NAME}'' (pool_name pl);
          q = (if address_family h = AF_INET then replace_all bs q ''{POOL_ADDRESS}'' (pool_ipv4_address pl)
               else replace_all bs q ''{POOL_ADDRESS}'' (pool_ipv6_address pl));
          q = replace_all bs q ''{NODE_NAME}'' (node_name n);
          q = replace_all bs q ''{NODE_ADDRESS}'' (hc_ip_address h);
          q = replace_all bs q ''{ACTIVE_NODES_NAMES}'' (join bs (get_up_nodes_names p w) '','')
      in replace_all bs q ''{ACTIVE_NODES_ADDRESSES}'' (join bs (up_nodes_addresses p w) '',''))"

text \<open>The text \<open>evbuffer_add_printf\<close> puts into the output buffer.\<close>

definition http_request :: "string \<Rightarrow> string \<Rightarrow> string" where
  "http_request query host =
     c_str query @ '' HTTP/1.1'' @ CRLF @ ''Host: '' @ c_str host @ CRLF @ ''User-Agent: '' @ HC_UA @ CRLF @
     ''Connection: close'' @ CRLF @ CRLF"

text \<open>
  The body of \<open>schedule_healthcheck\<close>, the same for both classes but for the kind of bufferevent:
  the object it is called on has the members \<open>t\<close>.
\<close>

definition http_schedule_healthcheck ::
    "boost_strings \<Rightarrow> (hc_id \<Rightarrow> bev_answer) \<Rightarrow> timespec \<Rightarrow> nat \<Rightarrow> ('q \<Rightarrow> pfctl_msg \<Rightarrow> bool \<times> 'q) \<Rightarrow> hc_id \<Rightarrow> 'q world
     \<Rightarrow> 'q world result" where
  "http_schedule_healthcheck bs ans now fuel try_send hc w =
     (case schedule_base now hc w of (ok, w) \<Rightarrow>
        if ok then
          let w = upd_hc hc (upd_http (\<lambda>t. t\<lparr>http_reply := '''', http_bev := bev_created (ans hc)\<rparr>)) w in
          if \<not> bev_created (ans hc) then Inl (HealthcheckSchedulingException (''bufferevent_socket_new errno '' @ decimal (bev_errno (ans hc))))
          else Inr (upd_hc hc (upd_http (\<lambda>t. t\<lparr>http_output :=
                      http_request (parse_query_template bs hc (http_query t) w) (http_host t)\<rparr>)) w)
        else Inr w)"

text \<open>
  \<open>read_callback\<close>: the third argument of \<open>evbuffer_remove\<close> is \<open>sizeof(buf) > 0\<close>, so one byte is
  taken at a time and appended as a C string.
\<close>

fun read_bytes :: "string \<Rightarrow> string \<Rightarrow> string" where
  "read_bytes [] reply = reply"
| "read_bytes (b # input) reply = read_bytes input (reply @ c_str [b])"

definition http_read_callback ::
    "string \<Rightarrow> nat \<Rightarrow> ('q \<Rightarrow> pfctl_msg \<Rightarrow> bool \<times> 'q) \<Rightarrow> hc_id \<Rightarrow> 'q world \<Rightarrow> 'q world result" where
  "http_read_callback input fuel try_send hc w =
     Inr (upd_hc hc (upd_http (\<lambda>t. t\<lparr>http_reply := read_bytes input (http_reply t)\<rparr>)) w)"

text \<open>\<open>string::find\<close> of a character, as an \<open>int\<close> that is -1 when it is not found.\<close>

fun find_char :: "char \<Rightarrow> string \<Rightarrow> int" where
  "find_char c [] = -1"
| "find_char c (x # s) = (if x = c then 0 else let i = find_char c s in if i = -1 then -1 else i + 1)"

definition status_code :: "string \<Rightarrow> string" where
  "status_code reply =
     (let statusline = takeWhile (\<lambda>c. c \<noteq> CHR 0x0A) reply;
          pos = find_char (CHR '' '') statusline;
          statusline = drop (nat (pos + 1)) statusline;
          pos = find_char (CHR '' '') statusline
      in if pos = -1 then statusline else take (nat pos) statusline)"

definition http_result :: "16 word \<Rightarrow> Healthcheck_http \<Rightarrow> HealthcheckResult option" where
  "http_result events t =
     (if events AND (BEV_EVENT_ERROR OR BEV_EVENT_TIMEOUT OR BEV_EVENT_EOF) = 0 then None
      else if events AND BEV_EVENT_TIMEOUT \<noteq> 0 then Some HC_FAIL
      else if events AND BEV_EVENT_ERROR \<noteq> 0 then Some HC_FAIL
      else let code = status_code (http_reply t) in
           if list_ex (\<lambda>drain_code. code = drain_code) (drain_codes t) then Some HC_DRAIN
           else if list_ex (\<lambda>ok_code. code = ok_code) (ok_codes t) then Some HC_PASS
           else Some HC_FAIL)"

definition http_end_check ::
    "HealthcheckResult \<Rightarrow> nat \<Rightarrow> ('q \<Rightarrow> pfctl_msg \<Rightarrow> bool \<times> 'q) \<Rightarrow> hc_id \<Rightarrow> 'q world \<Rightarrow> 'q world result" where
  "http_end_check result fuel try_send hc w =
     end_check fuel try_send hc result (upd_hc hc (upd_http (\<lambda>t. t\<lparr>http_bev := False\<rparr>)) w)"

definition http_event_callback ::
    "16 word \<Rightarrow> nat \<Rightarrow> ('q \<Rightarrow> pfctl_msg \<Rightarrow> bool \<times> 'q) \<Rightarrow> hc_id \<Rightarrow> 'q world \<Rightarrow> 'q world result" where
  "http_event_callback events fuel try_send hc w =
     (case get_http (get_hc hc w) of
        None \<Rightarrow> Inr w
      | Some t \<Rightarrow>
          (case http_result events t of
             None \<Rightarrow> Inr w
           | Some result \<Rightarrow> http_end_check result fuel try_send hc w))"

section \<open>What the operations keep\<close>

lemma upd_http_fields [simp]:
  "hard_state (upd_http f h) = hard_state h" "parent_lbnode (upd_http f h) = parent_lbnode h"
  "is_running (upd_http f h) = is_running h" "address_family (upd_http f h) = address_family h"
  by (simp_all add: upd_http_def split: derived.split)

lemma http_end_check_outcome:
  assumes "live fuel w" "attached hc w"
  shows "outcome {Exit 2} fuel w (http_end_check r fuel try_send hc w)"
  unfolding http_end_check_def by (intro end_check_after assms keeps_upd_hc) simp_all

interpretation http_event: hc_operation "http_event_callback events" "{Exit 2}" for events
  by unfold_locales (simp add: http_event_callback_def http_end_check_outcome split: option.split)

interpretation http_read: hc_operation "http_read_callback input" "{}" for input
  by unfold_locales (simp add: http_read_callback_def keeps_upd_hc)

interpretation http_schedule: hc_operation "http_schedule_healthcheck bs ans now" fatal for bs ans now
proof
  fix fuel :: nat and w :: "'a world" and hc try_send
  assume w: "live fuel w" "attached hc w"
  show "outcome fatal fuel w (http_schedule_healthcheck bs ans now fuel try_send hc w)"
    unfolding http_schedule_healthcheck_def
  proof (rule schedule_outcome [OF w])
    fix w1 :: "'a world"
    have "keeps fuel w1 (upd_hc hc (upd_http g) (upd_hc hc (upd_http f) w1))" for f g
      by (rule keeps_trans [OF keeps_upd_hc keeps_upd_hc]) simp_all
    then show "outcome fatal fuel w1
       (let w = upd_hc hc (upd_http (\<lambda>t. t\<lparr>http_reply := '''', http_bev := bev_created (ans hc)\<rparr>)) w1 in
        if \<not> bev_created (ans hc) then Inl (HealthcheckSchedulingException (''bufferevent_socket_new errno '' @ decimal (bev_errno (ans hc))))
        else Inr (upd_hc hc (upd_http (\<lambda>t. t\<lparr>http_output :=
                    http_request (parse_query_template bs hc (http_query t) w) (http_host t)\<rparr>)) w))"
      by (simp add: Let_def fatal_def)
  qed
qed

section \<open>The reply\<close>

text \<open>The reply is the input with the zero bytes left out, however it is split into reads.\<close>

lemma read_bytes_eq: "read_bytes input reply = reply @ filter (\<lambda>c. c \<noteq> NUL) input"
  by (induction input reply rule: read_bytes.induct) (auto simp: c_str_def)

lemma find_char_none: "c \<notin> set s \<Longrightarrow> find_char c s = -1"
  by (induction s) auto

lemma find_char_append: "c \<notin> set a \<Longrightarrow> find_char c (a @ c # b) = int (length a)"
  by (induction a) (auto simp: Let_def)

lemma first_line: "CHR 0x0A \<notin> set l \<Longrightarrow> takeWhile (\<lambda>c. c \<noteq> CHR 0x0A) (l @ CHR 0x0A # s) = l"
  by (induction l) auto

text \<open>A status line with a version, a code and more text yields the code.\<close>

lemma status_code_parse:
  assumes "CHR '' '' \<notin> set version" "CHR '' '' \<notin> set code"
    "CHR 0x0A \<notin> set version" "CHR 0x0A \<notin> set code" "CHR 0x0A \<notin> set reason"
  shows "status_code (version @ '' '' @ code @ '' '' @ reason @ CHR 0x0A # rest) = code"
proof -
  let ?line = "version @ CHR '' '' # code @ CHR '' '' # reason"
  have "takeWhile (\<lambda>c. c \<noteq> CHR 0x0A) (?line @ CHR 0x0A # rest) = ?line"
    using assms by (intro first_line) simp
  moreover have "find_char (CHR '' '') ?line = int (length version)"
    using find_char_append [OF assms(1)] by simp
  moreover have "drop (nat (int (length version) + 1)) ?line = code @ CHR '' '' # reason"
    by (simp add: nat_add_distrib)
  ultimately show ?thesis
    using find_char_append [OF assms(2), of reason] by (simp add: status_code_def)
qed

text \<open>A reply whose first line has no space is taken as the code as a whole.\<close>

lemma status_code_no_space:
  assumes "CHR '' '' \<notin> set reply" "CHR 0x0A \<notin> set reply"
  shows "status_code reply = reply"
proof -
  have "takeWhile (\<lambda>c. c \<noteq> CHR 0x0A) reply = reply" using assms(2) by (induction reply) auto
  then show ?thesis using find_char_none [OF assms(1)] by (simp add: status_code_def del: takeWhile_eq_all_conv)
qed

text \<open>With no reason phrase the code keeps the carriage return.\<close>

lemma status_code_no_reason:
  assumes "CHR '' '' \<notin> set version" "CHR '' '' \<notin> set code" "CHR 0x0A \<notin> set version" "CHR 0x0A \<notin> set code"
  shows "status_code (version @ '' '' @ code @ CHR 0x0D # CHR 0x0A # rest) = code @ [CHR 0x0D]"
proof -
  let ?line = "version @ CHR '' '' # code @ [CHR 0x0D]"
  have "takeWhile (\<lambda>c. c \<noteq> CHR 0x0A) (?line @ CHR 0x0A # rest) = ?line"
    using assms by (intro first_line) simp
  moreover have "find_char (CHR '' '') ?line = int (length version)"
    using find_char_append [OF assms(1)] by simp
  moreover have "drop (nat (int (length version) + 1)) ?line = code @ [CHR 0x0D]"
    by (simp add: nat_add_distrib)
  moreover have "find_char (CHR '' '') (code @ [CHR 0x0D]) = -1"
    using assms(2) by (intro find_char_none) simp
  ultimately show ?thesis by (simp add: status_code_def)
qed

text \<open>The verdict, once the connection was closed by the peer.\<close>

lemma http_result_eof:
  assumes "ev AND BEV_EVENT_EOF \<noteq> 0" "ev AND BEV_EVENT_TIMEOUT = 0" "ev AND BEV_EVENT_ERROR = 0"
  shows "http_result ev t =
     Some (if status_code (http_reply t) \<in> set (drain_codes t) then HC_DRAIN
           else if status_code (http_reply t) \<in> set (ok_codes t) then HC_PASS else HC_FAIL)"
proof -
  have "ev AND (BEV_EVENT_ERROR OR BEV_EVENT_TIMEOUT OR BEV_EVENT_EOF) \<noteq> 0"
    using assms by (simp add: bit.conj_disj_distrib)
  then show ?thesis using assms by (auto simp: http_result_def Let_def list_ex_iff)
qed

lemma http_result_never_panics: "http_result ev t \<noteq> Some HC_PANIC"
  by (simp add: http_result_def Let_def)

lemma upd_http_http [simp]: "upd_http f (upd_http g h) = upd_http (f \<circ> g) h"
  by (simp add: upd_http_def split: derived.split)

lemma get_upd_http [simp]: "get_http (upd_http f h) = map_option f (get_http h)"
  by (simp add: upd_http_def get_http_def split: derived.split)

text \<open>Reading the reply in pieces.\<close>

lemma read_chunks:
  "for_each (\<lambda>c. http_read_callback c fuel try_send hc) chunks w =
     Inr (upd_hc hc (upd_http (\<lambda>t. t\<lparr>http_reply := http_reply t @ filter (\<lambda>c. c \<noteq> NUL) (concat chunks)\<rparr>)) w)"
proof (induction chunks arbitrary: w)
  case Nil
  have "upd_http (\<lambda>t. t) h = h" for h by (simp add: upd_http_def split: derived.split)
  then have "upd_http (\<lambda>t. t\<lparr>http_reply := http_reply t\<rparr>) = (\<lambda>h. h)" by (simp add: fun_eq_iff)
  then show ?case by (simp add: upd_hc_def)
next
  case (Cons c chunks)
  then show ?case by (simp add: http_read_callback_def read_bytes_eq comp_def hc_store.upd_upd)
qed

section \<open>The request\<close>

text \<open>
  What is relied on of \<open>boost::replace_all\<close>: a text without the first character of what is to be
  replaced is left as it is.
\<close>

definition replace_contract :: "boost_strings \<Rightarrow> bool" where
  "replace_contract bs \<longleftrightarrow> (\<forall>q a b. a \<noteq> [] \<and> hd a \<notin> set q \<longrightarrow> replace_all bs q a b = q)"

lemma parse_plain_query:
  assumes "replace_contract bs" "CHR ''{'' \<notin> set query"
  shows "parse_query_template bs hc query w = query"
  using assms by (simp add: parse_query_template_def Let_def replace_contract_def)

lemma http_started:
  assumes t: "get_http (get_hc hc w) = Some t" and start: "fst (schedule_healthcheck now (get_hc hc w))" and bev: "bev_created (ans hc)"
    and plain: "replace_contract bs" "CHR ''{'' \<notin> set (http_query t)"
  obtains w' where "http_schedule_healthcheck bs ans now fuel try_send hc w = Inr w'" "is_running (get_hc hc w')"
    "get_http (get_hc hc w') = Some (t\<lparr>http_reply := '''', http_bev := True, http_output := http_request (http_query t) (http_host t)\<rparr>)"
proof -
  define w1 where "w1 = upd_hc hc (\<lambda>h. snd (schedule_healthcheck now h)) w"
  define w2 where "w2 = upd_hc hc (upd_http (\<lambda>t. t\<lparr>http_reply := '''', http_bev := bev_created (ans hc)\<rparr>)) w1"
  define w3 where "w3 = upd_hc hc (upd_http (\<lambda>t. t\<lparr>http_output :=
                      http_request (parse_query_template bs hc (http_query t) w2) (http_host t)\<rparr>)) w2"
  have h1: "get_hc hc w1 = (get_hc hc w)\<lparr>last_checked := now, is_running := True\<rparr>"
    using schedule_healthcheck_True [OF start] by (simp add: w1_def)
  have "get_http (get_hc hc w1) = Some t" using t by (simp add: h1 get_http_def)
  then have "get_http (get_hc hc w3) = Some (t\<lparr>http_reply := '''', http_bev := True, http_output := http_request (http_query t) (http_host t)\<rparr>)"
    using bev by (simp add: w3_def w2_def parse_plain_query [OF plain])
  moreover have "http_schedule_healthcheck bs ans now fuel try_send hc w = Inr w3"
    using start bev unfolding http_schedule_healthcheck_def schedule_base_def Let_def prod.case
      w1_def [symmetric] w2_def [symmetric] w3_def [symmetric] by simp
  moreover have "is_running (get_hc hc w3)" by (simp add: w3_def w2_def h1)
  ultimately show ?thesis using that by blast
qed

end
