(* ===== verification/Hc_Dns.thy ===== *)
theory Hc_Dns
  imports Hc_Tcp
begin

text \<open>
  The DNS check (\<open>healthcheck_dns.cpp\<close>): the query packet, with the question section built in place
  in a fixed buffer, and the verdict on the answer. Bytes are characters.
\<close>

section \<open>The packet\<close>

definition DNS_BUFFER_SIZE :: nat where "DNS_BUFFER_SIZE = 512"

text \<open>\<open>sizeof(struct dns_header)\<close>.\<close>

definition DNS_HEADER_SIZE :: nat where "DNS_HEADER_SIZE = 12"

definition EV_TIMEOUT :: "16 word" where "EV_TIMEOUT = 0x01"

definition EV_READ :: "16 word" where "EV_READ = 0x02"

definition EV_WRITE :: "16 word" where "EV_WRITE = 0x04"

text \<open>The loop that replaces the dots by the lengths of the labels that follow them.\<close>

function label_loop :: "nat \<Rightarrow> nat \<Rightarrow> nat \<Rightarrow> nat \<Rightarrow> string \<Rightarrow> string" where
  "label_loop i origlen label_start label_len buf =
     (if i < origlen + 2 then
        if i = origlen + 1 \<or> buf ! i = CHR ''.''
        then label_loop (i + 1) origlen i 0 (buf[label_start := char_of label_len])
        else label_loop (i + 1) origlen label_start (label_len + 1) buf
      else buf)"
  by pat_completeness auto
termination
  by (relation "measure (\<lambda>(i, origlen, _). origlen + 2 - i)") auto

declare label_loop.simps [simp del]

text \<open>\<open>strcpy(dst + off, s)\<close> into a buffer that holds \<open>buf\<close>.\<close>

definition strcpy_at :: "nat \<Rightarrow> string \<Rightarrow> string \<Rightarrow> string" where
  "strcpy_at off s buf = take off buf @ c_str s @ [NUL] @ drop (off + length (c_str s) + 1) buf"

definition build_dns_question :: "string \<Rightarrow> string \<Rightarrow> (nat \<times> string) result" where
  "build_dns_question query question_buffer =
     (let origlen = length (c_str query) in
      if length question_buffer < origlen + 5 then Inl Buffer_Overflow
      else let buf = strcpy_at 1 query question_buffer;
               buf = label_loop 1 origlen 0 0 buf;
               buf = buf[origlen + 2 := char_of (1 :: nat)];
               buf = buf[origlen + 4 := char_of (1 :: nat)]
           in Inr (origlen + 5, buf))"

text \<open>The header on the wire: the fields are stored in network order, \<open>rd\<close> is the lowest bit of the flags.\<close>

definition be16 :: "16 word \<Rightarrow> string" where
  "be16 x = [char_of (unat x div 256), char_of (unat x mod 256)]"

definition dns_header_bytes :: "16 word \<Rightarrow> string" where
  "dns_header_bytes qid = be16 qid @ [char_of (1 :: nat), NUL] @ be16 1 @ be16 0 @ be16 0 @ be16 0"

definition dns_packet :: "16 word \<Rightarrow> string \<Rightarrow> string result" where
  "dns_packet qid query =
     bind_result (build_dns_question query (replicate (DNS_BUFFER_SIZE - DNS_HEADER_SIZE) NUL))
       (\<lambda>(question_length, question).
          Inr (take (DNS_HEADER_SIZE + question_length) (dns_header_bytes qid @ question)))"

section \<open>The operations\<close>

definition upd_dns :: "(Healthcheck_dns \<Rightarrow> Healthcheck_dns) \<Rightarrow> Healthcheck \<Rightarrow> Healthcheck" where
  "upd_dns f h = (case derived h of Dns t \<Rightarrow> h\<lparr>derived := Dns (f t)\<rparr> | _ \<Rightarrow> h)"

definition get_dns :: "Healthcheck \<Rightarrow> Healthcheck_dns option" where
  "get_dns h = (case derived h of Dns t \<Rightarrow> Some t | _ \<Rightarrow> None)"

text \<open>\<open>my_transaction_id\<close> is not initialised; it is not read before the check was started.\<close>

definition dns_init :: "('j, 'z) hc_env_scheme \<Rightarrow> 'j \<Rightarrow> hc_id \<Rightarrow> Healthcheck \<Rightarrow> Healthcheck result" where
  "dns_init env config hc h =
     (let port = safe_get_int (lib env) config ''hc_port'' 53;
          query = safe_get_string (lib env) config ''hc_query'' ''.''
      in if query = '''' then Inl Out_Of_Range
         else let query = (if last query \<noteq> CHR ''.'' then query @ ''.'' else query)
              in Inr (h\<lparr>hc_type := ''dns'', log_prefix := ''query: '' @ quoted query @ '' port: '' @ decimal port,
                        derived := Dns \<lparr>dns_port = port, dns_query = query, dns_ev = uninit_ptr env hc,
                                        my_transaction_id = 0\<rparr>\<rparr>))"

record socket_answer =
  socket_created :: bool

definition dns_schedule_healthcheck ::
    "(hc_id \<Rightarrow> socket_answer) \<Rightarrow> timespec \<Rightarrow> nat \<Rightarrow> ('q \<Rightarrow> pfctl_msg \<Rightarrow> bool \<times> 'q) \<Rightarrow> hc_id \<Rightarrow> 'q world \<Rightarrow> 'q world result" where
  "dns_schedule_healthcheck ans now fuel try_send hc w =
     (case schedule_base now hc w of (ok, w) \<Rightarrow>
        if ok then
          let w = w\<lparr>global_transaction_id := global_transaction_id w + 1\<rparr>;
              w = upd_hc hc (upd_dns (\<lambda>t. t\<lparr>my_transaction_id := global_transaction_id w\<rparr>)) w
          in case get_dns (get_hc hc w) of
               None \<Rightarrow> Inr w
             | Some t \<Rightarrow>
                 bind_result (dns_packet (my_transaction_id t) (dns_query t))
                   (\<lambda>packet.
                      if \<not> (address_family (get_hc hc w) = AF_INET \<or> address_family (get_hc hc w) = AF_INET6) then Inr w
                      else if \<not> socket_created (ans hc) then Inr w
                      else Inr (send_packet hc packet (upd_hc hc (upd_dns (\<lambda>t. t\<lparr>dns_ev := True\<rparr>)) w)))
        else Inr w)"

text \<open>\<open>ntohs\<close> of the two bytes at an offset of the receive buffer, which was filled with zeros.\<close>

definition byte_at :: "string \<Rightarrow> nat \<Rightarrow> nat" where
  "byte_at bytes i = (if i < length bytes then of_char (bytes ! i) else 0)"

definition ntohs_at :: "string \<Rightarrow> nat \<Rightarrow> nat" where
  "ntohs_at bytes i = byte_at bytes i * 256 + byte_at bytes (i + 1)"

text \<open>\<open>recv\<close> returns -1 (\<open>None\<close>) or the bytes it received.\<close>

definition dns_result :: "16 word \<Rightarrow> string option \<Rightarrow> 16 word \<Rightarrow> HealthcheckResult" where
  "dns_result what recvd tid =
     (if what AND EV_TIMEOUT \<noteq> 0 then HC_FAIL
      else if what AND EV_READ \<noteq> 0 then
        (case recvd of
           None \<Rightarrow> HC_FAIL
         | Some bytes \<Rightarrow>
             if length bytes < DNS_HEADER_SIZE \<or> length bytes > DNS_BUFFER_SIZE then HC_FAIL
             else if ntohs_at bytes 6 = 0 then HC_FAIL
             else if ntohs_at bytes 0 \<noteq> unat tid then HC_FAIL
             else HC_PASS)
      else HC_PANIC)"

definition dns_callback ::
    "16 word \<Rightarrow> string option \<Rightarrow> nat \<Rightarrow> ('q \<Rightarrow> pfctl_msg \<Rightarrow> bool \<times> 'q) \<Rightarrow> hc_id \<Rightarrow> 'q world \<Rightarrow> 'q world result" where
  "dns_callback what recvd fuel try_send hc w =
     (case get_dns (get_hc hc w) of
        None \<Rightarrow> Inr w
      | Some t \<Rightarrow>
          end_check fuel try_send hc (dns_result what recvd (my_transaction_id t))
            (upd_hc hc (upd_dns (\<lambda>t. t\<lparr>dns_ev := False\<rparr>)) w))"

section \<open>What the operations keep\<close>

lemma upd_dns_fields [simp]:
  "hard_state (upd_dns f h) = hard_state h" "parent_lbnode (upd_dns f h) = parent_lbnode h"
  "is_running (upd_dns f h) = is_running h" "address_family (upd_dns f h) = address_family h"
  "last_checked (upd_dns f h) = last_checked h"
  by (simp_all add: upd_dns_def split: derived.split)

interpretation dns_event: hc_operation "dns_callback what recvd" "{Exit 2}" for what recvd
proof
  fix fuel :: nat and w :: "'a world" and hc try_send
  assume w: "live fuel w" "attached hc w"
  have "outcome {Exit 2} fuel w (end_check fuel try_send hc r (upd_hc hc (upd_dns (\<lambda>t. t\<lparr>dns_ev := False\<rparr>)) w))" for r
    by (intro end_check_after w keeps_upd_hc) simp_all
  then show "outcome {Exit 2} fuel w (dns_callback what recvd fuel try_send hc w)"
    by (simp add: dns_callback_def split: option.split)
qed

lemma build_dns_question_errors: "build_dns_question q b = Inl e \<Longrightarrow> e = Buffer_Overflow"
  by (simp add: build_dns_question_def Let_def split: if_splits)

lemma dns_packet_errors: "dns_packet qid q = Inl e \<Longrightarrow> e = Buffer_Overflow"
  by (auto simp: dns_packet_def bind_result_Inl_iff dest: build_dns_question_errors)

interpretation dns_schedule: hc_operation "dns_schedule_healthcheck ans now" "{Buffer_Overflow}" for ans now
proof
  fix fuel :: nat and w :: "'a world" and hc try_send
  assume w: "live fuel w" "attached hc w"
  show "outcome {Buffer_Overflow} fuel w (dns_schedule_healthcheck ans now fuel try_send hc w)"
    unfolding dns_schedule_healthcheck_def
  proof (rule schedule_outcome [OF w])
    fix w1 :: "'a world"
    define w2 where "w2 = w1\<lparr>global_transaction_id := global_transaction_id w1 + 1\<rparr>"
    define w3 where "w3 = upd_hc hc (upd_dns (\<lambda>t. t\<lparr>my_transaction_id := global_transaction_id w2\<rparr>)) w2"
    have "keeps fuel w1 w2" by (rule keeps_globals) (simp_all add: w2_def)
    moreover have "keeps fuel w2 w3" unfolding w3_def by (rule keeps_upd_hc) simp_all
    ultimately have k3: "keeps fuel w1 w3" by (rule keeps_trans)
    have k4: "keeps fuel w1 (upd_hc hc (upd_dns f) w3)" for f
      by (rule keeps_trans [OF k3 keeps_upd_hc]) simp_all
    have k5: "keeps fuel w1 (send_packet hc p (upd_hc hc (upd_dns f) w3))" for p f
      by (rule keeps_trans [OF k4 send_packet_keeps])
    show "outcome {Buffer_Overflow} fuel w1
       (let w = w1\<lparr>global_transaction_id := global_transaction_id w1 + 1\<rparr>;
              w = upd_hc hc (upd_dns (\<lambda>t. t\<lparr>my_transaction_id := global_transaction_id w\<rparr>)) w
          in case get_dns (get_hc hc w) of
               None \<Rightarrow> Inr w
             | Some t \<Rightarrow>
                 bind_result (dns_packet (my_transaction_id t) (dns_query t))
                   (\<lambda>packet.
                      if \<not> (address_family (get_hc hc w) = AF_INET \<or> address_family (get_hc hc w) = AF_INET6) then Inr w
                      else if \<not> socket_created (ans hc) then Inr w
                      else Inr (send_packet hc packet (upd_hc hc (upd_dns (\<lambda>t. t\<lparr>dns_ev := True\<rparr>)) w))))"
      using k3 k5 unfolding w2_def [symmetric] w3_def [symmetric] Let_def
      by (auto simp: bind_result_def dest: dns_packet_errors split: option.split sum.split)
  qed
qed

section \<open>The question section\<close>

text \<open>The encoding of a domain name as RFC 1035 defines it: each label preceded by its length.\<close>

definition encode_labels :: "string list \<Rightarrow> string" where
  "encode_labels labels = concat (map (\<lambda>l. char_of (length l) # l) labels)"

definition dotted :: "string list \<Rightarrow> string" where
  "dotted labels = concat (map (\<lambda>l. l @ ''.'') labels)"

definition plain_label :: "string \<Rightarrow> bool" where
  "plain_label l \<longleftrightarrow> CHR ''.'' \<notin> set l \<and> NUL \<notin> set l"

lemma length_encode_labels: "length (encode_labels labels) = length (dotted labels)"
  by (induction labels) (simp_all add: encode_labels_def dotted_def)

lemma label_loop_scan:
  assumes "CHR ''.'' \<notin> set l" "i + length l \<le> origlen + 1" "i + length l \<le> length buf" "take (length l) (drop i buf) = l"
    "i + length l < origlen + 1 \<or> l = [] \<or> i + length l = origlen + 1"
  shows "label_loop i origlen ls n buf = label_loop (i + length l) origlen ls (n + length l) buf"
  using assms
proof (induction l arbitrary: i n)
  case (Cons c l)
  have c: "buf ! i = c" "take (length l) (drop (Suc i) buf) = l"
    using Cons.prems(3,4) by (simp_all add: Cons_nth_drop_Suc [symmetric, of i buf])
  have "label_loop i origlen ls n buf = label_loop (i + 1) origlen ls (n + 1) buf"
    using Cons.prems c by (subst label_loop.simps) auto
  also have "\<dots> = label_loop (i + 1 + length l) origlen ls (n + 1 + length l) buf"
    using Cons.prems c by (intro Cons.IH) auto
  finally show ?case by simp
qed simp

lemma label_loop_dot:
  assumes "i < origlen + 1" "buf ! i = CHR ''.''"
  shows "label_loop i origlen ls n buf = label_loop (i + 1) origlen i 0 (buf[ls := char_of n])"
  using assms by (subst label_loop.simps) simp

lemma label_loop_end: "label_loop (origlen + 1) origlen ls n buf = buf[ls := char_of n]"
  by (subst label_loop.simps, subst label_loop.simps) simp

lemma label_loop_encodes:
  assumes "\<forall>l \<in> set labels. plain_label l" "origlen = length p + length (dotted labels)"
  shows "label_loop (Suc (length p)) origlen (length p) 0 (p @ x # dotted labels @ sfx) =
           p @ encode_labels labels @ char_of (0 :: nat) # sfx"
  using assms
proof (induction labels arbitrary: p x)
  case Nil
  then show ?case
    using label_loop_end [of "length p" "length p" 0 "p @ x # sfx"] by (simp add: dotted_def encode_labels_def)
next
  case (Cons l labels)
  let ?buf = "p @ x # dotted (l # labels) @ sfx"
  let ?p = "p @ char_of (length l) # l"
  have buf: "?buf = p @ x # l @ CHR ''.'' # dotted labels @ sfx" by (simp add: dotted_def)
  have len: "origlen = length p + length l + 1 + length (dotted labels)" using Cons.prems(2) by (simp add: dotted_def)
  have "label_loop (Suc (length p)) origlen (length p) 0 ?buf =
      label_loop (Suc (length p) + length l) origlen (length p) (0 + length l) ?buf"
    using Cons.prems(1) len by (intro label_loop_scan) (auto simp: plain_label_def buf)
  also have "\<dots> = label_loop (Suc (length p) + length l + 1) origlen (Suc (length p) + length l) 0
      (?buf[length p := char_of (length l)])"
    using len by (subst label_loop_dot) (simp_all add: buf nth_append)
  also have "?buf[length p := char_of (length l)] = ?p @ CHR ''.'' # dotted labels @ sfx"
    by (simp add: buf list_update_append)
  also have "label_loop (Suc (length p) + length l + 1) origlen (Suc (length p) + length l) 0 \<dots> =
      ?p @ encode_labels labels @ char_of (0 :: nat) # sfx"
    using Cons.IH [of ?p "CHR ''.''"] Cons.prems(1) len by simp
  finally show ?case by (simp add: encode_labels_def)
qed

lemma dotted_no_NUL: "\<forall>l \<in> set labels. plain_label l \<Longrightarrow> NUL \<notin> set (dotted labels)"
  by (auto simp: dotted_def plain_label_def NUL_def)

lemma build_dns_question_encodes:
  assumes "\<forall>l \<in> set labels. plain_label l" "length (dotted labels) + 5 \<le> n"
  shows "build_dns_question (dotted labels) (replicate n NUL) =
     Inr (length (dotted labels) + 5,
          encode_labels labels @ [NUL, NUL, char_of (1 :: nat), NUL, char_of (1 :: nat)] @
          replicate (n - (length (dotted labels) + 5)) NUL)"
proof -
  let ?q = "dotted labels" and ?len = "length (dotted labels)" and ?one = "char_of (1 :: nat)"
  let ?k = "n - (?len + 5)"
  have c: "c_str ?q = ?q" using dotted_no_NUL [OF assms(1)] by (rule c_str_no_NUL)
  have n: "n = Suc (?len + Suc (3 + ?k))" using assms(2) by simp
  have zero: "char_of (0 :: nat) = NUL" by (simp add: NUL_def char_of_def)
  have "strcpy_at 1 ?q (replicate n NUL) = NUL # ?q @ NUL # replicate (3 + ?k) NUL"
    by (subst n) (simp add: strcpy_at_def c)
  moreover have "label_loop 1 ?len 0 0 (NUL # ?q @ NUL # replicate (3 + ?k) NUL) =
      encode_labels labels @ NUL # NUL # replicate (3 + ?k) NUL"
    using label_loop_encodes [OF assms(1), of ?len "[]" NUL "NUL # replicate (3 + ?k) NUL"] zero by simp
  moreover have "replicate (3 + ?k) NUL = [NUL, NUL, NUL] @ replicate ?k NUL"
    by (simp add: replicate_add eval_nat_numeral)
  moreover have "(encode_labels labels @ NUL # NUL # [NUL, NUL, NUL] @ r)[?len + 2 := ?one, ?len + 4 := ?one] =
      encode_labels labels @ [NUL, NUL, ?one, NUL, ?one] @ r" for r
    by (simp add: list_update_append length_encode_labels eval_nat_numeral)
  ultimately show ?thesis
    using assms(2) by (simp add: build_dns_question_def Let_def c)
qed

text \<open>Reading a name back, as a resolver does.\<close>

function decode_labels :: "string \<Rightarrow> (string list \<times> string) option" where
  "decode_labels [] = None"
| "decode_labels (c # s) =
     (let n = (of_char c :: nat) in
      if n = 0 then Some ([], s)
      else if length s < n then None
      else (case decode_labels (drop n s) of None \<Rightarrow> None | Some (ls, r) \<Rightarrow> Some (take n s # ls, r)))"
  by pat_completeness auto
termination
  by (relation "measure length") auto

lemma decode_encode:
  assumes "\<forall>l \<in> set labels. l \<noteq> [] \<and> length l < 256"
  shows "decode_labels (encode_labels labels @ NUL # r) = Some (labels, r)"
  using assms
proof (induction labels)
  case Nil
  then show ?case by (simp add: encode_labels_def NUL_def)
next
  case (Cons l labels)
  then have "(of_char (char_of (length l) :: char) :: nat) = length l" by simp
  then show ?case using Cons by (simp add: encode_labels_def)
qed

lemma dns_packet_decodes:
  assumes "\<forall>l \<in> set labels. plain_label l \<and> l \<noteq> [] \<and> length l < 256" "length (dotted labels) \<le> 495"
  obtains packet where "dns_packet qid (dotted labels) = Inr packet"
    "take 12 packet = dns_header_bytes qid" "length packet = 17 + length (dotted labels)"
    "decode_labels (drop 12 packet) = Some (labels, [NUL, char_of (1 :: nat), NUL, char_of (1 :: nat)])"
proof -
  let ?E = "encode_labels labels @ [NUL, NUL, char_of (1 :: nat), NUL, char_of (1 :: nat)]"
  have hdr: "length (dns_header_bytes qid) = 12" by (simp add: dns_header_bytes_def be16_def)
  have "dns_packet qid (dotted labels) = Inr (dns_header_bytes qid @ ?E)"
    using assms hdr build_dns_question_encodes [of labels 500]
    by (simp add: dns_packet_def DNS_BUFFER_SIZE_def DNS_HEADER_SIZE_def length_encode_labels)
  moreover have "decode_labels ?E = Some (labels, [NUL, char_of (1 :: nat), NUL, char_of (1 :: nat)])"
    using decode_encode [of labels] assms by simp
  ultimately show ?thesis
    using that [of "dns_header_bytes qid @ ?E"] hdr by (simp add: length_encode_labels)
qed

section \<open>The verdict\<close>

lemma byte_at_char_of: "i < length xs \<Longrightarrow> xs ! i = char_of k \<Longrightarrow> k < 256 \<Longrightarrow> byte_at xs i = k"
  by (simp add: byte_at_def)

lemma ntohs_be16: "ntohs_at (be16 x @ r) 0 = unat x"
proof -
  have "unat x < 65536" using unsigned_less [of x] by simp
  then have "unat x div 256 < 256" by simp
  then show ?thesis by (simp add: ntohs_at_def byte_at_def be16_def)
qed

lemma dns_result_pass:
  "dns_result what recvd tid = HC_PASS \<longleftrightarrow>
     what AND EV_TIMEOUT = 0 \<and> what AND EV_READ \<noteq> 0 \<and>
     (\<exists>bytes. recvd = Some bytes \<and> 12 \<le> length bytes \<and> length bytes \<le> 512 \<and>
        ntohs_at bytes 6 \<noteq> 0 \<and> ntohs_at bytes 0 = unat tid)"
  by (auto simp: dns_result_def DNS_HEADER_SIZE_def DNS_BUFFER_SIZE_def split: option.split)

text \<open>An answer to the previous query is not accepted for the next one.\<close>

lemma dns_stale_answer:
  assumes "ntohs_at bytes 0 = unat tid" "tid \<noteq> tid'"
  shows "dns_result what (Some bytes) tid' \<noteq> HC_PASS"
  using assms by (auto simp: dns_result_pass word_unat_eq_iff)

section \<open>A check that cannot open its socket\<close>

lemma dns_socket_failure:
  assumes t: "derived (get_hc hc w) = Dns t" and start: "fst (schedule_healthcheck now (get_hc hc w))"
    and fit: "\<exists>p. dns_packet (global_transaction_id w + 1) (dns_query t) = Inr p" and fail: "\<not> socket_created (ans hc)"
  obtains w' where "dns_schedule_healthcheck ans now fuel try_send hc w = Inr w'"
    "is_running (get_hc hc w')" "\<And>ans' now' fuel' ts'. dns_schedule_healthcheck ans' now' fuel' ts' hc w' = Inr w'"
proof -
  define w1 where "w1 = upd_hc hc (\<lambda>h. snd (schedule_healthcheck now h)) w"
  define v where "v = w1\<lparr>global_transaction_id := global_transaction_id w1 + 1\<rparr>"
  define w2 where "w2 = upd_hc hc (upd_dns (\<lambda>t. t\<lparr>my_transaction_id := global_transaction_id v\<rparr>)) v"
  have g: "global_transaction_id v = global_transaction_id w + 1" by (simp add: v_def w1_def upd_hc_def)
  have h1: "get_hc hc w1 = (get_hc hc w)\<lparr>last_checked := now, is_running := True\<rparr>"
    using schedule_healthcheck_True [OF start] by (simp add: w1_def)
  have h2: "get_hc hc w2 = upd_dns (\<lambda>t. t\<lparr>my_transaction_id := global_transaction_id w + 1\<rparr>) (get_hc hc w1)"
    by (simp add: w2_def g) (simp add: v_def get_hc_def)
  have "get_dns (get_hc hc w2) = Some (t\<lparr>my_transaction_id := global_transaction_id w + 1\<rparr>)"
    using t by (simp add: h2 h1 get_dns_def upd_dns_def)
  then have run: "dns_schedule_healthcheck ans now fuel try_send hc w = Inr w2"
    using start fit fail unfolding dns_schedule_healthcheck_def schedule_base_def Let_def prod.case
      w1_def [symmetric] v_def [symmetric] w2_def [symmetric] by auto
  have running: "is_running (get_hc hc w2)" by (simp add: h2 h1)
  then have "schedule_base now' hc w2 = (False, upd_hc hc (\<lambda>h. snd (schedule_healthcheck now' h)) w2)" for now'
    by (simp add: schedule_base_def schedule_healthcheck_def)
  moreover have "upd_hc hc (\<lambda>h. snd (schedule_healthcheck now' h)) w2 = w2" for now'
    using running by (simp add: upd_hc_def get_hc_def schedule_healthcheck_def fun_upd_idem)
  ultimately show ?thesis using that [OF run running] by (simp add: dns_schedule_healthcheck_def)
qed

lemma dns_packet_overflow: "dns_packet qid query = Inl Buffer_Overflow \<longleftrightarrow> 495 < length (c_str query)"
  by (auto simp: dns_packet_def build_dns_question_def Let_def DNS_BUFFER_SIZE_def DNS_HEADER_SIZE_def)

lemma label_loop_length [simp]: "length (label_loop i n ls k buf) = length buf"
proof (induction i n ls k buf rule: label_loop.induct)
  case (1 i n ls k buf)
  then show ?case by (subst label_loop.simps) simp
qed

lemma dns_packet_length:
  assumes "dns_packet qid query = Inr packet"
  shows "length packet = length (c_str query) + 17" "length packet \<le> DNS_BUFFER_SIZE"
  using assms
  by (auto simp: dns_packet_def build_dns_question_def Let_def DNS_BUFFER_SIZE_def DNS_HEADER_SIZE_def bind_result_Inr_iff
      dns_header_bytes_def be16_def strcpy_at_def split: if_splits)

section \<open>A check that sends its question\<close>

lemma dns_started:
  assumes t: "derived (get_hc hc w) = Dns t" and start: "fst (schedule_healthcheck now (get_hc hc w))"
    and fam: "address_family (get_hc hc w) \<in> {AF_INET, AF_INET6}" and sock: "socket_created (ans hc)"
    and packet: "dns_packet (global_transaction_id w + 1) (dns_query t) = Inr packet"
  obtains w' where "dns_schedule_healthcheck ans now fuel try_send hc w = Inr w'"
    "sent_packets w' = sent_packets w @ [(hc, packet)]"
    "get_dns (get_hc hc w') = Some (t\<lparr>my_transaction_id := global_transaction_id w + 1, dns_ev := True\<rparr>)"
proof -
  define w1 where "w1 = upd_hc hc (\<lambda>h. snd (schedule_healthcheck now h)) w"
  define v where "v = w1\<lparr>global_transaction_id := global_transaction_id w1 + 1\<rparr>"
  define w2 where "w2 = upd_hc hc (upd_dns (\<lambda>t. t\<lparr>my_transaction_id := global_transaction_id v\<rparr>)) v"
  define w3 where "w3 = upd_hc hc (upd_dns (\<lambda>t. t\<lparr>dns_ev := True\<rparr>)) w2"
  have g: "global_transaction_id v = global_transaction_id w + 1" by (simp add: v_def w1_def upd_hc_def)
  have h1: "get_hc hc w1 = (get_hc hc w)\<lparr>last_checked := now, is_running := True\<rparr>"
    using schedule_healthcheck_True [OF start] by (simp add: w1_def)
  have h2: "get_hc hc w2 = upd_dns (\<lambda>t. t\<lparr>my_transaction_id := global_transaction_id w + 1\<rparr>) (get_hc hc w1)"
    by (simp add: w2_def g) (simp add: v_def get_hc_def)
  have d2: "get_dns (get_hc hc w2) = Some (t\<lparr>my_transaction_id := global_transaction_id w + 1\<rparr>)"
    using t by (simp add: h2 h1 get_dns_def upd_dns_def)
  have f2: "address_family (get_hc hc w2) \<in> {AF_INET, AF_INET6}" using fam by (simp add: h2 h1)
  have "dns_schedule_healthcheck ans now fuel try_send hc w = Inr (send_packet hc packet w3)"
    using start sock f2 d2 packet unfolding dns_schedule_healthcheck_def schedule_base_def Let_def prod.case
      w1_def [symmetric] v_def [symmetric] w2_def [symmetric] w3_def [symmetric] by auto
  moreover have "sent_packets w3 = sent_packets w" by (simp add: w3_def w2_def v_def w1_def upd_hc_def)
  moreover have "get_dns (get_hc hc w3) = Some (t\<lparr>my_transaction_id := global_transaction_id w + 1, dns_ev := True\<rparr>)"
    using d2 by (auto simp: w3_def get_dns_def upd_dns_def split: derived.splits)
  ultimately show ?thesis using that by simp
qed

lemma dns_answer_passes:
  assumes "take 2 answer = take 2 packet" "take 12 packet = dns_header_bytes tid"
    and "12 \<le> length answer" "length answer \<le> 512" "ntohs_at answer 6 \<noteq> 0"
  shows "dns_result EV_READ (Some answer) tid = HC_PASS"
proof -
  have "take 2 packet = be16 tid"
    using arg_cong [OF assms(2), of "take 2"] by (simp add: dns_header_bytes_def be16_def)
  then have "answer = be16 tid @ drop 2 answer" using assms(1) append_take_drop_id [of 2 answer] by simp
  then have "ntohs_at answer 0 = unat tid" using ntohs_be16 [of tid "drop 2 answer"] by simp
  then show ?thesis using assms by (simp add: dns_result_pass EV_READ_def EV_TIMEOUT_def)
qed

end
