(* ===== verification/Hc_Ping.thy ===== *)
theory Hc_Ping
  imports Hc_Dns
begin

text \<open>
  The ping check (\<open>healthcheck_ping.cpp\<close>). All ping checks share two raw sockets; an answer is
  mapped back to its check through the sequence number.
\<close>

section \<open>The checksum\<close>

text \<open>
  The sum of 16-bit words in the byte order of the machine (little endian), with a last odd byte.
  The accumulator is an \<open>int\<close>; it cannot overflow for a packet of at most 65535 bytes.
\<close>

fun cksum_loop :: "string \<Rightarrow> nat \<Rightarrow> nat" where
  "cksum_loop (a # b # w) acc = cksum_loop w (acc + (of_char a + 256 * of_char b))"
| "cksum_loop [a] acc = acc + of_char a"
| "cksum_loop [] acc = acc"

definition in_cksum :: "string \<Rightarrow> 16 word" where
  "in_cksum bytes =
     (let acc = cksum_loop bytes 0;
          acc = acc div 65536 + acc mod 65536;
          acc = acc + acc div 65536
      in NOT (of_nat acc))"

section \<open>The operations\<close>

definition ICMP_ECHO :: nat where "ICMP_ECHO = 8"

definition ICMP_ECHOREPLY :: nat where "ICMP_ECHOREPLY = 0"

definition ICMP6_ECHO_REQUEST :: nat where "ICMP6_ECHO_REQUEST = 128"

definition ICMP6_ECHO_REPLY :: nat where "ICMP6_ECHO_REPLY = 129"

definition ICMP_MINLEN :: nat where "ICMP_MINLEN = 8"

text \<open>\<open>sizeof(struct icmp6_echo)\<close>: header, time stamp, 63 characters, padded to 8 bytes.\<close>

definition ICMP6_ECHO_SIZE :: nat where "ICMP6_ECHO_SIZE = 88"

definition upd_ping :: "(Healthcheck_ping \<Rightarrow> Healthcheck_ping) \<Rightarrow> Healthcheck \<Rightarrow> Healthcheck" where
  "upd_ping f h = (case derived h of Ping t \<Rightarrow> h\<lparr>derived := Ping (f t)\<rparr> | _ \<Rightarrow> h)"

definition get_ping_seq :: "Healthcheck \<Rightarrow> 16 word" where
  "get_ping_seq h = (case derived h of Ping t \<Rightarrow> ping_my_seq t | _ \<Rightarrow> 0)"

text \<open>\<open>ping_my_seq\<close> is not initialised; it is not read before the check was started.\<close>

definition ping_init :: "'j \<Rightarrow> hc_id \<Rightarrow> Healthcheck \<Rightarrow> Healthcheck result" where
  "ping_init config hc h = Inr (h\<lparr>hc_type := ''ping'', derived := Ping \<lparr>ping_my_seq = 0\<rparr>\<rparr>)"

text \<open>\<open>initialize\<close>: the process id, and the answers of \<open>socket\<close> (two) and \<open>setsockopt\<close> (three), in the order of the calls.\<close>

definition ping_initialize :: "int \<Rightarrow> bool list \<Rightarrow> 'q world \<Rightarrow> bool \<times> 'q world" where
  "ping_initialize pid answers w =
     (list_all (\<lambda>ok. ok) answers, w\<lparr>ping_id := word_of_int pid, seq_map := (\<lambda>s. None)\<rparr>)"

text \<open>An echo request, with the checksum filled in.\<close>

definition echo_packet :: "nat \<Rightarrow> 16 word \<Rightarrow> 16 word \<Rightarrow> 16 word \<Rightarrow> string \<Rightarrow> string" where
  "echo_packet type cksum pid seq rest =
     [char_of type, NUL] @ [char_of (unat cksum mod 256), char_of (unat cksum div 256)] @ be16 pid @ be16 seq @ rest"

definition echo_request :: "nat \<Rightarrow> 16 word \<Rightarrow> 16 word \<Rightarrow> string \<Rightarrow> string" where
  "echo_request type pid seq rest = echo_packet type (in_cksum (echo_packet type 0 pid seq rest)) pid seq rest"

definition ping_end_check ::
    "HealthcheckResult \<Rightarrow> nat \<Rightarrow> ('q \<Rightarrow> pfctl_msg \<Rightarrow> bool \<times> 'q) \<Rightarrow> hc_id \<Rightarrow> 'q world \<Rightarrow> 'q world result" where
  "ping_end_check result fuel try_send hc w =
     end_check fuel try_send hc result
       (w\<lparr>seq_map := (seq_map w)(get_ping_seq (get_hc hc w) := None)\<rparr>)"

definition ping_callback ::
    "bool \<Rightarrow> 16 word \<Rightarrow> string option \<Rightarrow> nat \<Rightarrow> ('q \<Rightarrow> pfctl_msg \<Rightarrow> bool \<times> 'q) \<Rightarrow> 'q world \<Rightarrow> 'q world result" where
  "ping_callback v4 what recvd fuel try_send w =
     (if what \<noteq> EV_READ then Inr w
      else let raw_packet = (case recvd of None \<Rightarrow> [] | Some bytes \<Rightarrow> bytes);
               received_bytes = length raw_packet;
               ip_header_len = (if v4 then (byte_at raw_packet 0 mod 16) * 4 else 0)
           in if (v4 \<and> byte_at raw_packet ip_header_len = ICMP_ECHOREPLY) \<or>
                 (\<not> v4 \<and> byte_at raw_packet ip_header_len = ICMP6_ECHO_REPLY) then
                if received_bytes < (if v4 then ip_header_len + ICMP_MINLEN else ICMP6_ECHO_SIZE) then Inr w
                else let recvd_id = ntohs_at raw_packet (ip_header_len + 4);
                         recvd_seq = of_nat (ntohs_at raw_packet (ip_header_len + 6))
                     in if recvd_id \<noteq> unat (ping_id w) then Inr w
                        else (case seq_map w recvd_seq of
                                None \<Rightarrow> Inr w
                              | Some healthcheck \<Rightarrow>
                                  if get_ping_seq (get_hc healthcheck w) = recvd_seq
                                  then ping_end_check HC_PASS fuel try_send healthcheck w
                                  else Inr w)
              else Inr w)"

definition ping_finalize ::
    "timespec \<Rightarrow> nat \<Rightarrow> ('q \<Rightarrow> pfctl_msg \<Rightarrow> bool \<times> 'q) \<Rightarrow> hc_id \<Rightarrow> 'q world \<Rightarrow> 'q world result" where
  "ping_finalize now fuel try_send hc w =
     (let h = get_hc hc w in
      if \<not> is_running h then Inr w
      else if timespec_diff_ms now (last_checked h) > timeout_to_ms h then
        ping_end_check HC_FAIL fuel try_send hc (upd_hc hc (upd_ping (\<lambda>t. t\<lparr>ping_my_seq := 0\<rparr>)) w)
      else Inr w)"

text \<open>
  The echo requests as they are in memory: \<open>struct icmp4_echo\<close> has 24 unused bytes behind the eight
  bytes of the header (the rest of \<open>struct icmp\<close> and padding), \<open>struct icmp6_echo\<close> none; then the
  time stamp (two 64-bit numbers, little endian), the fill data with its terminator, and a byte of
  padding. The memory was cleared before.
\<close>

definition ICMP_FILL_DATA :: string where
  "ICMP_FILL_DATA = ''Dave, this conversation can serve no purpose anymore. Goodbye.''"

definition le64 :: "int \<Rightarrow> string" where
  "le64 x = map (\<lambda>i. char_of (nat (x div 256 ^ i mod 256))) [0..<8]"

definition echo_data :: "timespec \<Rightarrow> string" where
  "echo_data now = le64 (tv_sec now) @ le64 (tv_nsec now) @ ICMP_FILL_DATA @ [NUL] @ [NUL]"

definition icmp4_request :: "16 word \<Rightarrow> 16 word \<Rightarrow> timespec \<Rightarrow> string" where
  "icmp4_request pid seq now = echo_request ICMP_ECHO pid seq (replicate 24 NUL @ echo_data now)"

definition icmp6_request :: "16 word \<Rightarrow> 16 word \<Rightarrow> timespec \<Rightarrow> string" where
  "icmp6_request pid seq now = echo_request ICMP6_ECHO_REQUEST pid seq (echo_data now)"

definition send_echo :: "timespec \<Rightarrow> hc_id \<Rightarrow> 'q world \<Rightarrow> 'q world" where
  "send_echo now hc w =
     (let h = get_hc hc w in
      if address_family h = AF_INET then send_packet hc (icmp4_request (ping_id w) (get_ping_seq h) now) w
      else if address_family h = AF_INET6 then send_packet hc (icmp6_request (ping_id w) (get_ping_seq h) now) w
      else w)"

definition ping_schedule_healthcheck ::
    "timespec \<Rightarrow> nat \<Rightarrow> ('q \<Rightarrow> pfctl_msg \<Rightarrow> bool \<times> 'q) \<Rightarrow> hc_id \<Rightarrow> 'q world \<Rightarrow> 'q world result" where
  "ping_schedule_healthcheck now fuel try_send hc w =
     (case schedule_base now hc w of (ok, w) \<Rightarrow>
        if ok then
          let w = w\<lparr>ping_global_seq := ping_global_seq w + 1\<rparr>;
              w = upd_hc hc (upd_ping (\<lambda>t. t\<lparr>ping_my_seq := ping_global_seq w\<rparr>)) w
          in Inr (send_echo now hc (w\<lparr>seq_map := (seq_map w)(get_ping_seq (get_hc hc w) := Some hc)\<rparr>))
        else Inr w)"

section \<open>What the operations keep\<close>

lemma upd_ping_fields [simp]:
  "hard_state (upd_ping f h) = hard_state h" "parent_lbnode (upd_ping f h) = parent_lbnode h"
  "is_running (upd_ping f h) = is_running h"
  by (simp_all add: upd_ping_def split: derived.split)

lemma keeps_clear_seq: "keeps fuel w (w\<lparr>seq_map := (seq_map w)(s := None)\<rparr>)"
  by (rule keeps_globals) (auto split: if_splits)

lemma keeps_set_seq: "attached hc w \<Longrightarrow> keeps fuel w (w\<lparr>seq_map := (seq_map w)(s := Some hc)\<rparr>)"
  by (rule keeps_globals) (auto split: if_splits)

lemma send_echo_keeps: "keeps fuel w (send_echo now hc w)"
  using send_packet_keeps [of fuel w hc] by (simp add: send_echo_def Let_def)

lemma ping_end_check_outcome:
  assumes "live fuel w" "attached hc w"
  shows "outcome {Exit 2} fuel w (ping_end_check r fuel try_send hc w)"
  unfolding ping_end_check_def by (rule end_check_after [OF keeps_clear_seq assms])

lemma ping_callback_outcome:
  assumes "live fuel w"
  shows "outcome {Exit 2} fuel w (ping_callback v4 what recvd fuel try_send w)"
proof -
  have "outcome {Exit 2} fuel w (ping_end_check HC_PASS fuel try_send hc w)" if "seq_map w s = Some hc" for s hc
    using ping_end_check_outcome [OF assms] assms that by (simp add: live_def seqs_attached_def)
  then show ?thesis by (auto simp: ping_callback_def Let_def split: option.split)
qed

interpretation ping_finalize: hc_operation "ping_finalize now" "{Exit 2}" for now
proof
  fix fuel :: nat and w :: "'a world" and hc try_send
  assume w: "live fuel w" "attached hc w"
  let ?w = "upd_hc hc (upd_ping (\<lambda>t. t\<lparr>ping_my_seq := 0\<rparr>)) w"
  have k: "keeps fuel w ?w" by (rule keeps_upd_hc) simp_all
  have "outcome {Exit 2} fuel w (ping_end_check HC_FAIL fuel try_send hc ?w)"
    using outcome_after [OF k ping_end_check_outcome] keeps_live [OF k w] by blast
  then show "outcome {Exit 2} fuel w (ping_finalize now fuel try_send hc w)"
    by (simp add: ping_finalize_def Let_def)
qed

interpretation ping_schedule: hc_operation "ping_schedule_healthcheck now" "{}" for now
proof
  fix fuel :: nat and w :: "'a world" and hc try_send
  assume w: "live fuel w" "attached hc w"
  show "outcome {} fuel w (ping_schedule_healthcheck now fuel try_send hc w)"
    unfolding ping_schedule_healthcheck_def
  proof (rule schedule_outcome [OF w])
    fix w1 :: "'a world" assume w1: "live fuel w1" "attached hc w1"
    define w2 where "w2 = w1\<lparr>ping_global_seq := ping_global_seq w1 + 1\<rparr>"
    define w3 where "w3 = upd_hc hc (upd_ping (\<lambda>t. t\<lparr>ping_my_seq := ping_global_seq w2\<rparr>)) w2"
    have "keeps fuel w1 w2" by (rule keeps_globals) (simp_all add: w2_def)
    moreover have "keeps fuel w2 w3" unfolding w3_def by (rule keeps_upd_hc) simp_all
    ultimately have k: "keeps fuel w1 w3" by (rule keeps_trans)
    then have "keeps fuel w1 (w3\<lparr>seq_map := (seq_map w3)(s := Some hc)\<rparr>)" for s
      using keeps_trans [OF k keeps_set_seq] keeps_live [OF k w1] by blast
    then have "keeps fuel w1 (send_echo now hc (w3\<lparr>seq_map := (seq_map w3)(s := Some hc)\<rparr>))" for s
      using keeps_trans send_echo_keeps by blast
    then show "outcome {} fuel w1
       (let w = w1\<lparr>ping_global_seq := ping_global_seq w1 + 1\<rparr>;
            w = upd_hc hc (upd_ping (\<lambda>t. t\<lparr>ping_my_seq := ping_global_seq w\<rparr>)) w
        in Inr (send_echo now hc (w\<lparr>seq_map := (seq_map w)(get_ping_seq (get_hc hc w) := Some hc)\<rparr>)))"
      unfolding w2_def [symmetric] w3_def [symmetric] Let_def by simp
  qed
qed

section \<open>A packet with its checksum verifies\<close>

lemma cksum_loop_add: "cksum_loop bs (s + t) = s + cksum_loop bs t"
  by (induction bs t rule: cksum_loop.induct) (simp_all add: add.assoc)

lemma cksum_loop_acc: "cksum_loop bs s = s + cksum_loop bs 0"
  using cksum_loop_add [of bs s 0] by simp

lemma cksum_loop_append: "even (length a) \<Longrightarrow> cksum_loop (a @ b) s = cksum_loop b (cksum_loop a s)"
  by (induction a s rule: cksum_loop.induct) auto

lemma of_char_bound: "(of_char c :: nat) \<le> 255"
  using nat_of_char_less_256 [of c] by linarith

lemma cksum_loop_bound: "cksum_loop bs s \<le> s + 65535 * length bs"
proof (induction bs s rule: cksum_loop.induct)
  case (1 a b w acc)
  then show ?case using of_char_bound [of a] of_char_bound [of b] by simp
next
  case (2 a acc)
  then show ?case using of_char_bound [of a] by simp
qed simp

text \<open>Folding the carries back into 16 bits.\<close>

definition fold16 :: "nat \<Rightarrow> nat" where
  "fold16 s = (let s1 = s div 65536 + s mod 65536 in (s1 + s1 div 65536) mod 65536)"

lemma fold16_small:
  assumes "s < 65536 * 65536"
  shows "fold16 s \<le> 65535" "fold16 s mod 65535 = s mod 65535" "fold16 s = 0 \<longleftrightarrow> s = 0"
proof -
  define h l where "h = s div 65536" and "l = s mod 65536"
  have s: "s = h * 65536 + l" and h: "h < 65536" and l: "l < 65536"
    using assms by (simp_all add: h_def l_def less_mult_imp_div_less)
  have "fold16 s = (if h + l < 65536 then h + l else h + l - 65535)"
  proof (cases "h + l < 65536")
    case True
    then show ?thesis by (simp add: fold16_def Let_def flip: h_def l_def)
  next
    case False
    then have "(h + l) div 65536 = 1" using h l by (intro div_nat_eqI) simp_all
    moreover have "(h + l + 1) mod 65536 = h + l - 65535"
      using False h l by (simp add: mod_if)
    ultimately show ?thesis using False by (simp add: fold16_def Let_def flip: h_def l_def)
  qed
  moreover have "s mod 65535 = (h + l) mod 65535"
  proof -
    have "s = (h + l) + h * 65535" using s by simp
    then show ?thesis by (metis mod_mult_self1)
  qed
  moreover have "(h + l - 65535) mod 65535 = (h + l) mod 65535" if "\<not> h + l < 65536"
    using that by (simp add: le_mod_geq)
  ultimately show "fold16 s \<le> 65535" "fold16 s mod 65535 = s mod 65535" "fold16 s = 0 \<longleftrightarrow> s = 0"
    using s h l by auto
qed

lemma unat_not_16: "unat (NOT (x :: 16 word)) = 65535 - unat x"
proof -
  have u: "0 \<le> uint x" "uint x < 65536" using uint_bounded [of x] by simp_all
  have "uint (NOT x) = take_bit 16 (NOT (uint x))" using unsigned_not_eq [of x, where 'a = int] by simp
  also have "\<dots> = (- uint x - 1) mod 65536" by (simp add: take_bit_eq_mod not_eq_complement)
  also have "\<dots> = (65535 - uint x) mod 65536" using mod_add_self2 [of "- uint x - 1" 65536] by simp
  also have "\<dots> = 65535 - uint x" using u by (intro mod_pos_pos_trivial) linarith+
  finally have "int (unat (NOT x)) = 65535 - int (unat x)" by simp
  then show ?thesis by linarith
qed

lemma unat_in_cksum: "unat (in_cksum bs) = 65535 - fold16 (cksum_loop bs 0)"
proof -
  define s where "s = cksum_loop bs 0 div 65536 + cksum_loop bs 0 mod 65536"
  have "unat (NOT (of_nat (s + s div 65536) :: 16 word)) = 65535 - (s + s div 65536) mod 65536"
    by (simp add: unat_not_16 unat_of_nat del: of_nat_add)
  then show ?thesis by (simp add: in_cksum_def fold16_def Let_def del: of_nat_add flip: s_def)
qed

lemma in_cksum_verifies:
  assumes "even (length a)" "length a + length b \<le> 65000"
  defines "c \<equiv> in_cksum (a @ [NUL, NUL] @ b)"
  shows "in_cksum (a @ [char_of (unat c mod 256), char_of (unat c div 256)] @ b) = 0"
proof -
  let ?s = "cksum_loop (a @ [NUL, NUL] @ b) 0"
  let ?t = "cksum_loop (a @ [char_of (unat c mod 256), char_of (unat c div 256)] @ b) 0"
  have split: "cksum_loop (a @ [x, y] @ b) 0 = of_char x + 256 * of_char y + cksum_loop a 0 + cksum_loop b 0" for x y
    using cksum_loop_append [OF assms(1), of "[x, y] @ b" 0]
      cksum_loop_acc [of b "cksum_loop a 0 + (of_char x + 256 * of_char y)"] by simp
  have c: "unat c = 65535 - fold16 ?s" by (simp add: c_def unat_in_cksum)
  then have "unat c div 256 < 256" by (simp add: less_mult_imp_div_less)
  then have "(of_char (char_of (unat c mod 256) :: char) :: nat) + 256 * of_char (char_of (unat c div 256) :: char) = unat c"
    by simp
  then have t: "?t = ?s + unat c" using split by (simp add: NUL_def)
  have "?s \<le> 65535 * (length a + length b + 2)" using cksum_loop_bound [of "a @ [NUL, NUL] @ b" 0] by simp
  then have small: "?s < 65536 * 65536 - 65536" using assms(2) by simp
  note f = fold16_small [of ?s]
  have "?t = ?s + (65535 - fold16 ?s)" using t c by simp
  then have t0: "?t \<noteq> 0" and bound: "?t < 65536 * 65536"
    using f small by auto
  have "?t mod 65535 = 0"
  proof -
    have "?t + fold16 ?s = ?s + 65535" using t c f(1) small by simp
    then have "(?t + fold16 ?s) mod 65535 = fold16 ?s mod 65535" using f(2) small by simp
    then show ?thesis using mod_eq_dvd_iff_nat [of "fold16 ?s" "?t + fold16 ?s" 65535] by simp
  qed
  then have "fold16 ?t = 65535" using fold16_small [OF bound] t0 by (auto simp: le_eq_less_or_eq)
  then have "unat (in_cksum (a @ [char_of (unat c mod 256), char_of (unat c div 256)] @ b)) = 0"
    by (simp add: unat_in_cksum)
  then show ?thesis by (simp add: unat_eq_0)
qed

lemma echo_request_verifies:
  assumes "length rest \<le> 60000"
  shows "in_cksum (echo_request type pid seq rest) = 0"
proof -
  have zero: "char_of (0 :: nat) = NUL" by (simp add: NUL_def char_of_def)
  show ?thesis
    using in_cksum_verifies [of "[char_of type, NUL]" "be16 pid @ be16 seq @ rest"] assms
    by (simp add: echo_request_def echo_packet_def zero be16_def)
qed

section \<open>Which check an answer belongs to\<close>

text \<open>The sequence number of a packet that answers one of our requests.\<close>

definition reply_seq :: "16 word \<Rightarrow> bool \<Rightarrow> string option \<Rightarrow> 16 word option" where
  "reply_seq pid v4 recvd =
     (let raw = (case recvd of None \<Rightarrow> [] | Some bytes \<Rightarrow> bytes);
          hl = (if v4 then (byte_at raw 0 mod 16) * 4 else 0)
      in if byte_at raw hl = (if v4 then ICMP_ECHOREPLY else ICMP6_ECHO_REPLY) \<and>
            (if v4 then hl + ICMP_MINLEN else ICMP6_ECHO_SIZE) \<le> length raw \<and>
            ntohs_at raw (hl + 4) = unat pid
         then Some (of_nat (ntohs_at raw (hl + 6))) else None)"

lemma ping_callback_eq:
  "ping_callback v4 what recvd fuel try_send w =
     (if what \<noteq> EV_READ then Inr w
      else case reply_seq (ping_id w) v4 recvd of
             None \<Rightarrow> Inr w
           | Some s \<Rightarrow>
               (case seq_map w s of
                  None \<Rightarrow> Inr w
                | Some hc \<Rightarrow>
                    if get_ping_seq (get_hc hc w) = s then ping_end_check HC_PASS fuel try_send hc w else Inr w))"
  by (auto simp: ping_callback_def reply_seq_def Let_def split: option.split)

lemma byte_at_append: "byte_at (a @ b) (length a + i) = byte_at b i"
  by (simp add: byte_at_def nth_append)

lemma ntohs_at_append: "ntohs_at (a @ b) (length a + i) = ntohs_at b i"
  using byte_at_append [of a b i] byte_at_append [of a b "i + 1"] by (simp add: ntohs_at_def)

lemma echo_packet_fields:
  "byte_at (echo_packet type ck pid seq rest) 0 = type mod 256"
  "ntohs_at (echo_packet type ck pid seq rest) 4 = unat pid"
  "ntohs_at (echo_packet type ck pid seq rest) 6 = unat seq"
  "length (echo_packet type ck pid seq rest) = 8 + length rest"
proof -
  let ?hd = "[char_of type, NUL, char_of (unat ck mod 256), char_of (unat ck div 256)]"
  have n4: "length ?hd + 0 = 4" and n6: "length (?hd @ be16 pid) + 0 = 6" by (simp_all add: be16_def)
  have eq: "echo_packet type ck pid seq rest = ?hd @ be16 pid @ be16 seq @ rest" by (simp add: echo_packet_def)
  show "byte_at (echo_packet type ck pid seq rest) 0 = type mod 256"
    by (simp add: echo_packet_def byte_at_def)
  show "ntohs_at (echo_packet type ck pid seq rest) 4 = unat pid"
    using ntohs_at_append [of ?hd "be16 pid @ be16 seq @ rest" 0, unfolded n4] ntohs_be16 [of pid] by (simp add: eq)
  show "ntohs_at (echo_packet type ck pid seq rest) 6 = unat seq"
    using ntohs_at_append [of "?hd @ be16 pid" "be16 seq @ rest" 0, unfolded n6] ntohs_be16 [of seq] by (simp add: eq)
  show "length (echo_packet type ck pid seq rest) = 8 + length rest"
    by (simp add: echo_packet_def be16_def)
qed

lemma reply_seq_v4:
  assumes "iph \<noteq> []" "length iph = (of_char (hd iph) mod 16) * 4"
  shows "reply_seq pid True (Some (iph @ echo_packet ICMP_ECHOREPLY ck pid seq rest)) = Some seq"
proof -
  let ?p = "echo_packet ICMP_ECHOREPLY ck pid seq rest"
  have "byte_at (iph @ ?p) 0 mod 16 * 4 = length iph"
    using assms by (cases iph) (simp_all add: byte_at_def)
  moreover have "byte_at (iph @ ?p) (length iph) = 0"
    using byte_at_append [of iph ?p 0] echo_packet_fields(1) [of ICMP_ECHOREPLY] by (simp add: ICMP_ECHOREPLY_def)
  ultimately show ?thesis
    using ntohs_at_append [of iph ?p 4] ntohs_at_append [of iph ?p 6]
    by (simp add: reply_seq_def echo_packet_fields ICMP_ECHOREPLY_def ICMP_MINLEN_def)
qed

lemma reply_seq_v6:
  assumes "80 \<le> length rest"
  shows "reply_seq pid False (Some (echo_packet ICMP6_ECHO_REPLY ck pid seq rest)) = Some seq"
  using assms by (simp add: reply_seq_def echo_packet_fields ICMP6_ECHO_REPLY_def ICMP6_ECHO_SIZE_def)

text \<open>An answer is accepted once: the end of the check removes it from the map.\<close>

lemma ping_pass_clears:
  assumes live: "live fuel w" and att: "attached hc w" and run: "ping_end_check r fuel try_send hc w = Inr w'"
  shows "seq_map w' = (seq_map w)(get_ping_seq (get_hc hc w) := None)"
proof -
  let ?w = "w\<lparr>seq_map := (seq_map w)(get_ping_seq (get_hc hc w) := None)\<rparr>"
  have k: "keeps fuel w ?w" by (rule keeps_clear_seq)
  have lw: "live fuel ?w" "attached hc ?w" using keeps_live [OF k live att] by simp_all
  have r: "r \<noteq> HC_PANIC" using run by (auto simp: ping_end_check_def end_check_eq)
  obtain w1 where "end_check fuel try_send hc r ?w = Inr w1" "same_globals ?w w1"
    using end_check_live [OF lw r, of try_send] by blast
  then show ?thesis using run by (simp add: ping_end_check_def same_globals_def)
qed

text \<open>
  A late answer, after the check has timed out, is ignored: the number of the check was set to 0.
\<close>

lemma ping_finalize_timeout:
  assumes live: "live fuel w" and att: "attached hc w" and t: "derived (get_hc hc w) = Ping t"
    and run: "is_running (get_hc hc w)" "timeout_to_ms (get_hc hc w) < timespec_diff_ms now (last_checked (get_hc hc w))"
  obtains w' where "ping_finalize now fuel try_send hc w = Inr w'" "\<not> is_running (get_hc hc w')"
    "last_state (get_hc hc w') = HC_STATE_DOWN" "get_ping_seq (get_hc hc w') = 0" "seq_map w' = (seq_map w)(0 := None)"
    "ping_id w' = ping_id w"
proof -
  define w1 where "w1 = upd_hc hc (upd_ping (\<lambda>t. t\<lparr>ping_my_seq := 0\<rparr>)) w"
  have k: "keeps fuel w w1" unfolding w1_def by (rule keeps_upd_hc) simp_all
  define w2 where "w2 = w1\<lparr>seq_map := (seq_map w1)(get_ping_seq (get_hc hc w1) := None)\<rparr>"
  have "keeps fuel w1 w2" unfolding w2_def by (rule keeps_clear_seq)
  then have k2: "keeps fuel w w2" using k keeps_trans by blast
  have lw: "live fuel w2" "attached hc w2" using keeps_live [OF k2 live att] by simp_all
  obtain w' where w': "end_check fuel try_send hc HC_FAIL w2 = Inr w'" "same_globals w2 w'"
    "\<And>h. get_hc h w' = (if h = hc then with_result (result_state HC_FAIL) (get_hc hc w2) else get_hc h w2)"
    using end_check_live [OF lw, of HC_FAIL try_send] by blast
  have h2: "get_hc hc w2 = upd_ping (\<lambda>t. t\<lparr>ping_my_seq := 0\<rparr>) (get_hc hc w)"
    by (simp add: w2_def w1_def get_hc_def upd_hc_def)
  have seq: "get_ping_seq (get_hc hc w2) = 0" "get_ping_seq (get_hc hc w1) = 0"
    using t by (simp_all add: h2 w1_def get_ping_seq_def upd_ping_def)
  have "ping_finalize now fuel try_send hc w = Inr w'"
    using run w'(1) by (simp add: ping_finalize_def Let_def ping_end_check_def flip: w1_def w2_def)
  moreover have "get_ping_seq (get_hc hc w') = 0" "\<not> is_running (get_hc hc w')" "last_state (get_hc hc w') = HC_STATE_DOWN"
    using seq by (simp_all add: w'(3) with_result_def get_ping_seq_def result_state_def)
  moreover have "seq_map w' = (seq_map w)(0 := None)" "ping_id w' = ping_id w"
    using w'(2) seq by (simp_all add: same_globals_def w2_def) (simp_all add: w1_def upd_hc_def)
  ultimately show ?thesis using that by blast
qed

section \<open>A check that sends its request\<close>

text \<open>The reply of a host: the header with another type and checksum, the rest echoed.\<close>

definition echo_reply :: "string \<Rightarrow> nat \<Rightarrow> string \<Rightarrow> string \<Rightarrow> string" where
  "echo_reply iph type ck request = iph @ [char_of type, NUL] @ ck @ drop 4 request"

lemma echo_packet_reply:
  assumes "length ck = 2"
  obtains c where "echo_reply iph type ck (echo_packet type' c' pid seq rest) = iph @ echo_packet type c pid seq rest"
proof -
  obtain a b where ck: "ck = [a, b]" using assms by (cases ck; cases "tl ck") auto
  define c :: "16 word" where "c = word_of_nat (of_char a + 256 * of_char b)"
  have "unat c = of_char a + 256 * of_char b"
    using of_char_bound [of a] of_char_bound [of b] unfolding c_def by (subst unat_of_nat) (simp add: take_bit_eq_mod)
  then have "char_of (unat c mod 256) = a" "char_of (unat c div 256) = b"
    using of_char_bound [of a] by (simp_all)
  then have "echo_reply iph type ck (echo_packet type' c' pid seq rest) = iph @ echo_packet type c pid seq rest"
    by (simp add: echo_reply_def echo_packet_def ck)
  then show ?thesis by (rule that)
qed

lemma icmp4_request_verifies: "in_cksum (icmp4_request pid seq now) = 0"
  unfolding icmp4_request_def
  by (rule echo_request_verifies) (simp add: echo_data_def le64_def ICMP_FILL_DATA_def)

lemma ping_started:
  assumes t: "derived (get_hc hc w) = Ping t" and start: "fst (schedule_healthcheck now (get_hc hc w))"
    and fam: "address_family (get_hc hc w) = AF_INET"
  obtains w' where "ping_schedule_healthcheck now fuel try_send hc w = Inr w'"
    "sent_packets w' = sent_packets w @ [(hc, icmp4_request (ping_id w) (ping_global_seq w + 1) now)]"
    "seq_map w' = (seq_map w)(ping_global_seq w + 1 := Some hc)" "get_ping_seq (get_hc hc w') = ping_global_seq w + 1"
    "ping_id w' = ping_id w"
proof -
  define w1 where "w1 = upd_hc hc (\<lambda>h. snd (schedule_healthcheck now h)) w"
  define v where "v = w1\<lparr>ping_global_seq := ping_global_seq w1 + 1\<rparr>"
  define w2 where "w2 = upd_hc hc (upd_ping (\<lambda>t. t\<lparr>ping_my_seq := ping_global_seq v\<rparr>)) v"
  define w3 where "w3 = w2\<lparr>seq_map := (seq_map w2)(get_ping_seq (get_hc hc w2) := Some hc)\<rparr>"
  have g: "ping_global_seq v = ping_global_seq w + 1" "seq_map v = seq_map w" "sent_packets v = sent_packets w" "ping_id v = ping_id w"
    by (simp_all add: v_def w1_def upd_hc_def)
  have g2: "seq_map w2 = seq_map w" "sent_packets w2 = sent_packets w" "ping_id w2 = ping_id w"
    using g by (simp_all add: w2_def upd_hc_def)
  have h1: "get_hc hc v = (get_hc hc w)\<lparr>last_checked := now, is_running := True\<rparr>"
    using schedule_healthcheck_True [OF start] by (simp add: v_def w1_def get_hc_def upd_hc_def)
  have h2: "get_ping_seq (get_hc hc w2) = ping_global_seq w + 1" "address_family (get_hc hc w2) = AF_INET"
    using t fam by (simp_all add: w2_def h1 g get_ping_seq_def upd_ping_def)
  have h3: "get_hc hc w3 = get_hc hc w2" by (simp add: w3_def get_hc_def)
  have "ping_schedule_healthcheck now fuel try_send hc w = Inr (send_echo now hc w3)"
    using start unfolding ping_schedule_healthcheck_def schedule_base_def Let_def prod.case
      w1_def [symmetric] v_def [symmetric] w2_def [symmetric] w3_def [symmetric] by simp
  moreover have "send_echo now hc w3 = send_packet hc (icmp4_request (ping_id w) (ping_global_seq w + 1) now) w3"
    using h2 by (simp add: send_echo_def h3 Let_def) (simp add: w3_def g2)
  ultimately show ?thesis
    using that [of "send_packet hc (icmp4_request (ping_id w) (ping_global_seq w + 1) now) w3"] h2 g2 by (simp add: h3) (simp add: w3_def)
qed

end
