(* ===== verification/Hc_Postgres.thy ===== *)
theory Hc_Postgres
  imports Hc_Dns
begin

text \<open>
  The Postgres check (\<open>healthcheck_postgres.cpp\<close>): a chain of steps driven by events of the
  connection's socket. The answers of libpq and libevent during one event are a record; there is a
  field for every call the code makes.
\<close>

section \<open>The operations\<close>

datatype conn_status = CONNECTION_OK | CONNECTION_BAD | CONNECTION_OTHER

datatype poll_status =
    PGRES_POLLING_READING
  | PGRES_POLLING_WRITING
  | PGRES_POLLING_FAILED
  | PGRES_POLLING_OK
  | PGRES_POLLING_ACTIVE

record pq_answers =
  timeout_event_created :: bool
  timeout_event_added :: bool
  start_allocated :: bool
  start_status :: conn_status
  set_nonblocking_failed :: bool
  socket_matches :: bool
  nonblocking :: bool
  poll_status1 :: conn_status
  poll_status2 :: conn_status
  connect_poll :: poll_status
  connect_poll_again :: poll_status
  send_status :: conn_status
  send_busy :: bool
  send_accepted :: bool
  flush_status :: conn_status
  flush_busy :: bool
  flush_consumed :: bool
  flush_pending :: bool
  handle_status :: conn_status
  handle_consumed :: bool
  handle_busy :: bool
  tuples_ok :: bool
  ntuples :: int
  nfields :: int
  fformat :: int
  cell :: string
  io_event_created :: bool
  io_event_added :: bool

definition upd_pg :: "(Healthcheck_postgres \<Rightarrow> Healthcheck_postgres) \<Rightarrow> Healthcheck \<Rightarrow> Healthcheck" where
  "upd_pg f h = (case derived h of Postgres t \<Rightarrow> h\<lparr>derived := Postgres (f t)\<rparr> | _ \<Rightarrow> h)"

definition get_pg :: "Healthcheck \<Rightarrow> Healthcheck_postgres option" where
  "get_pg h = (case derived h of Postgres t \<Rightarrow> Some t | _ \<Rightarrow> None)"

text \<open>The constructor; \<open>result\<close> is initialised in the header, the other pointers are not.\<close>

definition pg_init :: "('j, 'z) hc_env_scheme \<Rightarrow> 'j \<Rightarrow> hc_id \<Rightarrow> Healthcheck \<Rightarrow> Healthcheck result" where
  "pg_init env config hc h =
     (let port = safe_get_int (lib env) config ''hc_port'' 5432;
          query = safe_get_string (lib env) config ''hc_query'' ''''
      in
     Inr (h\<lparr>hc_type := ''postgres'',
            log_prefix := ''query: '' @ quoted query @ '' port: '' @ decimal port @ '' host: '' @ hc_ip_address h,
            derived := Postgres
              \<lparr>pg_host = hc_ip_address h,
               pg_port = port,
               pg_dbname = safe_get_string (lib env) config ''hc_dbname'' '''',
               pg_user = safe_get_string (lib env) config ''hc_user'' '''',
               pg_query = query,
               pg_conn = uninit_ptr env hc, pg_result = False, pg_io_event = uninit_ptr env hc,
               pg_timeout_event = uninit_ptr env hc, event_flag = 0, event_counter = 0,
               callback_method = poll_conn_method\<rparr>\<rparr>))"

definition pg_end_check ::
    "HealthcheckResult \<Rightarrow> nat \<Rightarrow> ('q \<Rightarrow> pfctl_msg \<Rightarrow> bool \<times> 'q) \<Rightarrow> hc_id \<Rightarrow> 'q world \<Rightarrow> 'q world result" where
  "pg_end_check result fuel try_send hc w =
     end_check fuel try_send hc result
       (upd_hc hc (upd_pg (\<lambda>t. t\<lparr>pg_result := False, pg_io_event := False, pg_timeout_event := False, pg_conn := False\<rparr>)) w)"

definition register_io_event ::
    "pq_answers \<Rightarrow> 16 word \<Rightarrow> pg_method \<Rightarrow> nat \<Rightarrow> ('q \<Rightarrow> pfctl_msg \<Rightarrow> bool \<times> 'q) \<Rightarrow> hc_id \<Rightarrow> 'q world \<Rightarrow> 'q world result" where
  "register_io_event a flag method fuel try_send hc w =
     (if flag AND NOT (EV_READ OR EV_WRITE) \<noteq> 0 then Inl Assertion_Failed
      else let too_many = (case get_pg (get_hc hc w) of None \<Rightarrow> False | Some t \<Rightarrow> event_counter t > 100);
               w = upd_hc hc (upd_pg (\<lambda>t. t\<lparr>event_counter := event_counter t + 1\<rparr>)) w
           in if too_many then pg_end_check HC_PANIC fuel try_send hc w
              else let w = upd_hc hc (upd_pg (\<lambda>t. t\<lparr>callback_method := method, pg_io_event := io_event_created a\<rparr>)) w
                   in if \<not> io_event_created a then pg_end_check HC_PANIC fuel try_send hc w
                      else if \<not> io_event_added a then pg_end_check HC_PANIC fuel try_send hc w
                      else Inr w)"

definition register_timeout_event ::
    "pq_answers \<Rightarrow> nat \<Rightarrow> ('q \<Rightarrow> pfctl_msg \<Rightarrow> bool \<times> 'q) \<Rightarrow> hc_id \<Rightarrow> 'q world \<Rightarrow> 'q world result" where
  "register_timeout_event a fuel try_send hc w =
     (let w = upd_hc hc (upd_pg (\<lambda>t. t\<lparr>pg_timeout_event := timeout_event_created a\<rparr>)) w
      in if \<not> timeout_event_created a then pg_end_check HC_PANIC fuel try_send hc w
         else if \<not> timeout_event_added a then pg_end_check HC_PANIC fuel try_send hc w
         else Inr w)"

definition start_conn ::
    "pq_answers \<Rightarrow> nat \<Rightarrow> ('q \<Rightarrow> pfctl_msg \<Rightarrow> bool \<times> 'q) \<Rightarrow> hc_id \<Rightarrow> 'q world \<Rightarrow> 'q world result" where
  "start_conn a fuel try_send hc w =
     (let w = upd_hc hc (upd_pg (\<lambda>t. t\<lparr>pg_conn := start_allocated a\<rparr>)) w
      in if \<not> start_allocated a then pg_end_check HC_PANIC fuel try_send hc w
         else if start_status a = CONNECTION_BAD then pg_end_check HC_FAIL fuel try_send hc w
         else if set_nonblocking_failed a then pg_end_check HC_PANIC fuel try_send hc w
         else register_io_event a EV_WRITE poll_conn_method fuel try_send hc w)"

definition flush_query ::
    "pq_answers \<Rightarrow> nat \<Rightarrow> ('q \<Rightarrow> pfctl_msg \<Rightarrow> bool \<times> 'q) \<Rightarrow> hc_id \<Rightarrow> 'q world \<Rightarrow> 'q world result" where
  "flush_query a fuel try_send hc w =
     (if \<not> (flush_status a = CONNECTION_OK \<and> flush_busy a \<and> nonblocking a) then Inl Assertion_Failed
      else if map_option event_flag (get_pg (get_hc hc w)) = Some EV_READ \<and> \<not> flush_consumed a
      then pg_end_check HC_FAIL fuel try_send hc w
      else if flush_pending a then register_io_event a (EV_READ OR EV_WRITE) flush_query_method fuel try_send hc w
      else register_io_event a EV_READ handle_query_method fuel try_send hc w)"

definition send_query ::
    "pq_answers \<Rightarrow> nat \<Rightarrow> ('q \<Rightarrow> pfctl_msg \<Rightarrow> bool \<times> 'q) \<Rightarrow> hc_id \<Rightarrow> 'q world \<Rightarrow> 'q world result" where
  "send_query a fuel try_send hc w =
     (if \<not> (send_status a = CONNECTION_OK \<and> \<not> send_busy a \<and> nonblocking a) then Inl Assertion_Failed
      else if \<not> send_accepted a then register_io_event a EV_WRITE send_query_method fuel try_send hc w
      else flush_query a fuel try_send hc w)"

definition poll_conn ::
    "pq_answers \<Rightarrow> nat \<Rightarrow> ('q \<Rightarrow> pfctl_msg \<Rightarrow> bool \<times> 'q) \<Rightarrow> hc_id \<Rightarrow> 'q world \<Rightarrow> 'q world result" where
  "poll_conn a fuel try_send hc w =
     (if \<not> (poll_status1 a \<noteq> CONNECTION_OK \<and> poll_status2 a \<noteq> CONNECTION_BAD \<and> nonblocking a) then Inl Assertion_Failed
      else case connect_poll a of
             PGRES_POLLING_READING \<Rightarrow> register_io_event a EV_READ poll_conn_method fuel try_send hc w
           | PGRES_POLLING_WRITING \<Rightarrow> register_io_event a EV_WRITE poll_conn_method fuel try_send hc w
           | PGRES_POLLING_FAILED \<Rightarrow> pg_end_check HC_FAIL fuel try_send hc w
           | _ \<Rightarrow> if connect_poll_again a \<noteq> PGRES_POLLING_OK then Inl Assertion_Failed
                  else send_query a fuel try_send hc w)"

text \<open>The verdict on the result of the query; \<open>None\<close> is the failed assertion on the format.\<close>

definition query_verdict :: "pq_answers \<Rightarrow> HealthcheckResult option" where
  "query_verdict a =
     (if \<not> tuples_ok a then Some HC_FAIL
      else if ntuples a \<noteq> 1 then Some HC_FAIL
      else if nfields a \<noteq> 1 then Some HC_FAIL
      else if fformat a \<noteq> 0 then None
      else if length (c_str (cell a)) \<noteq> 1 then Some HC_FAIL
      else if c_str (cell a) ! 0 \<noteq> CHR ''t'' then Some HC_FAIL
      else Some HC_PASS)"

definition handle_query ::
    "pq_answers \<Rightarrow> nat \<Rightarrow> ('q \<Rightarrow> pfctl_msg \<Rightarrow> bool \<times> 'q) \<Rightarrow> hc_id \<Rightarrow> 'q world \<Rightarrow> 'q world result" where
  "handle_query a fuel try_send hc w =
     (if \<not> (map_option event_flag (get_pg (get_hc hc w)) = Some EV_READ \<and>
            handle_status a = CONNECTION_OK \<and> nonblocking a) then Inl Assertion_Failed
      else if \<not> handle_consumed a then pg_end_check HC_FAIL fuel try_send hc w
      else if handle_busy a then Inl Assertion_Failed
      else let w = upd_hc hc (upd_pg (\<lambda>t. t\<lparr>pg_result := True\<rparr>)) w
           in case query_verdict a of
                None \<Rightarrow> Inl Assertion_Failed
              | Some result \<Rightarrow> pg_end_check result fuel try_send hc w)"

definition handle_io_event ::
    "pq_answers \<Rightarrow> 16 word \<Rightarrow> nat \<Rightarrow> ('q \<Rightarrow> pfctl_msg \<Rightarrow> bool \<times> 'q) \<Rightarrow> hc_id \<Rightarrow> 'q world \<Rightarrow> 'q world result" where
  "handle_io_event a flag fuel try_send hc w =
     (if \<not> (socket_matches a \<and> (flag = EV_READ \<or> flag = EV_WRITE) \<and> is_running (get_hc hc w)) then Inl Assertion_Failed
      else let w = upd_hc hc (upd_pg (\<lambda>t. t\<lparr>pg_io_event := False, event_flag := flag\<rparr>)) w
           in case map_option callback_method (get_pg (get_hc hc w)) of
                None \<Rightarrow> Inr w
              | Some poll_conn_method \<Rightarrow> poll_conn a fuel try_send hc w
              | Some send_query_method \<Rightarrow> send_query a fuel try_send hc w
              | Some flush_query_method \<Rightarrow> flush_query a fuel try_send hc w
              | Some handle_query_method \<Rightarrow> handle_query a fuel try_send hc w)"

definition handle_timeout_event ::
    "16 word \<Rightarrow> nat \<Rightarrow> ('q \<Rightarrow> pfctl_msg \<Rightarrow> bool \<times> 'q) \<Rightarrow> hc_id \<Rightarrow> 'q world \<Rightarrow> 'q world result" where
  "handle_timeout_event flag fuel try_send hc w =
     (if \<not> (flag = EV_TIMEOUT \<and> is_running (get_hc hc w)) then Inl Assertion_Failed
      else pg_end_check HC_FAIL fuel try_send hc (upd_hc hc (upd_pg (\<lambda>t. t\<lparr>event_flag := flag\<rparr>)) w))"

definition pg_schedule_healthcheck ::
    "(hc_id \<Rightarrow> pq_answers) \<Rightarrow> timespec \<Rightarrow> nat \<Rightarrow> ('q \<Rightarrow> pfctl_msg \<Rightarrow> bool \<times> 'q) \<Rightarrow> hc_id \<Rightarrow> 'q world \<Rightarrow> 'q world result" where
  "pg_schedule_healthcheck ans now fuel try_send hc w =
     (case schedule_base now hc w of (ok, w) \<Rightarrow>
        if ok then
          let w = upd_hc hc (upd_pg (\<lambda>t. t\<lparr>event_counter := 0, event_flag := 0, pg_io_event := False,
                                           pg_timeout_event := False\<rparr>)) w
          in bind_result (register_timeout_event (ans hc) fuel try_send hc w)
               (start_conn (ans hc) fuel try_send hc)
        else Inr w)"

section \<open>What the operations keep\<close>

lemma upd_pg_fields [simp]:
  "hard_state (upd_pg f h) = hard_state h" "parent_lbnode (upd_pg f h) = parent_lbnode h"
  "is_running (upd_pg f h) = is_running h"
  "get_pg (upd_pg f h) = map_option f (get_pg h)"
  by (simp_all add: upd_pg_def get_pg_def split: derived.split)

text \<open>Errors by which a step may end the program: a panic, or an assertion on the answers.\<close>

definition pg_fatal :: "error set" where
  "pg_fatal = {Exit 2, Assertion_Failed}"

text \<open>
  A check between two of its events: it has a connection, an I/O event and the timeout event are
  registered, and it has registered \<open>n\<close> I/O events since it was started.
\<close>

definition pending :: "int \<Rightarrow> Healthcheck \<Rightarrow> bool" where
  "pending n h \<longleftrightarrow>
     (\<exists>t. get_pg h = Some t \<and> pg_conn t \<and> pg_io_event t \<and> pg_timeout_event t \<and> event_counter t = n \<and> n \<le> 101)"

text \<open>A check inside one of its steps: the I/O event was consumed.\<close>

definition stepping :: "int \<Rightarrow> Healthcheck \<Rightarrow> bool" where
  "stepping n h \<longleftrightarrow>
     (\<exists>t. get_pg h = Some t \<and> pg_conn t \<and> pg_timeout_event t \<and> event_counter t = n)"

definition pg_outcome :: "int \<Rightarrow> nat \<Rightarrow> hc_id \<Rightarrow> 'q world \<Rightarrow> 'q world result \<Rightarrow> bool" where
  "pg_outcome n fuel hc w r \<longleftrightarrow>
     (case r of
        Inl e \<Rightarrow> e \<in> pg_fatal
      | Inr w' \<Rightarrow> keeps fuel w w' \<and> (is_running (get_hc hc w') \<longrightarrow> pending (n + 1) (get_hc hc w')))"

lemma pg_end_check_outcome:
  assumes "live fuel w" "attached hc w"
  shows "pg_outcome n fuel hc w (pg_end_check r fuel try_send hc w)"
proof (cases "r = HC_PANIC")
  case True
  then show ?thesis by (simp add: pg_end_check_def end_check_eq pg_outcome_def pg_fatal_def)
next
  case False
  let ?w = "upd_hc hc (upd_pg (\<lambda>t. t\<lparr>pg_result := False, pg_io_event := False, pg_timeout_event := False, pg_conn := False\<rparr>)) w"
  have k: "keeps fuel w ?w" by (rule keeps_upd_hc) simp_all
  have lw: "live fuel ?w" "attached hc ?w" using keeps_live [OF k assms] by simp_all
  obtain w' where w': "end_check fuel try_send hc r ?w = Inr w'" "live fuel w'" "same_config ?w w'"
    "\<And>h. get_hc h w' = (if h = hc then with_result (result_state r) (get_hc hc ?w) else get_hc h ?w)"
    using end_check_live [OF lw False, of try_send] by blast
  have "keeps fuel ?w w'" using w' by (simp add: keeps_def)
  then have "keeps fuel w w'" using k keeps_trans by blast
  moreover have "\<not> is_running (get_hc hc w')" by (simp add: w'(4) with_result_def)
  ultimately show ?thesis using w'(1) by (simp add: pg_end_check_def pg_outcome_def)
qed

lemma pg_outcome_after: "keeps fuel w w1 \<Longrightarrow> pg_outcome n fuel hc w1 r \<Longrightarrow> pg_outcome n fuel hc w r"
  by (auto simp: pg_outcome_def intro: keeps_trans split: sum.splits)

lemma pg_outcome_outcome: "pg_outcome n fuel hc w r \<Longrightarrow> outcome pg_fatal fuel w r"
  by (auto simp: pg_outcome_def outcome_def split: sum.splits)

text \<open>A change of the members of the check, followed by a step.\<close>

lemma keeps_upd_pg [simp]: "keeps fuel w (upd_hc hc (upd_pg f) w)"
  by (rule keeps_upd_hc) simp_all

lemma pg_after_update:
  assumes "live fuel w" "attached hc w"
    and "live fuel (upd_hc hc (upd_pg f) w) \<Longrightarrow> attached hc (upd_hc hc (upd_pg f) w) \<Longrightarrow>
         pg_outcome n fuel hc (upd_hc hc (upd_pg f) w) r"
  shows "pg_outcome n fuel hc w r"
  using assms pg_outcome_after [OF keeps_upd_pg] keeps_live [OF keeps_upd_pg, of fuel w hc] by blast

lemma register_io_event_outcome:
  assumes l: "live fuel w" "attached hc w" and s: "stepping n (get_hc hc w)"
  shows "pg_outcome n fuel hc w (register_io_event a flag method fuel try_send hc w)"
proof -
  obtain t where t: "get_pg (get_hc hc w) = Some t" "pg_conn t" "pg_timeout_event t" "event_counter t = n"
    using s by (auto simp: stepping_def)
  let ?w1 = "upd_hc hc (upd_pg (\<lambda>t. t\<lparr>event_counter := event_counter t + 1\<rparr>)) w"
  let ?w2 = "upd_hc hc (upd_pg (\<lambda>t. t\<lparr>callback_method := method, pg_io_event := io_event_created a\<rparr>)) ?w1"
  have panic: "pg_outcome n fuel hc w (pg_end_check HC_PANIC fuel try_send hc w')" for w'
    by (simp add: pg_end_check_def end_check_eq pg_outcome_def pg_fatal_def)
  have k: "keeps fuel w ?w2" by (rule keeps_trans [OF keeps_upd_pg keeps_upd_pg])
  have "pg_outcome n fuel hc w (Inr ?w2)" if "n \<le> 100" "io_event_created a"
    using k t that by (simp add: pg_outcome_def pending_def)
  then show ?thesis
    using panic t by (auto simp: register_io_event_def Let_def pg_outcome_def pg_fatal_def)
qed

lemma pg_assertion [simp]: "pg_outcome n fuel hc w (Inl Assertion_Failed)"
  by (simp add: pg_outcome_def pg_fatal_def)

lemma stepping_upd:
  assumes "stepping n (get_hc hc w)"
    and "\<And>t. pg_conn (f t) = pg_conn t \<and> pg_timeout_event (f t) = pg_timeout_event t \<and> event_counter (f t) = event_counter t"
  shows "stepping n (get_hc hc (upd_hc hc (upd_pg f) w))"
  using assms by (auto simp: stepping_def)

lemmas pg_steps = register_io_event_outcome pg_end_check_outcome

lemma flush_query_outcome:
  assumes "live fuel w" "attached hc w" "stepping n (get_hc hc w)"
  shows "pg_outcome n fuel hc w (flush_query a fuel try_send hc w)"
  using assms by (simp add: flush_query_def pg_steps)

lemma send_query_outcome:
  assumes "live fuel w" "attached hc w" "stepping n (get_hc hc w)"
  shows "pg_outcome n fuel hc w (send_query a fuel try_send hc w)"
  using assms by (simp add: send_query_def pg_steps flush_query_outcome)

lemma poll_conn_outcome:
  assumes "live fuel w" "attached hc w" "stepping n (get_hc hc w)"
  shows "pg_outcome n fuel hc w (poll_conn a fuel try_send hc w)"
  using assms by (simp add: poll_conn_def pg_steps send_query_outcome split: poll_status.split)

lemma handle_query_outcome:
  assumes l: "live fuel w" "attached hc w"
  shows "pg_outcome n fuel hc w (handle_query a fuel try_send hc w)"
proof -
  have "pg_outcome n fuel hc w (pg_end_check r fuel try_send hc (upd_hc hc (upd_pg f) w))" for r f
    by (rule pg_after_update [OF l]) (rule pg_end_check_outcome)
  then show ?thesis
    using l by (auto simp: handle_query_def Let_def pg_end_check_outcome split: option.split)
qed

lemma handle_io_event_outcome:
  assumes l: "live fuel w" "attached hc w" and p: "pending n (get_hc hc w)"
  shows "pg_outcome n fuel hc w (handle_io_event a flag fuel try_send hc w)"
proof -
  let ?w = "upd_hc hc (upd_pg (\<lambda>t. t\<lparr>pg_io_event := False, event_flag := flag\<rparr>)) w"
  have s: "stepping n (get_hc hc ?w)" using p by (auto simp: pending_def stepping_def)
  obtain t where "get_pg (get_hc hc ?w) = Some t" using s by (auto simp: stepping_def)
  moreover have "pg_outcome n fuel hc w (poll_conn a fuel try_send hc ?w)"
    by (rule pg_after_update [OF l]) (rule poll_conn_outcome [OF _ _ s])
  moreover have "pg_outcome n fuel hc w (send_query a fuel try_send hc ?w)"
    by (rule pg_after_update [OF l]) (rule send_query_outcome [OF _ _ s])
  moreover have "pg_outcome n fuel hc w (flush_query a fuel try_send hc ?w)"
    by (rule pg_after_update [OF l]) (rule flush_query_outcome [OF _ _ s])
  moreover have "pg_outcome n fuel hc w (handle_query a fuel try_send hc ?w)"
    by (rule pg_after_update [OF l]) (rule handle_query_outcome)
  ultimately show ?thesis
    by (cases "callback_method t") (simp_all add: handle_io_event_def Let_def del: store_reads)
qed

lemma handle_timeout_event_outcome:
  assumes l: "live fuel w" "attached hc w"
  shows "pg_outcome n fuel hc w (handle_timeout_event flag fuel try_send hc w)"
proof -
  have "pg_outcome n fuel hc w (pg_end_check HC_FAIL fuel try_send hc (upd_hc hc (upd_pg f) w))" for f
    by (rule pg_after_update [OF l]) (rule pg_end_check_outcome)
  then show ?thesis by (simp add: handle_timeout_event_def)
qed

lemma register_timeout_event_cases:
  obtains "register_timeout_event a fuel try_send hc w = Inl (Exit 2)"
  | "register_timeout_event a fuel try_send hc w = Inr (upd_hc hc (upd_pg (\<lambda>t. t\<lparr>pg_timeout_event := True\<rparr>)) w)"
  by (cases "timeout_event_created a \<and> timeout_event_added a")
     (auto simp: register_timeout_event_def Let_def pg_end_check_def end_check_eq)

lemma start_conn_outcome:
  assumes l: "live fuel w" "attached hc w" and t: "get_pg (get_hc hc w) = Some t" "pg_timeout_event t"
  shows "pg_outcome (event_counter t) fuel hc w (start_conn a fuel try_send hc w)"
proof -
  let ?w = "upd_hc hc (upd_pg (\<lambda>t. t\<lparr>pg_conn := start_allocated a\<rparr>)) w"
  have panic: "pg_outcome n fuel hc w (pg_end_check HC_PANIC fuel try_send hc w')" for n w'
    by (simp add: pg_end_check_def end_check_eq pg_outcome_def pg_fatal_def)
  have "pg_outcome (event_counter t) fuel hc w (pg_end_check HC_FAIL fuel try_send hc ?w)"
    by (rule pg_after_update [OF l]) (rule pg_end_check_outcome)
  moreover have "pg_outcome (event_counter t) fuel hc w (register_io_event a EV_WRITE poll_conn_method fuel try_send hc ?w)"
    if "start_allocated a"
    using that t
    by (intro pg_after_update [OF l, of "\<lambda>t. t\<lparr>pg_conn := start_allocated a\<rparr>"] register_io_event_outcome)
       (simp_all add: stepping_def)
  ultimately show ?thesis using panic unfolding start_conn_def Let_def by (auto split: if_splits)
qed

text \<open>A started check registers its first event, or has ended.\<close>

lemma pg_start_outcome:
  assumes l: "live fuel w" "attached hc w" and t: "get_pg (get_hc hc w) = Some t"
    and start: "fst (schedule_healthcheck now (get_hc hc w))"
  shows "pg_outcome 0 fuel hc w (pg_schedule_healthcheck ans now fuel try_send hc w)"
proof -
  let ?w1 = "snd (schedule_base now hc w)"
  define w2 where "w2 = upd_hc hc (upd_pg (\<lambda>t. t\<lparr>event_counter := 0, event_flag := 0, pg_io_event := False,
      pg_timeout_event := False\<rparr>)) ?w1"
  define w3 where "w3 = upd_hc hc (upd_pg (\<lambda>t. t\<lparr>pg_timeout_event := True\<rparr>)) w2"
  have k: "keeps fuel w w3"
    unfolding w3_def w2_def by (rule keeps_trans [OF schedule_base_keeps keeps_trans [OF keeps_upd_pg keeps_upd_pg]])
  have "get_pg (get_hc hc ?w1) = Some t" using t by (simp add: schedule_base_def get_pg_def)
  then obtain t3 where t3: "get_pg (get_hc hc w3) = Some t3" "pg_timeout_event t3" "event_counter t3 = 0"
    by (auto simp: w3_def w2_def)
  have "pg_outcome 0 fuel hc w3 (start_conn (ans hc) fuel try_send hc w3)"
    using start_conn_outcome [OF _ _ t3(1,2)] keeps_live [OF k l] t3(3) by simp
  then have fin: "pg_outcome 0 fuel hc w (start_conn (ans hc) fuel try_send hc w3)"
    by (rule pg_outcome_after [OF k])
  have eq: "pg_schedule_healthcheck ans now fuel try_send hc w =
      bind_result (register_timeout_event (ans hc) fuel try_send hc w2) (start_conn (ans hc) fuel try_send hc)"
    using start by (simp add: pg_schedule_healthcheck_def w2_def case_prod_beta) (simp add: schedule_base_def)
  show ?thesis
    using fin eq
    by (cases rule: register_timeout_event_cases [of "ans hc" fuel try_send hc w2])
       (simp_all add: pg_outcome_def pg_fatal_def w3_def)
qed

section \<open>The interface to the rest of the program\<close>

text \<open>Whatever state the check is in, an event leaves the rest of the program intact.\<close>

lemma pg_panic_keeps: "outcome pg_fatal fuel w (pg_end_check HC_PANIC fuel try_send hc w')"
  by (simp add: pg_end_check_def end_check_eq pg_fatal_def)

lemma pg_end_check_keeps:
  "live fuel w \<Longrightarrow> attached hc w \<Longrightarrow> outcome pg_fatal fuel w (pg_end_check r fuel try_send hc w)"
  by (rule pg_outcome_outcome [OF pg_end_check_outcome])

lemma keeps_after_update:
  assumes "live fuel w" "attached hc w"
    and "live fuel (upd_hc hc (upd_pg f) w) \<Longrightarrow> attached hc (upd_hc hc (upd_pg f) w) \<Longrightarrow>
         outcome E fuel (upd_hc hc (upd_pg f) w) r"
  shows "outcome E fuel w r"
  using assms outcome_after [OF keeps_upd_pg] keeps_live [OF keeps_upd_pg, of fuel w hc] by blast

lemma assertion_fatal [simp]: "Assertion_Failed \<in> pg_fatal"
  by (simp add: pg_fatal_def)

lemma register_io_event_keeps: "outcome pg_fatal fuel w (register_io_event a flag method fuel try_send hc w)"
proof -
  have "keeps fuel w (upd_hc hc (upd_pg f) (upd_hc hc (upd_pg g) w))" for f g
    by (rule keeps_trans [OF keeps_upd_pg keeps_upd_pg])
  then show ?thesis by (auto simp: register_io_event_def Let_def pg_panic_keeps)
qed

lemma flush_query_keeps:
  "live fuel w \<Longrightarrow> attached hc w \<Longrightarrow> outcome pg_fatal fuel w (flush_query a fuel try_send hc w)"
  by (simp add: flush_query_def register_io_event_keeps pg_end_check_keeps)

lemma send_query_keeps:
  "live fuel w \<Longrightarrow> attached hc w \<Longrightarrow> outcome pg_fatal fuel w (send_query a fuel try_send hc w)"
  by (simp add: send_query_def register_io_event_keeps flush_query_keeps)

lemma poll_conn_keeps:
  "live fuel w \<Longrightarrow> attached hc w \<Longrightarrow> outcome pg_fatal fuel w (poll_conn a fuel try_send hc w)"
  by (simp add: poll_conn_def register_io_event_keeps send_query_keeps pg_end_check_keeps split: poll_status.split)

lemma start_conn_keeps:
  assumes "live fuel w" "attached hc w"
  shows "outcome pg_fatal fuel w (start_conn a fuel try_send hc w)"
  unfolding start_conn_def Let_def
  by (rule keeps_after_update [OF assms, of "\<lambda>t. t\<lparr>pg_conn := start_allocated a\<rparr>"])
     (auto intro: pg_panic_keeps pg_end_check_keeps register_io_event_keeps)

interpretation pg_io: hc_operation "handle_io_event a flag" pg_fatal for a flag
proof
  fix fuel :: nat and w :: "'a world" and hc try_send
  assume l: "live fuel w" "attached hc w"
  have "outcome pg_fatal fuel w (poll_conn a fuel try_send hc (upd_hc hc (upd_pg f) w))" for f
    by (rule keeps_after_update [OF l]) (rule poll_conn_keeps)
  moreover have "outcome pg_fatal fuel w (send_query a fuel try_send hc (upd_hc hc (upd_pg f) w))" for f
    by (rule keeps_after_update [OF l]) (rule send_query_keeps)
  moreover have "outcome pg_fatal fuel w (flush_query a fuel try_send hc (upd_hc hc (upd_pg f) w))" for f
    by (rule keeps_after_update [OF l]) (rule flush_query_keeps)
  moreover have "outcome pg_fatal fuel w (handle_query a fuel try_send hc (upd_hc hc (upd_pg f) w))" for f
    by (rule keeps_after_update [OF l]) (rule pg_outcome_outcome [OF handle_query_outcome [where n = 0]])
  ultimately show "outcome pg_fatal fuel w (handle_io_event a flag fuel try_send hc w)"
    by (simp add: handle_io_event_def Let_def split: option.split pg_method.split)
qed

interpretation pg_schedule: hc_operation "pg_schedule_healthcheck ans now" pg_fatal for ans now
proof
  fix fuel :: nat and w :: "'a world" and hc try_send
  assume l: "live fuel w" "attached hc w"
  show "outcome pg_fatal fuel w (pg_schedule_healthcheck ans now fuel try_send hc w)"
    unfolding pg_schedule_healthcheck_def
  proof (rule schedule_outcome [OF l])
    fix w1 :: "'a world" assume l1: "live fuel w1" "attached hc w1"
    define w2 where "w2 = upd_hc hc (upd_pg (\<lambda>t. t\<lparr>event_counter := 0, event_flag := 0, pg_io_event := False,
        pg_timeout_event := False\<rparr>)) w1"
    let ?w3 = "upd_hc hc (upd_pg (\<lambda>t. t\<lparr>pg_timeout_event := True\<rparr>)) w2"
    have k: "keeps fuel w1 ?w3" unfolding w2_def by (rule keeps_trans [OF keeps_upd_pg keeps_upd_pg])
    have "outcome pg_fatal fuel w1 (start_conn (ans hc) fuel try_send hc ?w3)"
      using outcome_after [OF k start_conn_keeps] keeps_live [OF k l1] by blast
    then show "outcome pg_fatal fuel w1
       (let w = upd_hc hc (upd_pg (\<lambda>t. t\<lparr>event_counter := 0, event_flag := 0, pg_io_event := False,
                                           pg_timeout_event := False\<rparr>)) w1
        in bind_result (register_timeout_event (ans hc) fuel try_send hc w)
             (start_conn (ans hc) fuel try_send hc))"
      unfolding Let_def w2_def [symmetric]
      by (cases rule: register_timeout_event_cases [of "ans hc" fuel try_send hc w2]) (simp_all add: pg_fatal_def)
  qed
qed

interpretation pg_timeout: hc_operation "handle_timeout_event flag" pg_fatal for flag
  by unfold_locales (rule pg_outcome_outcome [OF handle_timeout_event_outcome [where n = 0]])

text \<open>The verdict: one row, one column, in text format, with the single letter t.\<close>

lemma query_verdict_pass:
  "query_verdict a = Some HC_PASS \<longleftrightarrow>
     tuples_ok a \<and> ntuples a = 1 \<and> nfields a = 1 \<and> fformat a = 0 \<and> c_str (cell a) = ''t''"
proof -
  have "length s = 1 \<and> s ! 0 = CHR ''t'' \<longleftrightarrow> s = ''t''" for s :: string
    by (cases s) auto
  then show ?thesis by (auto simp: query_verdict_def)
qed

section \<open>A check ends\<close>

text \<open>The events of the socket, delivered one after the other while the check runs.\<close>

fun pg_run ::
    "(pq_answers \<times> 16 word) list \<Rightarrow> nat \<Rightarrow> ('q \<Rightarrow> pfctl_msg \<Rightarrow> bool \<times> 'q) \<Rightarrow> hc_id \<Rightarrow> 'q world \<Rightarrow> 'q world result" where
  "pg_run [] fuel try_send hc w = Inr w"
| "pg_run ((a, flag) # evs) fuel try_send hc w =
     (if \<not> is_running (get_hc hc w) then Inr w
      else bind_result (handle_io_event a flag fuel try_send hc w) (pg_run evs fuel try_send hc))"

lemma pg_run_ends:
  assumes "live fuel w" "attached hc w" "is_running (get_hc hc w) \<longrightarrow> pending n (get_hc hc w)" "101 < n + int (length evs)"
  shows "case pg_run evs fuel try_send hc w of Inl e \<Rightarrow> e \<in> pg_fatal | Inr w' \<Rightarrow> live fuel w' \<and> \<not> is_running (get_hc hc w')"
  using assms
proof (induction evs arbitrary: w n)
  case Nil
  then show ?case by (auto simp: pending_def)
next
  case (Cons e evs)
  obtain a flag where [simp]: "e = (a, flag)" by fastforce
  show ?case
  proof (cases "is_running (get_hc hc w)")
    case True
    then have o: "pg_outcome n fuel hc w (handle_io_event a flag fuel try_send hc w)"
      using Cons.prems by (intro handle_io_event_outcome) simp_all
    show ?thesis
    proof (cases "handle_io_event a flag fuel try_send hc w")
      case (Inl e)
      then show ?thesis using True o by (simp add: pg_outcome_def bind_result_def)
    next
      case (Inr w1)
      then have "keeps fuel w w1" "is_running (get_hc hc w1) \<longrightarrow> pending (n + 1) (get_hc hc w1)"
        using o by (simp_all add: pg_outcome_def)
      with Cons.IH [of w1 "n + 1"] keeps_live [of fuel w w1 hc] Cons.prems True Inr show ?thesis
        by (simp add: bind_result_def)
    qed
  next
    case False
    then show ?thesis using Cons.prems by simp
  qed
qed

end
