(* ===== verification/Pfctl.thy ===== *)
theory Pfctl
  imports Pfctl_Msg
begin

text \<open>
  The commands of \<open>pfctl.cpp\<close>. The program runs \<open>/sbin/pfctl\<close> through \<open>popen\<close>; what that command
  does to the state of the packet filter (of a type \<open>'k\<close>) is not part of the program, so \<open>popen\<close>
  is a parameter: it maps the command line and the state to the output and exit code of the
  process (\<open>None\<close> when it cannot be started) and the next state. \<open>boost_trim\<close> and
  \<open>make_address_ok\<close> stand for the two library functions that read the output, \<open>pf_action\<close> for the
  global switch of the same name.
\<close>

section \<open>The operations\<close>

record 'k pf_sys =
  popen :: "string \<Rightarrow> 'k \<Rightarrow> (string \<times> int) option \<times> 'k"
  boost_trim :: "string \<Rightarrow> string"
  make_address_ok :: "string \<Rightarrow> bool"
  pf_action :: bool

definition newline :: char where
  "newline = CHR 0x0A"

text \<open>One \<open>fgets\<close> with room for \<open>n\<close> characters, and the loop that appends the buffers.\<close>

fun fgets_chunk :: "nat \<Rightarrow> string \<Rightarrow> string \<times> string" where
  "fgets_chunk n [] = ([], [])"
| "fgets_chunk n (c # s) =
     (if n = 0 then ([], c # s)
      else if c = newline then ([c], s)
      else (case fgets_chunk (n - 1) s of (a, b) \<Rightarrow> (c # a, b)))"

lemma fgets_chunk_append: "fst (fgets_chunk n s) @ snd (fgets_chunk n s) = s"
  by (induction n s rule: fgets_chunk.induct) (auto split: prod.splits)

lemma fgets_chunk_progress: "s \<noteq> [] \<Longrightarrow> 0 < n \<Longrightarrow> length (snd (fgets_chunk n s)) < length s"
proof -
  assume "s \<noteq> []" "0 < n"
  then have "fst (fgets_chunk n s) \<noteq> []" by (cases s) (auto split: prod.splits)
  then show ?thesis using fgets_chunk_append [of n s] by (metis length_append length_greater_0_conv less_add_same_cancel2)
qed

function fgets_all :: "string \<Rightarrow> string" where
  "fgets_all s = (if s = [] then [] else c_str (fst (fgets_chunk 1023 s)) @ fgets_all (snd (fgets_chunk 1023 s)))"
  by pat_completeness auto
termination
  by (relation "measure length") (auto intro: fgets_chunk_progress)

declare fgets_all.simps [simp del]

text \<open>The lines \<open>getline\<close> reads.\<close>

function getlines :: "string \<Rightarrow> string list" where
  "getlines s = (if s = [] then []
     else takeWhile (\<lambda>c. c \<noteq> newline) s # getlines (drop 1 (dropWhile (\<lambda>c. c \<noteq> newline) s)))"
  by pat_completeness auto
termination
proof (relation "measure length")
  fix s :: string assume "s \<noteq> []"
  then have "length (drop 1 (dropWhile (\<lambda>c. c \<noteq> newline) s)) < length s"
    using length_dropWhile_le [of "\<lambda>c. c \<noteq> newline" s] by (cases s) (auto simp: le_imp_less_Suc)
  then show "(drop 1 (dropWhile (\<lambda>c. c \<noteq> newline) s), s) \<in> measure length" by simp
qed simp

declare getlines.simps [simp del]

definition pfctl_cmd :: "string list \<Rightarrow> string" where
  "pfctl_cmd args = ''/sbin/pfctl -q'' @ concat (map (\<lambda>arg. '' '' @ arg) args)"

definition pfctl_run_command :: "'k pf_sys \<Rightarrow> string list \<Rightarrow> bool \<Rightarrow> 'k \<Rightarrow> (bool \<times> string list) \<times> 'k" where
  "pfctl_run_command sys args want_lines k =
     (if \<not> pf_action sys then ((True, []), k)
      else case popen sys (pfctl_cmd args) k of
             (None, k) \<Rightarrow> ((False, []), k)
           | (Some (out, ret), k) \<Rightarrow> ((ret = 0, if want_lines then getlines (fgets_all out) else []), k))"

definition pf_table_add :: "'k pf_sys \<Rightarrow> string \<Rightarrow> string list \<Rightarrow> 'k \<Rightarrow> bool \<times> 'k" where
  "pf_table_add sys table addresses k =
     (if length addresses = 0 then (True, k)
      else case pfctl_run_command sys ([''-t'', table, ''-T'', ''add''] @ addresses) False k of
             ((ret, _), k) \<Rightarrow> (ret, k))"

definition pf_table_del :: "'k pf_sys \<Rightarrow> string \<Rightarrow> string list \<Rightarrow> 'k \<Rightarrow> bool \<times> 'k" where
  "pf_table_del sys table addresses k =
     (if length addresses = 0 then (True, k)
      else case pfctl_run_command sys ([''-t'', table, ''-T'', ''del''] @ addresses) False k of
             ((ret, _), k) \<Rightarrow> (ret, k))"

definition pf_kill_src_nodes_to :: "'k pf_sys \<Rightarrow> string \<Rightarrow> string \<Rightarrow> bool \<Rightarrow> 'k \<Rightarrow> bool \<times> 'k" where
  "pf_kill_src_nodes_to sys table address with_states k =
     (case pfctl_run_command sys
             ([''-K'', ''table'', ''-K'', table, ''-K'', ''dsthost'', ''-K'', address] @
              (if with_states then [''-K'', ''kill'', ''-K'', ''rststates''] else [])) False k of
        ((ret, _), k) \<Rightarrow> (ret, k))"

definition pf_kill_states_to_rdr :: "'k pf_sys \<Rightarrow> string \<Rightarrow> string \<Rightarrow> 'k \<Rightarrow> bool \<times> 'k" where
  "pf_kill_states_to_rdr sys table address k =
     (case pfctl_run_command sys
             [''-k'', ''table'', ''-k'', table, ''-k'', ''rdrhost'', ''-k'', address,
              ''-k'', ''kill'', ''-k'', ''rststates''] False k of
        ((ret, _), k) \<Rightarrow> (ret, k))"

fun parse_addresses :: "'k pf_sys \<Rightarrow> string list \<Rightarrow> string list \<Rightarrow> string list" where
  "parse_addresses sys [] result = result"
| "parse_addresses sys (line # lines) result =
     (if make_address_ok sys (boost_trim sys line)
      then parse_addresses sys lines (set_insert (boost_trim sys line) result)
      else parse_addresses sys lines result)"

definition pf_get_table :: "'k pf_sys \<Rightarrow> string \<Rightarrow> 'k \<Rightarrow> (bool \<times> string list) \<times> 'k" where
  "pf_get_table sys table k =
     (case pfctl_run_command sys [''-t'', table, ''-T'', ''show''] True k of
        ((True, out), k) \<Rightarrow> ((True, parse_addresses sys out []), k)
      | ((False, out), k) \<Rightarrow>
          (case pfctl_run_command sys [''-t'', table, ''-T'', ''add''] True k of
             ((False, _), k) \<Rightarrow> ((False, []), k)
           | ((True, out'), k) \<Rightarrow> ((True, parse_addresses sys (out @ out') []), k)))"

definition pf_is_in_table :: "'k pf_sys \<Rightarrow> string \<Rightarrow> string \<Rightarrow> 'k \<Rightarrow> (bool \<times> bool) \<times> 'k" where
  "pf_is_in_table sys table address k =
     (case pf_get_table sys table k of
        ((False, _), k) \<Rightarrow> ((False, False), k)
      | ((True, lines), k) \<Rightarrow> ((True, list_ex (\<lambda>line. line = address) lines), k))"

fun kill_others :: "'k pf_sys \<Rightarrow> string \<Rightarrow> string list \<Rightarrow> string list \<Rightarrow> 'k \<Rightarrow> bool \<times> 'k" where
  "kill_others sys table skip [] k = (True, k)"
| "kill_others sys table skip (address # rest) k =
     (if address \<notin> set skip then
        (case pf_kill_src_nodes_to sys table address False k of
           (False, k) \<Rightarrow> (False, k)
         | (True, k) \<Rightarrow> kill_others sys table skip rest k)
      else kill_others sys table skip rest k)"

definition pf_table_rebalance :: "'k pf_sys \<Rightarrow> string \<Rightarrow> string list \<Rightarrow> 'k \<Rightarrow> bool \<times> 'k" where
  "pf_table_rebalance sys table skip_addresses k =
     (case pf_get_table sys table k of
        ((False, _), k) \<Rightarrow> (False, k)
      | ((True, addresses), k) \<Rightarrow> kill_others sys table skip_addresses addresses k)"

text \<open>The two address arrays of an entry, in the order of the inner loops over \<open>proto\<close>.\<close>

definition protos :: "SyncedLbNode \<Rightarrow> string list" where
  "protos s = [fst (ip_address s), snd (ip_address s)]"

fun wanted_addresses :: "SyncedLbNode list \<Rightarrow> string list \<Rightarrow> string list" where
  "wanted_addresses [] want_set = want_set"
| "wanted_addresses (s # rest) want_set =
     wanted_addresses rest
       (fold (\<lambda>ip want. if length (c_str ip) \<noteq> 0 \<and> wanted_state s = NODE_UP \<and> synced_admin_state s = STATE_ENABLED
                        then set_insert (c_str ip) want else want) (protos s) want_set)"

definition kill_address :: "'k pf_sys \<Rightarrow> string \<Rightarrow> string list \<Rightarrow> bool \<Rightarrow> string \<Rightarrow> 'k \<Rightarrow> 'k" where
  "kill_address sys table to_del with_states ip k =
     (if length (c_str ip) = 0 then k
      else if c_str ip \<notin> set to_del then k
      else let k = snd (pf_kill_src_nodes_to sys table (c_str ip) with_states k) in
           if with_states then
             let k = snd (pf_kill_states_to_rdr sys table (c_str ip) k)
             in snd (pf_kill_src_nodes_to sys table (c_str ip) True k)
           else k)"

fun kill_removed :: "'k pf_sys \<Rightarrow> string \<Rightarrow> string list \<Rightarrow> SyncedLbNode list \<Rightarrow> 'k \<Rightarrow> 'k" where
  "kill_removed sys table to_del [] k = k"
| "kill_removed sys table to_del (s # rest) k =
     kill_removed sys table to_del rest
       (fold (kill_address sys table to_del (\<not> (synced_admin_state s \<le> STATE_DRAIN_SOFT))) (protos s) k)"

definition pf_sync_table :: "'k pf_sys \<Rightarrow> string \<Rightarrow> SyncedLbNode list \<Rightarrow> 'k \<Rightarrow> bool \<times> 'k" where
  "pf_sync_table sys table synced k =
     (case pf_get_table sys table k of
        ((False, _), k) \<Rightarrow> (False, k)
      | ((True, cur_set), k) \<Rightarrow>
          let want_set = wanted_addresses synced [];
              to_add = set_difference want_set cur_set;
              to_del = set_difference cur_set want_set
          in case pf_table_del sys table to_del k of
               (False, k) \<Rightarrow> (False, k)
             | (True, k) \<Rightarrow>
                 let k = kill_removed sys table to_del synced k
                 in case pf_table_add sys table to_add k of
                      (False, k) \<Rightarrow> (False, k)
                    | (True, k) \<Rightarrow>
                        let k = (if length to_add \<noteq> 0 then snd (pf_table_rebalance sys table to_add k) else k)
                        in (True, k))"

end
