(* ===== verification/Construct.thy ===== *)
theory Construct
  imports Hc_Http Hc_Ping Hc_Postgres Pfctl
begin

text \<open>
  Building the objects from the configuration: the constructors of nodes (\<open>lb_node.cpp\<close>) and pools
  (\<open>lb_pool.cpp\<close>), the factory of health checks (\<open>healthcheck.cpp\<close>), and \<open>load_config\<close>
  (\<open>testtool.cpp\<close>). A constructor of a node asks the packet filter for its initial state, so the
  state \<open>'k\<close> of the packet filter is threaded through.
\<close>

section \<open>The operations\<close>

record ('j, 'k) ctor_env = "'j hc_env" +
  pf :: "'k pf_sys"

definition healthcheck_factory ::
    "('j, 'z) hc_env_scheme \<Rightarrow> 'j \<Rightarrow> node_id \<Rightarrow> string \<Rightarrow> 'q world \<Rightarrow> hc_id option result \<times> 'q world" where
  "healthcheck_factory env config node ip w =
     (let type = safe_get_string (lib env) config ''hc_type'' '''';
          make = (\<lambda>body. case derived_ctor env body config node ip w of
                           (Inl e, w) \<Rightarrow> (Inl e, w) | (Inr hc, w) \<Rightarrow> (Inr (Some hc), w))
      in if type = ''http'' then make (http_init env)
         else if type = ''https'' then make (https_init env)
         else if type = ''tcp'' then make (tcp_init env)
         else if type = ''ping'' then make ping_init
         else if type = ''postgres'' then make (pg_init env)
         else if type = ''dns'' then make (dns_init env)
         else if type = ''dummy'' then make dummy_init
         else (Inr None, w))"

definition LbNode_ctor ::
    "('j, 'k) ctor_env \<Rightarrow> string \<Rightarrow> 'j \<Rightarrow> pool_id \<Rightarrow> 'q world \<times> 'k \<Rightarrow> 'q world \<times> 'k" where
  "LbNode_ctor env name config p s =
     (let (w, k) = s;
          n = new_addr env (node_dom w);
          ip4 = safe_get_string (lib env) config ''ip4'' '''';
          ip6 = safe_get_string (lib env) config ''ip6'' '''';
          ((_, pf_state), k) = pf_is_in_table (pf env) (pf_name (get_pool p w)) (if ip4 \<noteq> '''' then ip4 else ip6) k;
          w = w\<lparr>node_dom := n # node_dom w\<rparr>;
          w = upd_node n (\<lambda>x. x\<lparr>node_name := name,
                               node_route_network := safe_get_string (lib env) config ''route_network'' '''',
                               node_ipv4_address := ip4, node_ipv6_address := ip6, parent_lbpool := p,
                               admin_state := admin_state_from_config (safe_get_string (lib env) config ''state'' ''online''),
                               node_state := (if pf_state then NODE_UP else NODE_DOWN),
                               healthchecks := [], checked := False, min_nodes_kept := False, max_nodes_kept := False\<rparr>) w;
          w = upd_pool p (\<lambda>x. x\<lparr>nodes := set_insert n (nodes x)\<rparr>) w
      in (w, k))"

fun create_nodes ::
    "('j, 'k) ctor_env \<Rightarrow> pool_id \<Rightarrow> nat \<Rightarrow> (string \<times> 'j) list \<Rightarrow> 'q world \<times> 'k \<Rightarrow> 'q world \<times> 'k" where
  "create_nodes env p node_index [] s = s"
| "create_nodes env p node_index ((name, config) # items) s =
     (if node_index < MAX_NODES
      then create_nodes env p (node_index + 1) items (LbNode_ctor env name config p s)
      else create_nodes env p node_index items s)"

definition node_healthchecks ::
    "('j, 'z) hc_env_scheme \<Rightarrow> 'j \<Rightarrow> node_id \<Rightarrow> 'q world \<Rightarrow> unit result \<times> 'q world" where
  "node_healthchecks env config n w =
     (let ip4 = node_ipv4_address (get_node n w); ip6 = node_ipv6_address (get_node n w) in
      case (if ip4 \<noteq> '''' then healthcheck_factory env config n ip4 w else (Inr None, w)) of
        (Inl e, w) \<Rightarrow> (Inl e, w)
      | (Inr _, w) \<Rightarrow>
          (case (if ip6 \<noteq> '''' then healthcheck_factory env config n ip6 w else (Inr None, w)) of
             (Inl e, w) \<Rightarrow> (Inl e, w)
           | (Inr _, w) \<Rightarrow> (Inr (), w)))"

fun healthchecks_for ::
    "('j, 'z) hc_env_scheme \<Rightarrow> ('j \<times> node_id) list \<Rightarrow> 'q world \<Rightarrow> unit result \<times> 'q world" where
  "healthchecks_for env [] w = (Inr (), w)"
| "healthchecks_for env ((config, n) # rest) w =
     (case node_healthchecks env config n w of
        (Inl e, w) \<Rightarrow> (Inl e, w)
      | (Inr _, w) \<Rightarrow> healthchecks_for env rest w)"

definition absent_or_empty :: "'j json_lib \<Rightarrow> 'j \<Rightarrow> string \<Rightarrow> bool" where
  "absent_or_empty l config key = (case json_find l config key of None \<Rightarrow> True | Some j \<Rightarrow> json_empty l j)"

text \<open>The checks by which the constructor decides that an entry is not a pool.\<close>

definition not_lb_pool :: "'j json_lib \<Rightarrow> 'j \<Rightarrow> error option" where
  "not_lb_pool l config =
     (if safe_get_string l config ''ip4'' '''' = '''' \<and> safe_get_string l config ''ip6'' '''' = ''''
      then Some (NotLbPoolException ''No IP address of any family specified!'')
      else if safe_get_string l config ''pf_name'' '''' = '''' then Some (NotLbPoolException ''No pf_name configured!'')
      else if absent_or_empty l config ''protocol_port'' then Some (NotLbPoolException ''No protocol_port configured!'')
      else None)"

text \<open>The members the constructor reads from the configuration.\<close>

definition init_pool :: "'j json_lib \<Rightarrow> string \<Rightarrow> 'j \<Rightarrow> LbPool \<Rightarrow> LbPool" where
  "init_pool l name config x =
     (let no_hcs = absent_or_empty l config ''health_checks'';
          backup = safe_get_string l config ''backup_pool'' '''';
          policy = fault_policy_from_string (safe_get_string l config ''min_nodes_action'' ''force_down'');
          policy = (if backup \<noteq> '''' then BACKUP_POOL else policy);
          minn = to_size_t (safe_get_int l config ''min_nodes'' 0);
          maxn = to_size_t (safe_get_int l config ''max_nodes'' 0);
          minn = (if no_hcs then json_size l (json_index l config ''nodes'') else minn);
          maxn = (if maxn > 0 \<and> maxn < minn then minn else maxn)
      in x\<lparr>pool_name := name,
           pool_ipv4_address := safe_get_string l config ''ip4'' '''',
           pool_ipv6_address := safe_get_string l config ''ip6'' '''',
           pf_name := safe_get_string l config ''pf_name'' '''',
           pool_route_network := safe_get_string l config ''route_network'' '''',
           min_nodes := minn, max_nodes := maxn,
           fault_policy := (if no_hcs then FORCE_UP else policy),
           backup_pool_name := backup, pool_state := POOL_DOWN, has_hcs := \<not> no_hcs,
           nodes := [], up_nodes := []\<rparr>)"

definition LbPool_ctor ::
    "('j, 'k) ctor_env \<Rightarrow> nat \<Rightarrow> ('q \<Rightarrow> pfctl_msg \<Rightarrow> bool \<times> 'q) \<Rightarrow> string \<Rightarrow> 'j \<Rightarrow> 'q world \<times> 'k
     \<Rightarrow> pool_id result \<times> 'q world \<times> 'k" where
  "LbPool_ctor env fuel try_send name config s =
     (case not_lb_pool (lib env) config of
        Some e \<Rightarrow> (Inl e, s)
      | None \<Rightarrow>
          let (w, k) = s;
              p = new_addr env (pool_dom w);
              w = w\<lparr>pool_dom := p # pool_dom w\<rparr>;
              w = upd_pool p (init_pool (lib env) name config) w;
              (w, k) = create_nodes env p 0 (json_items (lib env) (json_index (lib env) config ''nodes'')) (w, k)
          in (case healthchecks_for env
                     (List.product (json_elems (lib env) (json_index (lib env) config ''health_checks''))
                                   (nodes (get_pool p w))) w of
                (Inl e, w) \<Rightarrow> (Inl e, w, k)
              | (Inr _, w) \<Rightarrow>
                  let w = upd_pool p (\<lambda>x. x\<lparr>pf_synced := False\<rparr>) w in
                  (case pool_logic fuel try_send p None w of
                     Inl e \<Rightarrow> (Inl e, w, k)
                   | Inr w \<Rightarrow> (Inr p, w, k))))"

text \<open>\<open>load_config\<close>: an entry that is not a pool is skipped, any other error ends the program.\<close>

fun load_pools ::
    "('j, 'k) ctor_env \<Rightarrow> nat \<Rightarrow> ('q \<Rightarrow> pfctl_msg \<Rightarrow> bool \<times> 'q) \<Rightarrow> (string \<times> 'j) list \<Rightarrow> 'q world \<times> 'k
     \<Rightarrow> ('q world \<times> 'k) result" where
  "load_pools env fuel try_send [] s = Inr s"
| "load_pools env fuel try_send ((name, config) # items) s =
     (case LbPool_ctor env fuel try_send name config s of
        (Inr p, (w, k)) \<Rightarrow>
          load_pools env fuel try_send items
            (w\<lparr>lb_pools := map_insert (pool_name (get_pool p w)) p (lb_pools w)\<rparr>, k)
      | (Inl (NotLbPoolException msg), s) \<Rightarrow> load_pools env fuel try_send items s
      | (Inl e, s) \<Rightarrow> Inl e)"

definition load_config ::
    "('j, 'k) ctor_env \<Rightarrow> nat \<Rightarrow> ('q \<Rightarrow> pfctl_msg \<Rightarrow> bool \<times> 'q) \<Rightarrow> 'j \<Rightarrow> 'q world \<times> 'k \<Rightarrow> ('q world \<times> 'k) result" where
  "load_config env fuel try_send config s = load_pools env fuel try_send (json_items (lib env) config) s"

end
