(* ===== verification/Load_Inv.thy ===== *)
theory Load_Inv
  imports Construct
begin

text \<open>
  Loading the configuration establishes the invariant: every pool is created beside the pools
  that exist already, without touching them, and its first \<open>pool_logic\<close> makes its selection
  follow the policy.
\<close>

section \<open>Objects that exist are left alone\<close>

definition fresh_addresses :: "('j, 'z) hc_env_scheme \<Rightarrow> bool" where
  "fresh_addresses env \<longleftrightarrow> (\<forall>used. new_addr env used \<notin> set used)"

definition frame :: "'q world \<Rightarrow> 'q world \<Rightarrow> bool" where
  "frame w0 w \<longleftrightarrow>
     (\<forall>i \<in> set (node_dom w0). get_node i w = get_node i w0) \<and>
     (\<forall>i \<in> set (pool_dom w0). get_pool i w = get_pool i w0) \<and>
     (\<forall>i \<in> set (hc_dom w0). get_hc i w = get_hc i w0) \<and>
     set (node_dom w0) \<subseteq> set (node_dom w) \<and> set (pool_dom w0) \<subseteq> set (pool_dom w) \<and>
     set (hc_dom w0) \<subseteq> set (hc_dom w) \<and> lb_pools w = lb_pools w0 \<and> seq_map w = seq_map w0"

lemma frame_refl [simp]: "frame w w"
  by (simp add: frame_def)

lemma frame_trans: "frame w0 w1 \<Longrightarrow> frame w1 w2 \<Longrightarrow> frame w0 w2"
  unfolding frame_def by (metis subset_iff)

text \<open>Writes to a new object, and the growth of the sets of addresses in use.\<close>

lemma frame_upd_node: "i \<notin> set (node_dom w0) \<Longrightarrow> frame w0 w \<Longrightarrow> frame w0 (upd_node i f w)"
  using upd_node_frame(8) [of w i f] by (auto simp: frame_def node_store.get_upd same_globals_def)

lemma frame_upd_pool: "i \<notin> set (pool_dom w0) \<Longrightarrow> frame w0 w \<Longrightarrow> frame w0 (upd_pool i f w)"
  using upd_pool_frame(8) [of w i f] by (auto simp: frame_def pool_store.get_upd same_globals_def)

lemma frame_upd_hc: "i \<notin> set (hc_dom w0) \<Longrightarrow> frame w0 w \<Longrightarrow> frame w0 (upd_hc i f w)"
  using upd_hc_frame(8) [of w i f] by (auto simp: frame_def hc_store.get_upd same_globals_def)

lemma dom_update_reads [simp]:
  "get_node i (w\<lparr>node_dom := d\<rparr>) = get_node i w" "get_pool i (w\<lparr>node_dom := d\<rparr>) = get_pool i w"
  "get_hc i (w\<lparr>node_dom := d\<rparr>) = get_hc i w" "get_node i (w\<lparr>pool_dom := d\<rparr>) = get_node i w"
  "get_pool i (w\<lparr>pool_dom := d\<rparr>) = get_pool i w" "get_hc i (w\<lparr>pool_dom := d\<rparr>) = get_hc i w"
  "get_node i (w\<lparr>hc_dom := d\<rparr>) = get_node i w" "get_pool i (w\<lparr>hc_dom := d\<rparr>) = get_pool i w"
  "get_hc i (w\<lparr>hc_dom := d\<rparr>) = get_hc i w"
  by (simp_all add: get_node_def get_pool_def get_hc_def)

lemma frame_new [simp]:
  "frame w0 w \<Longrightarrow> frame w0 (w\<lparr>node_dom := i # node_dom w\<rparr>)"
  "frame w0 w \<Longrightarrow> frame w0 (w\<lparr>pool_dom := i # pool_dom w\<rparr>)"
  "frame w0 w \<Longrightarrow> frame w0 (w\<lparr>hc_dom := i # hc_dom w\<rparr>)"
  by (auto simp: frame_def)

section \<open>A pool under construction\<close>

definition new_node :: "pool_id \<Rightarrow> 'q world \<Rightarrow> 'q world \<Rightarrow> node_id \<Rightarrow> bool" where
  "new_node p w0 w n \<longleftrightarrow>
     n \<in> set (node_dom w) \<and> n \<notin> set (node_dom w0) \<and> parent_lbpool (get_node n w) = p \<and>
     \<not> max_nodes_kept (get_node n w) \<and> \<not> checked (get_node n w) \<and>
     (\<forall>h \<in> set (healthchecks (get_node n w)).
        h \<in> set (hc_dom w) \<and> h \<notin> set (hc_dom w0) \<and> parent_lbnode (get_hc h w) = n)"

definition new_pool :: "string \<Rightarrow> LbPool \<Rightarrow> bool" where
  "new_pool name pl \<longleftrightarrow>
     pool_name pl = name \<and> up_nodes pl = [] \<and> pool_state pl = POOL_DOWN \<and> is_set (nodes pl) \<and>
     (max_nodes pl > 0 \<longrightarrow> min_nodes pl \<le> max_nodes pl)"

definition building :: "string \<Rightarrow> pool_id \<Rightarrow> 'q world \<Rightarrow> 'q world \<Rightarrow> bool" where
  "building name p w0 w \<longleftrightarrow>
     frame w0 w \<and> pfctl_mq w = pfctl_mq w0 \<and>
     p \<notin> set (pool_dom w0) \<and> p \<in> set (pool_dom w) \<and> new_pool name (get_pool p w) \<and>
     (\<forall>n \<in> set (nodes (get_pool p w)). new_node p w0 w n)"

lemma building_init:
  assumes "p \<notin> set (pool_dom w)"
  shows "building name p w (upd_pool p (init_pool l name config) (w\<lparr>pool_dom := p # pool_dom w\<rparr>))"
  using assms frame_upd_pool [OF assms frame_new(2) [OF frame_refl]]
  by (simp add: building_def new_pool_def init_pool_def Let_def)

lemma new_node_cong:
  assumes "new_node p w0 w n" "get_node n w' = get_node n w" "set (node_dom w) \<subseteq> set (node_dom w')"
    "set (hc_dom w) \<subseteq> set (hc_dom w')"
    "\<And>h. h \<in> set (healthchecks (get_node n w)) \<Longrightarrow> parent_lbnode (get_hc h w') = parent_lbnode (get_hc h w)"
  shows "new_node p w0 w' n"
  using assms by (auto simp: new_node_def)

lemma LbNode_ctor_building:
  assumes "fresh_addresses env" "building name p w0 w" "LbNode_ctor env nm config p (w, k) = (w', k')"
  shows "building name p w0 w'"
proof -
  define n where "n = new_addr env (node_dom w)"
  obtain f w1 w2 where w: "w1 = w\<lparr>node_dom := n # node_dom w\<rparr>" "w2 = upd_node n f w1"
    "w' = upd_pool p (\<lambda>x. x\<lparr>nodes := set_insert n (nodes x)\<rparr>) w2"
    and f: "\<And>x. parent_lbpool (f x) = p \<and> \<not> max_nodes_kept (f x) \<and> \<not> checked (f x) \<and> healthchecks (f x) = []"
    using assms(3) unfolding LbNode_ctor_def Let_def n_def by (auto split: prod.splits)
  have n: "n \<notin> set (node_dom w)" using assms(1) by (simp add: fresh_addresses_def n_def)
  have b: "frame w0 w" "p \<notin> set (pool_dom w0)" "p \<in> set (pool_dom w)" "new_pool name (get_pool p w)"
    "\<And>m. m \<in> set (nodes (get_pool p w)) \<Longrightarrow> new_node p w0 w m"
    using assms(2) by (auto simp: building_def)
  have n0: "n \<notin> set (node_dom w0)" using n b(1) by (auto simp: frame_def)
  have "frame w0 w'"
    unfolding w by (intro frame_upd_pool frame_upd_node frame_new b n0)
  moreover have "new_node p w0 w' m" if "m \<in> set (nodes (get_pool p w'))" for m
  proof (cases "m = n")
    case True
    then show ?thesis using f n0 by (simp add: new_node_def w)
  next
    case False
    then have old: "new_node p w0 w m" using that b(5) by (simp add: w)
    show ?thesis by (rule new_node_cong [OF old]) (use False in \<open>auto simp: w node_store.get_upd\<close>)
  qed
  ultimately show ?thesis using b assms(2) by (simp add: building_def new_pool_def w)
qed

lemma create_nodes_building:
  assumes "fresh_addresses env"
  shows "building name p w0 w \<Longrightarrow> create_nodes env p i items (w, k) = (w', k') \<Longrightarrow> building name p w0 w'"
proof (induction items arbitrary: i w k)
  case (Cons it items)
  obtain nm config where it: "it = (nm, config)" by fastforce
  obtain w1 k1 where ctor: "LbNode_ctor env nm config p (w, k) = (w1, k1)" by fastforce
  have "building name p w0 w1" using LbNode_ctor_building [OF assms Cons.prems(1) ctor] .
  then show ?case using Cons ctor it by (auto split: if_splits)
qed simp

section \<open>Health checks of the new nodes\<close>

lemma building_keep:
  assumes b: "building name p w0 w" and fr: "frame w0 w'" and pl: "get_pool p w' = get_pool p w"
    and dom: "set (pool_dom w) \<subseteq> set (pool_dom w')" "pfctl_mq w' = pfctl_mq w"
    and nodes: "\<And>n. n \<in> set (nodes (get_pool p w)) \<Longrightarrow> new_node p w0 w' n"
  shows "building name p w0 w'"
  using assms by (auto simp: building_def)

text \<open>The constructor of the base class: a new object, linked to its node, whose members are set.\<close>

lemma Healthcheck_ctor_shape:
  assumes run: "Healthcheck_ctor env config n ip w = (r, w')" and hc: "hc = new_addr env (hc_dom w)"
  obtains f g where "w' = upd_hc hc g (upd_node n (\<lambda>x. x\<lparr>healthchecks := healthchecks x @ [hc]\<rparr>) (upd_hc hc f (w\<lparr>hc_dom := hc # hc_dom w\<rparr>)))"
    "\<And>h. parent_lbnode (g (f h)) = n" "\<And>j. r = Inr j \<Longrightarrow> j = hc"
proof -
  let ?f = "\<lambda>h. h\<lparr>hc_type := '''', log_prefix := '''', af_string := '''', last_checked := clock_value env hc, parent_lbnode := n, hc_ip_address := ip\<rparr>"
  let ?w = "upd_node n (\<lambda>x. x\<lparr>healthchecks := healthchecks x @ [hc]\<rparr>) (upd_hc hc ?f (w\<lparr>hc_dom := hc # hc_dom w\<rparr>))"
  show ?thesis
  proof (cases "numeric_family env (c_str ip)")
    case None
    then have "w' = ?w" "\<And>j. r = Inr j \<Longrightarrow> j = hc" using run by (auto simp: Healthcheck_ctor_def Let_def hc)
    then show ?thesis by (intro that [of id ?f]) (simp_all add: upd_hc_def)
  next
    case (Some af)
    then obtain g where "w' = upd_hc hc g ?w" "r = Inr hc" "\<And>h. parent_lbnode (g h) = parent_lbnode h"
      using run unfolding Healthcheck_ctor_def Let_def hc [symmetric] by fastforce
    then show ?thesis by (intro that [of g ?f]) simp_all
  qed
qed

lemma Healthcheck_ctor_building:
  assumes fresh: "fresh_addresses env" and b: "building name p w0 w" and n: "n \<in> set (nodes (get_pool p w))"
    and run: "Healthcheck_ctor env config n ip w = (r, w')"
  shows "building name p w0 w' \<and> nodes (get_pool p w') = nodes (get_pool p w) \<and>
    (\<forall>hc. r = Inr hc \<longrightarrow> hc \<notin> set (hc_dom w0) \<and> parent_lbnode (get_hc hc w') = n)"
proof -
  define hc where "hc = new_addr env (hc_dom w)"
  obtain g f where w': "w' = upd_hc hc g (upd_node n (\<lambda>x. x\<lparr>healthchecks := healthchecks x @ [hc]\<rparr>) (upd_hc hc f (w\<lparr>hc_dom := hc # hc_dom w\<rparr>)))"
    and fg: "\<And>h. parent_lbnode (g (f h)) = n" and r: "\<And>j. r = Inr j \<Longrightarrow> j = hc"
    by (rule Healthcheck_ctor_shape [OF run hc_def]) (rule that)
  have hc: "hc \<notin> set (hc_dom w)" using fresh by (simp add: fresh_addresses_def hc_def)
  have fr: "frame w0 w" and new: "\<And>m. m \<in> set (nodes (get_pool p w)) \<Longrightarrow> new_node p w0 w m"
    using b by (auto simp: building_def)
  have hc0: "hc \<notin> set (hc_dom w0)" using hc fr by (auto simp: frame_def)
  have n0: "n \<notin> set (node_dom w0)" using new [OF n] by (simp add: new_node_def)
  have "frame w0 w'" unfolding w' by (intro frame_upd_hc frame_upd_node frame_new fr hc0 n0)
  moreover have "new_node p w0 w' m" if "m \<in> set (nodes (get_pool p w))" for m
  proof -
    have m: "new_node p w0 w m" using new that .
    then have "hc \<notin> set (healthchecks (get_node m w))" using hc by (auto simp: new_node_def)
    then show ?thesis
      using m hc0 fg by (cases "m = n") (auto simp: new_node_def w' node_store.get_upd hc_store.get_upd)
  qed
  ultimately show ?thesis
    using building_keep [OF b, of w'] fg hc0 r by (auto simp: w')
qed

text \<open>A derived constructor keeps the link to the node.\<close>

definition links_kept :: "('j \<Rightarrow> hc_id \<Rightarrow> Healthcheck \<Rightarrow> Healthcheck result) \<Rightarrow> bool" where
  "links_kept body \<longleftrightarrow> (\<forall>config hc h h'. body config hc h = Inr h' \<longrightarrow> parent_lbnode h' = parent_lbnode h)"

lemma inits_keep_links:
  "links_kept (http_init env)" "links_kept (https_init env)" "links_kept (tcp_init env)" "links_kept ping_init"
  "links_kept (pg_init env)" "links_kept (dns_init env)" "links_kept dummy_init"
  by (auto simp: links_kept_def http_init_def https_init_def tcp_init_def ping_init_def pg_init_def dns_init_def
      dummy_init_def Let_def split: if_splits)

lemma building_upd_hc:
  assumes b: "building name p w0 w" and hc: "hc \<notin> set (hc_dom w0)" and par: "parent_lbnode (f (get_hc hc w)) = parent_lbnode (get_hc hc w)"
  shows "building name p w0 (upd_hc hc f w)"
proof (rule building_keep [OF b])
  show "frame w0 (upd_hc hc f w)" using b hc by (intro frame_upd_hc) (simp_all add: building_def)
  show "new_node p w0 (upd_hc hc f w) n" if "n \<in> set (nodes (get_pool p w))" for n
  proof -
    have old: "new_node p w0 w n" using b that by (simp add: building_def)
    show ?thesis by (rule new_node_cong [OF old]) (use par in \<open>auto simp: hc_store.get_upd\<close>)
  qed
qed simp_all

lemma derived_ctor_building:
  assumes fresh: "fresh_addresses env" and b: "building name p w0 w" and n: "n \<in> set (nodes (get_pool p w))"
    and links: "links_kept body" and run: "derived_ctor env body config n ip w = (r, w')"
  shows "building name p w0 w' \<and> nodes (get_pool p w') = nodes (get_pool p w)"
proof -
  obtain r1 w1 where base: "Healthcheck_ctor env config n ip w = (r1, w1)" by fastforce
  note h = Healthcheck_ctor_building [OF fresh b n base]
  show ?thesis
  proof (cases r1)
    case (Inl e)
    then show ?thesis using run base h by (simp add: derived_ctor_def)
  next
    case (Inr hc)
    show ?thesis
    proof (cases "body config hc (get_hc hc w1)")
      case (Inl e)
      then show ?thesis using run base h Inr by (simp add: derived_ctor_def)
    next
      case (Inr h')
      then have "w' = upd_hc hc (\<lambda>_. h') w1" using run base \<open>r1 = Inr hc\<close> by (simp add: derived_ctor_def)
      moreover have "parent_lbnode h' = parent_lbnode (get_hc hc w1)" using links Inr by (simp add: links_kept_def)
      ultimately show ?thesis using h building_upd_hc [of name p w0 w1 hc "\<lambda>_. h'"] \<open>r1 = Inr hc\<close> by simp
    qed
  qed
qed

lemma healthcheck_factory_building:
  assumes "fresh_addresses env" "building name p w0 w" "n \<in> set (nodes (get_pool p w))"
    and run: "healthcheck_factory env config n ip w = (r, w')"
  shows "building name p w0 w' \<and> nodes (get_pool p w') = nodes (get_pool p w)"
proof -
  note d = derived_ctor_building [OF assms(1-3)]
  have make: "building name p w0 v \<and> nodes (get_pool p v) = nodes (get_pool p w)"
    if "links_kept body"
      "(case derived_ctor env body config n ip w of (Inl e, w) \<Rightarrow> (Inl e, w) | (Inr hc, w) \<Rightarrow> (Inr (Some hc), w)) = (x, v)"
    for body x v
    using that d [OF that(1), of config ip] by (auto split: prod.splits sum.splits)
  show ?thesis
    using run assms(2) make [OF inits_keep_links(1) [of env]] make [OF inits_keep_links(2) [of env]]
      make [OF inits_keep_links(3) [of env]] make [OF inits_keep_links(4)] make [OF inits_keep_links(5) [of env]]
      make [OF inits_keep_links(6) [of env]] make [OF inits_keep_links(7)]
    unfolding healthcheck_factory_def Let_def by (simp split: if_splits)
qed

lemma node_healthchecks_building:
  assumes f: "fresh_addresses env" and b: "building name p w0 w" "n \<in> set (nodes (get_pool p w))"
    and run: "node_healthchecks env config n w = (r, w')"
  shows "building name p w0 w' \<and> nodes (get_pool p w') = nodes (get_pool p w)"
proof -
  let ?ip4 = "node_ipv4_address (get_node n w)" and ?ip6 = "node_ipv6_address (get_node n w)"
  obtain r1 w1 where c1: "(if ?ip4 \<noteq> '''' then healthcheck_factory env config n ?ip4 w else (Inr None, w)) = (r1, w1)" by fastforce
  have b1: "building name p w0 w1 \<and> nodes (get_pool p w1) = nodes (get_pool p w)"
    using c1 b healthcheck_factory_building [OF f b] by (auto split: if_splits)
  obtain r2 w2 where c2: "(if ?ip6 \<noteq> '''' then healthcheck_factory env config n ?ip6 w1 else (Inr None, w1)) = (r2, w2)" by fastforce
  have "building name p w0 w2 \<and> nodes (get_pool p w2) = nodes (get_pool p w)"
    using c2 b b1 healthcheck_factory_building [OF f, of name p w0 w1 n config ?ip6] by (auto split: if_splits)
  then show ?thesis
    using run b1 c1 c2 by (auto simp: node_healthchecks_def Let_def split: sum.splits)
qed

lemma healthchecks_for_building:
  assumes f: "fresh_addresses env"
  shows "building name p w0 w \<Longrightarrow> snd ` set cs \<subseteq> set (nodes (get_pool p w)) \<Longrightarrow>
     healthchecks_for env cs w = (r, w') \<Longrightarrow> building name p w0 w'"
proof (induction cs arbitrary: w)
  case (Cons c cs)
  obtain config n where c: "c = (config, n)" by fastforce
  obtain r1 w1 where step: "node_healthchecks env config n w = (r1, w1)" by fastforce
  have "building name p w0 w1 \<and> nodes (get_pool p w1) = nodes (get_pool p w)"
    using node_healthchecks_building [OF f Cons.prems(1) _ step] Cons.prems(2) c by simp
  then show ?case using Cons step c by (cases r1) auto
qed simp

section \<open>The world after an entry of the configuration\<close>

definition doms_ok :: "'q world \<Rightarrow> bool" where
  "doms_ok w \<longleftrightarrow>
     (\<forall>(k, p) \<in> set (lb_pools w). p \<in> set (pool_dom w) \<and>
        (\<forall>n \<in> set (nodes (get_pool p w)). n \<in> set (node_dom w) \<and> set (healthchecks (get_node n w)) \<subseteq> set (hc_dom w)))"

definition loaded :: "'q world \<Rightarrow> bool" where
  "loaded w \<longleftrightarrow>
     world_inv w \<and> small w \<and> hcs_wf w \<and> (\<forall>n. registered n w \<longrightarrow> \<not> checked (get_node n w)) \<and>
     seq_map w = (\<lambda>s. None) \<and> doms_ok w"

text \<open>What is loaded stays loaded while other objects are created.\<close>

lemma frame_reads:
  assumes "doms_ok w0" "frame w0 w" "(k, p) \<in> set (lb_pools w0)"
  shows "get_pool p w = get_pool p w0"
    and "n \<in> set (nodes (get_pool p w0)) \<Longrightarrow> get_node n w = get_node n w0"
    and "n \<in> set (nodes (get_pool p w0)) \<Longrightarrow> h \<in> set (healthchecks (get_node n w0)) \<Longrightarrow> get_hc h w = get_hc h w0"
  using assms unfolding doms_ok_def frame_def by blast+

lemma frame_registered:
  assumes "doms_ok w0" "frame w0 w"
  shows "registered n w \<Longrightarrow> get_node n w = get_node n w0 \<and> registered n w0"
proof -
  assume reg: "registered n w"
  let ?p = "parent_lbpool (get_node n w)"
  have p: "(pool_name (get_pool ?p w), ?p) \<in> set (lb_pools w0)" "n \<in> set (nodes (get_pool ?p w))"
    using reg assms(2) by (simp_all add: registered_def Let_def frame_def)
  note same = frame_reads [OF assms p(1)]
  have "get_node n w = get_node n w0" using same(1,2) p(2) by simp
  then show ?thesis using p same(1) by (simp add: registered_def Let_def)
qed

lemma frame_linked:
  assumes "doms_ok w0" "frame w0 w" "(k, p) \<in> set (lb_pools w0)"
  shows "linked p w = linked p w0"
proof (rule linked_cong)
  show "lb_pools w = lb_pools w0" using assms(2) by (simp add: frame_def)
  show "get_pool p w = get_pool p w0" using frame_reads(1) [OF assms] .
  show "up_nodes (get_pool b w) = up_nodes (get_pool b w0)"
    if "map_of (lb_pools w0) (backup_pool_name (get_pool p w0)) = Some b" for b
    using frame_reads(1) [OF assms(1,2) map_of_SomeD [OF that]] by simp
qed

lemma frame_loaded:
  assumes l: "loaded w0" and fr: "frame w0 w"
  shows "loaded w"
proof -
  have d: "doms_ok w0" and inv: "world_inv w0" using l by (simp_all add: loaded_def)
  have pools: "lb_pools w = lb_pools w0" using fr by (simp add: frame_def)
  have pool: "pool_wf p w \<and> pool_name (get_pool p w) = k \<and> (\<forall>n \<in> set (nodes (get_pool p w)). parent_lbpool (get_node n w) = p) \<and>
      pool_inv p w \<and> linked p w \<and> within_limits p w \<and> p \<in> set (pool_dom w) \<and>
      (\<forall>n \<in> set (nodes (get_pool p w)). n \<in> set (node_dom w) \<and> set (healthchecks (get_node n w)) \<subseteq> set (hc_dom w))"
    if p: "(k, p) \<in> set (lb_pools w0)" for k p
  proof -
    note same = frame_reads [OF d fr p]
    have "pool_inv p w = pool_inv p w0" using same by (intro pool_inv_cong(1)) simp_all
    moreover have "within_limits p w = within_limits p w0" "pool_wf p w = pool_wf p w0"
      by (simp_all add: within_limits_def pool_wf_def same(1))
    moreover have "within_limits p w0" using l smallD p by (auto simp: loaded_def)
    moreover have "p \<in> set (pool_dom w)"
      "\<And>n. n \<in> set (nodes (get_pool p w0)) \<Longrightarrow> n \<in> set (node_dom w) \<and> set (healthchecks (get_node n w0)) \<subseteq> set (hc_dom w)"
      using d fr p unfolding doms_ok_def frame_def by blast+
    ultimately show ?thesis
      using same frame_linked [OF d fr p] pools_invD [OF inv p] world_wf_pool [of w0, OF _ p] by simp
  qed
  have "world_inv w"
    using pool pools inv by (auto simp: pools_inv_def world_wf_def)
  moreover have "small w" "doms_ok w" using pool pools by (auto simp: small_def doms_ok_def)
  moreover have "hcs_wf w"
    unfolding hcs_wf_def
  proof (intro allI impI ballI)
    fix n h assume reg: "registered n w" and h: "h \<in> set (healthchecks (get_node n w))"
    have n: "get_node n w = get_node n w0" "registered n w0" using frame_registered [OF d fr reg] by simp_all
    then have "get_hc h w = get_hc h w0"
      using frame_reads(3) [OF d fr, of _ "parent_lbpool (get_node n w0)" n h] h by (auto simp: registered_def Let_def)
    then show "parent_lbnode (get_hc h w) = n" using l n h by (simp add: loaded_def hcs_wf_def)
  qed
  moreover have "\<not> checked (get_node n w)" if "registered n w" for n
    using l frame_registered [OF d fr that] by (auto simp: loaded_def)
  ultimately show ?thesis using l fr by (simp add: loaded_def frame_def)
qed

text \<open>The first \<open>pool_logic\<close> of a pool that is not in the map yet.\<close>

lemma no_dependents:
  assumes "\<forall>(k, q) \<in> set rest. \<not> (backup_pool_name (get_pool q w) = pool_name (get_pool p w) \<and> backup_pool_active (get_pool q w))"
  shows "update_dependents fuel try_send p rest w = Inr w"
  using assms by (induction rest) auto

lemma building_pool:
  assumes "building name p w0 w" "loaded w0"
  shows "pool_wf p w" "pool_weak p w" "p \<notin> snd ` set (lb_pools w)"
proof -
  show "pool_wf p w" using assms(1) by (simp add: pool_wf_def building_def new_pool_def)
  have "marked_set (nodes (get_pool p w)) w = {}"
    using assms(1) by (auto simp: marked_set_def building_def new_node_def)
  then show "pool_weak p w" using assms(1) by (simp add: pool_weak_def building_def new_pool_def Let_def)
  show "p \<notin> snd ` set (lb_pools w)"
    using assms by (auto simp: building_def loaded_def doms_ok_def frame_def)
qed

lemma frame_recompute:
  assumes b: "building name p w0 w"
  shows "frame w0 (recompute p None w)"
proof -
  have st: "static_eq w (recompute p None w)" by (rule recompute_static)
  have "get_node i (recompute p None w) = get_node i w" if "i \<in> set (node_dom w0)" for i
    using that b by (intro recompute_outside) (auto simp: building_def new_node_def)
  moreover have "get_pool i (recompute p None w) = get_pool i w" if "i \<in> set (pool_dom w0)" for i
    using that b by (intro recompute_other_pool) (auto simp: building_def)
  ultimately show ?thesis
    using b static_eq_world [OF st] static_eq_globals [OF st] by (simp add: building_def frame_def same_globals_def)
qed

lemma frame_sync:
  assumes "frame w0 w" "p \<notin> set (pool_dom w0)" "sync_pool try_send p w = Inr w'"
  shows "frame w0 w'"
  using assms(3)
proof (cases rule: sync_pool_cases)
  case 1
  then show ?thesis using assms(1) by simp
next
  case (2 q b)
  have "frame w0 (w\<lparr>pfctl_mq := q\<rparr>)" using assms(1) by (simp add: frame_def)
  then show ?thesis using 2 frame_upd_pool [OF assms(2)] by simp
qed

lemma sync_unsynced_limits:
  assumes "sync_pool try_send p w = Inr w'" "\<not> pf_synced (get_pool p w)"
  shows "length (nodes (get_pool p w)) < MAX_NODES" "length (up_nodes (get_pool p w)) < MAX_NODES"
  using assms by (auto simp: sync_pool_def send_message_def Let_def bind_result_Inr_iff split: if_splits)

lemma sync_keeps_pool:
  assumes sync: "sync_pool try_send p u = Inr v" and unsynced: "\<not> pf_synced (get_pool p u)"
    and inv: "pool_inv p u" and link: "linked p u"
  shows "pool_inv p v" "linked p v" "within_limits p v"
proof -
  note lim = sync_unsynced_limits [OF sync unsynced]
  have up: "is_set (up_nodes (get_pool p u))" using inv by (simp add: pool_inv_def pool_weak_def Let_def)
  consider "v = u" | q s where "v = upd_pool p (\<lambda>x. x\<lparr>pf_synced := s\<rparr>) (u\<lparr>pfctl_mq := q\<rparr>)"
    using sync by (cases rule: sync_pool_cases) auto
  then have "pool_inv p v \<and> linked p v \<and> within_limits p v"
  proof cases
    case 1
    then show ?thesis using inv link lim up by (simp add: within_limits_def)
  next
    case (2 q s)
    have sets: "up_set ns v = up_set ns u" "enabled_set ns v = enabled_set ns u" "marked_set ns v = marked_set ns u" for ns
      by (simp_all add: 2 up_set_def enabled_set_def marked_set_def)
    have pl: "get_pool p v = (get_pool p u)\<lparr>pf_synced := s\<rparr>" by (simp add: 2)
    have "pool_inv p v" using inv by (auto simp: pool_inv_def pool_weak_def Let_def pl sets)
    moreover have "up_nodes (get_pool c v) = up_nodes (get_pool c u)" for c by (simp add: 2 pool_store.get_upd)
    then have "linked p v" using link by (simp add: linked_def Let_def pl) (simp add: 2)
    ultimately show ?thesis using lim up by (simp add: within_limits_def pl)
  qed
  then show "pool_inv p v" "linked p v" "within_limits p v" by simp_all
qed

text \<open>No pool that is loaded runs on a pool that is not registered yet.\<close>

lemma new_pool_no_dependents:
  assumes "loaded v" "pool_name (get_pool p v) \<notin> fst ` set (lb_pools v)"
  shows "update_dependents fuel try_send p (lb_pools v) v = Inr v"
proof (rule no_dependents, clarify)
  fix k q assume q: "(k, q) \<in> set (lb_pools v)" "backup_pool_name (get_pool q v) = pool_name (get_pool p v)"
    "backup_pool_active (get_pool q v)"
  have "linked q v" using assms(1) q(1) pools_invD(3) [of "{}" v k q] by (simp add: loaded_def)
  then obtain c where "map_of (lb_pools v) (pool_name (get_pool p v)) = Some c" using q by (auto simp: linked_def Let_def)
  then show False using assms(2) by (metis map_of_eq_None_iff option.distinct(1))
qed

lemma recompute_unsynced: "\<not> pf_synced (get_pool p w) \<Longrightarrow> \<not> pf_synced (get_pool p (recompute p None w))"
  by (simp add: recompute_pool triggered_def Let_def)

text \<open>The pool selects its nodes and is sent; no other pool is called.\<close>

lemma first_pool_logic_eq:
  assumes b: "building name p w0 w" and l: "loaded w0" and name: "name \<notin> fst ` set (lb_pools w0)"
    and run: "pool_logic fuel try_send p None w = Inr w'"
  shows "sync_pool try_send p (recompute p None w) = Inr w'" "frame w0 w'"
proof -
  obtain f where fuel: "fuel = Suc f" using run by (cases fuel) auto
  have p: "p \<notin> set (pool_dom w0)" using b by (simp add: building_def)
  obtain v where sync: "sync_pool try_send p (recompute p None w) = Inr v"
    and dep: "update_dependents f try_send p (lb_pools v) v = Inr w'"
    using run fuel by (auto split: sum.splits)
  have frv: "frame w0 v" using frame_sync [OF frame_recompute [OF b] p sync] .
  have st: "static_eq w v" using static_eq_trans [OF recompute_static sync_pool_static [OF sync]] .
  have "pool_name (get_pool p v) \<notin> fst ` set (lb_pools v)"
    using b static_eq_pool(1) [OF st] name frv by (simp add: building_def new_pool_def frame_def)
  then have "w' = v" using dep new_pool_no_dependents [OF frame_loaded [OF l frv]] by simp
  then show "sync_pool try_send p (recompute p None w) = Inr w'" "frame w0 w'" using sync frv by simp_all
qed

lemma first_selection_inv:
  assumes b: "building name p w0 w" and l: "loaded w0"
  shows "pool_inv p (recompute p None w)"
proof -
  have lw: "loaded w" using b l frame_loaded by (auto simp: building_def)
  have "is_set (up_nodes (get_pool c w))" if "map_of (lb_pools w) (backup_pool_name (get_pool p w)) = Some c" for c
    using lw smallD [of w, OF _ map_of_SomeD [OF that]] by (simp add: loaded_def within_limits_def)
  then show ?thesis by (intro recompute_inv [OF building_pool(1,2) [OF b l]]) (simp_all add: triggered_def)
qed

lemma first_pool_logic:
  assumes b: "building name p w0 w" and l: "loaded w0" and name: "name \<notin> fst ` set (lb_pools w0)"
    and run: "pool_logic fuel try_send p None w = Inr w'" and unsynced: "\<not> pf_synced (get_pool p w)"
  shows "frame w0 w'" "static_eq w w'" "pool_inv p w'" "linked p w'" "within_limits p w'"
proof -
  note first = first_pool_logic_eq [OF b l name run]
  show "frame w0 w'" by (rule first(2))
  show "static_eq w w'" by (rule static_eq_trans [OF recompute_static sync_pool_static [OF first(1)]])
  have "linked p (recompute p None w)" by (rule recompute_linked) (simp add: triggered_def)
  then show "pool_inv p w'" "linked p w'" "within_limits p w'"
    using sync_keeps_pool [OF first(1) recompute_unsynced [OF unsynced] first_selection_inv [OF b l]] by simp_all
qed

text \<open>A new entry in the map of pools leaves what is said about the others.\<close>

lemma pools_update_reads [simp]:
  "get_node n (w\<lparr>lb_pools := m\<rparr>) = get_node n w" "get_pool q (w\<lparr>lb_pools := m\<rparr>) = get_pool q w"
  "get_hc h (w\<lparr>lb_pools := m\<rparr>) = get_hc h w"
  by (simp_all add: get_node_def get_pool_def get_hc_def)

lemma pools_update_same [simp]:
  "pool_wf q (w\<lparr>lb_pools := m\<rparr>) = pool_wf q w" "pool_inv q (w\<lparr>lb_pools := m\<rparr>) = pool_inv q w"
  "within_limits q (w\<lparr>lb_pools := m\<rparr>) = within_limits q w"
proof -
  have "up_set ns (w\<lparr>lb_pools := m\<rparr>) = up_set ns w" "enabled_set ns (w\<lparr>lb_pools := m\<rparr>) = enabled_set ns w"
    "marked_set ns (w\<lparr>lb_pools := m\<rparr>) = marked_set ns w" for ns
    by (simp_all add: up_set_def enabled_set_def marked_set_def)
  then show "pool_wf q (w\<lparr>lb_pools := m\<rparr>) = pool_wf q w" "pool_inv q (w\<lparr>lb_pools := m\<rparr>) = pool_inv q w"
    "within_limits q (w\<lparr>lb_pools := m\<rparr>) = within_limits q w"
    by (simp_all add: pool_wf_def pool_inv_def pool_weak_def within_limits_def)
qed

lemma new_entry_linked:
  assumes "name \<notin> fst ` set (lb_pools w)" "linked q w"
  shows "linked q (w\<lparr>lb_pools := map_insert name p (lb_pools w)\<rparr>)"
proof -
  have "map_of (map_insert name p (lb_pools w)) m = map_of (lb_pools w) m" if "map_of (lb_pools w) m = Some c" for m c
  proof -
    have "m \<in> fst ` set (lb_pools w)" using that by (metis map_of_eq_None_iff option.distinct(1))
    then have "m \<noteq> name" using assms(1) by auto
    then show ?thesis by (simp add: map_of_map_insert)
  qed
  then show ?thesis using assms(2) unfolding linked_def Let_def by fastforce
qed

lemma register_pool:
  assumes b: "building name p w0 w" and l: "loaded w0" and name: "name \<notin> fst ` set (lb_pools w0)"
    and run: "pool_logic fuel try_send p None w = Inr w'" and unsynced: "\<not> pf_synced (get_pool p w)"
  shows "loaded (w'\<lparr>lb_pools := map_insert name p (lb_pools w')\<rparr>)"
proof -
  let ?v = "w'\<lparr>lb_pools := map_insert name p (lb_pools w')\<rparr>"
  note first = first_pool_logic [OF assms]
  have lw': "loaded w'" using l first(1) by (rule frame_loaded)
  have name': "name \<notin> fst ` set (lb_pools w')" using name first(1) by (simp add: frame_def)
  note pools = set_map_insert_new [OF name', of p]
  have newp: "pool_name (get_pool p w') = name" "pool_wf p w'" "p \<in> set (pool_dom w')"
    using b building_pool(1) [OF b l] static_eqD [OF first(2)] by (simp_all add: building_def new_pool_def pool_wf_def)
  have newn: "parent_lbpool (get_node n w') = p \<and> n \<in> set (node_dom w') \<and> set (healthchecks (get_node n w')) \<subseteq> set (hc_dom w') \<and>
      \<not> checked (get_node n w') \<and> (\<forall>h \<in> set (healthchecks (get_node n w')). parent_lbnode (get_hc h w') = n)"
    if "n \<in> set (nodes (get_pool p w'))" for n
  proof -
    have "new_node p w0 w n" using b that static_eq_pool(3) [OF first(2)] by (simp add: building_def)
    then show ?thesis using static_eqD [OF first(2)] by (auto simp: new_node_def)
  qed
  have inv': "world_inv w'" "doms_ok w'" "small w'" using lw' by (simp_all add: loaded_def)
  have keys: "is_set (map fst (map_insert name p (lb_pools w')))"
    using inv'(1) by (simp add: pools_inv_def world_wf_def is_set_map_insert)
  have "world_wf ?v"
    using inv'(1) newp newn keys by (simp add: world_wf_def pools) (auto simp: pools_inv_def world_wf_def)
  then have "world_inv ?v"
    using inv'(1) first(3,4) new_entry_linked [OF name'] unfolding pools_inv_def by (auto simp: pools)
  moreover have "small ?v" using inv'(3) first(5) by (simp add: small_def pools)
  moreover have "doms_ok ?v" using inv'(2) newp newn by (simp add: doms_ok_def pools)
  moreover have reg: "registered n w' \<or> n \<in> set (nodes (get_pool p w'))" if "registered n ?v" for n
    using that by (auto simp: registered_def Let_def pools)
  then have "hcs_wf ?v"
    using lw' newn unfolding hcs_wf_def loaded_def pools_update_reads by blast
  moreover have "\<forall>n. registered n ?v \<longrightarrow> \<not> checked (get_node n ?v)"
    using lw' newn reg unfolding loaded_def pools_update_reads by blast
  ultimately show ?thesis using lw' by (simp add: loaded_def)
qed

section \<open>How many nodes a pool can have\<close>

lemma LbNode_ctor_count:
  assumes "fresh_addresses env" "building name p w0 w" "LbNode_ctor env nm config p (w, k) = (w', k')"
  shows "length (nodes (get_pool p w')) = Suc (length (nodes (get_pool p w)))"
proof -
  define n where "n = new_addr env (node_dom w)"
  have "n \<notin> set (node_dom w)" using assms(1) by (simp add: fresh_addresses_def n_def)
  then have n: "n \<notin> set (nodes (get_pool p w))" using assms(2) by (auto simp: building_def new_node_def)
  obtain f where "w' = upd_pool p (\<lambda>x. x\<lparr>nodes := set_insert n (nodes x)\<rparr>) (upd_node n f (w\<lparr>node_dom := n # node_dom w\<rparr>))"
    using assms(3) unfolding LbNode_ctor_def Let_def n_def by (auto split: prod.splits)
  then show ?thesis using set_insert_new_length [OF n] by simp
qed

lemma create_nodes_count:
  assumes f: "fresh_addresses env"
  shows "building name p w0 w \<Longrightarrow> i \<le> MAX_NODES \<Longrightarrow> create_nodes env p i items (w, k) = (w', k') \<Longrightarrow>
     length (nodes (get_pool p w')) = length (nodes (get_pool p w)) + min (MAX_NODES - i) (length items)"
proof (induction items arbitrary: i w k)
  case (Cons it items)
  obtain nm config where it: "it = (nm, config)" by fastforce
  obtain w1 k1 where ctor: "LbNode_ctor env nm config p (w, k) = (w1, k1)" by fastforce
  note b1 = LbNode_ctor_building [OF f Cons.prems(1) ctor] and c1 = LbNode_ctor_count [OF f Cons.prems(1) ctor]
  show ?case
  proof (cases "i < MAX_NODES")
    case True
    then have "create_nodes env p (i + 1) items (w1, k1) = (w', k')" using Cons.prems(3) it ctor by simp
    from Cons.IH [OF b1 _ this] True c1 show ?thesis by simp
  next
    case False
    then have i: "i = MAX_NODES" using Cons.prems(2) by simp
    then have "create_nodes env p i items (w, k) = (w', k')" using Cons.prems(3) it by simp
    from Cons.IH [OF Cons.prems(1,2) this] i show ?thesis by simp
  qed
qed simp

lemma healthchecks_for_nodes:
  assumes f: "fresh_addresses env"
  shows "building name p w0 w \<Longrightarrow> snd ` set cs \<subseteq> set (nodes (get_pool p w)) \<Longrightarrow>
     healthchecks_for env cs w = (r, w') \<Longrightarrow> nodes (get_pool p w') = nodes (get_pool p w)"
proof (induction cs arbitrary: w)
  case (Cons c cs)
  obtain config n where c: "c = (config, n)" by fastforce
  obtain r1 w1 where step: "node_healthchecks env config n w = (r1, w1)" by fastforce
  have "building name p w0 w1 \<and> nodes (get_pool p w1) = nodes (get_pool p w)"
    using node_healthchecks_building [OF f Cons.prems(1) _ step] Cons.prems(2) c by simp
  then show ?case using Cons step c by (cases r1) auto
qed simp

lemma pool_logic_unsynced_limit:
  assumes "pool_logic fuel try_send p None w = Inr w'" "\<not> pf_synced (get_pool p w)"
  shows "length (nodes (get_pool p w)) < MAX_NODES"
proof -
  obtain f w1 where "sync_pool try_send p (recompute p None w) = Inr w1"
    using assms(1) by (cases fuel) (auto split: sum.splits)
  from sync_unsynced_limits(1) [OF this recompute_unsynced [OF assms(2)]]
  show ?thesis using static_eq_pool [OF recompute_static [of w p None], of p] by simp
qed

section \<open>Loading the whole configuration\<close>

text \<open>
  The stages of the constructor of a pool: the nodes and health checks are built, then the pool
  logic runs for the first time.
\<close>

lemma LbPool_ctor_stages:
  assumes fresh: "fresh_addresses env" and "not_lb_pool (lib env) config = None"
  obtains p w3 k2 r3 where
    "LbPool_ctor env fuel try_send name config (w, k) =
       (case r3 of Inl e \<Rightarrow> (Inl e, w3, k2)
        | Inr (u :: unit) \<Rightarrow> let w4 = upd_pool p (\<lambda>x. x\<lparr>pf_synced := False\<rparr>) w3 in
            (case pool_logic fuel try_send p None w4 of Inl e \<Rightarrow> (Inl e, w4, k2) | Inr w \<Rightarrow> (Inr p, w, k2)))"
    "p \<notin> set (pool_dom w)" "building name p w w3"
    "length (nodes (get_pool p w3)) = min MAX_NODES (length (json_items (lib env) (json_index (lib env) config ''nodes'')))"
proof -
  let ?items = "json_items (lib env) (json_index (lib env) config ''nodes'')"
  define p where "p = new_addr env (pool_dom w)"
  have p: "p \<notin> set (pool_dom w)" using fresh by (simp add: fresh_addresses_def p_def)
  define w1 where "w1 = upd_pool p (init_pool (lib env) name config) (w\<lparr>pool_dom := p # pool_dom w\<rparr>)"
  have b1: "building name p w w1" unfolding w1_def by (rule building_init [OF p])
  obtain w2 k2 where c2: "create_nodes env p 0 ?items (w1, k) = (w2, k2)" by fastforce
  have b2: "building name p w w2" using create_nodes_building [OF fresh b1 c2] .
  let ?cs = "List.product (json_elems (lib env) (json_index (lib env) config ''health_checks'')) (nodes (get_pool p w2))"
  obtain r3 w3 where c3: "healthchecks_for env ?cs w2 = (r3, w3)" by fastforce
  have b3: "building name p w w3" by (rule healthchecks_for_building [OF fresh b2 _ c3]) auto
  have n3: "nodes (get_pool p w3) = nodes (get_pool p w2)" by (rule healthchecks_for_nodes [OF fresh b2 _ c3]) auto
  have n2: "length (nodes (get_pool p w2)) = min MAX_NODES (length ?items)"
    using create_nodes_count [OF fresh b1 _ c2] by (simp add: w1_def init_pool_def Let_def)
  have run: "LbPool_ctor env fuel try_send name config (w, k) =
      (case r3 of Inl e \<Rightarrow> (Inl e, w3, k2)
       | Inr u \<Rightarrow> let w4 = upd_pool p (\<lambda>x. x\<lparr>pf_synced := False\<rparr>) w3 in
           (case pool_logic fuel try_send p None w4 of Inl e \<Rightarrow> (Inl e, w4, k2) | Inr w \<Rightarrow> (Inr p, w, k2)))"
    unfolding LbPool_ctor_def assms(2) option.case Let_def prod.case p_def [symmetric] w1_def [symmetric] c2 c3 by simp
  from that [OF run p b3] n2 n3 show ?thesis by simp
qed

lemma building_unsynced:
  assumes "building name p w0 w" "p \<notin> set (pool_dom w0)"
  shows "building name p w0 (upd_pool p (\<lambda>x. x\<lparr>pf_synced := False\<rparr>) w)"
proof -
  have "frame w0 (upd_pool p (\<lambda>x. x\<lparr>pf_synced := False\<rparr>) w)"
    using assms by (intro frame_upd_pool) (auto simp: building_def)
  then show ?thesis using assms(1) by (auto simp: building_def new_pool_def new_node_def)
qed

text \<open>The constructor throws before the pool logic ran, or the pool is complete and its logic has run once.\<close>

lemma LbPool_ctor_cases:
  assumes fresh: "fresh_addresses env" and run: "LbPool_ctor env fuel try_send name config (w, k) = (r, w', k')"
  obtains (thrown) e where "r = Inl e" "frame w w'" "pfctl_mq w' = pfctl_mq w"
  | (built) p v where "r = Inr p" "building name p w v" "\<not> pf_synced (get_pool p v)" "pool_logic fuel try_send p None v = Inr w'"
proof (cases "not_lb_pool (lib env) config")
  case (Some e)
  then show ?thesis using run thrown by (auto simp: LbPool_ctor_def)
next
  case None
  obtain p w3 k2 r3 where stages: "LbPool_ctor env fuel try_send name config (w, k) =
      (case r3 of Inl e \<Rightarrow> (Inl e, w3, k2)
       | Inr (u :: unit) \<Rightarrow> let w4 = upd_pool p (\<lambda>x. x\<lparr>pf_synced := False\<rparr>) w3 in
           (case pool_logic fuel try_send p None w4 of Inl e \<Rightarrow> (Inl e, w4, k2) | Inr w \<Rightarrow> (Inr p, w, k2)))"
    "p \<notin> set (pool_dom w)" "building name p w w3"
    "length (nodes (get_pool p w3)) = min MAX_NODES (length (json_items (lib env) (json_index (lib env) config ''nodes'')))"
    by (rule LbPool_ctor_stages [OF fresh None])
  define w4 where "w4 = upd_pool p (\<lambda>x. x\<lparr>pf_synced := False\<rparr>) w3"
  have b4: "building name p w w4" "\<not> pf_synced (get_pool p w4)"
    using building_unsynced [OF stages(3,2)] by (simp_all add: w4_def)
  consider e where "r = Inl e" "w' = w3 \<or> w' = w4" | "r = Inr p" "pool_logic fuel try_send p None w4 = Inr w'"
    using run stages(1) unfolding w4_def by (auto simp: Let_def split: sum.splits)
  then show ?thesis
    using thrown built [OF _ b4] stages(3) b4(1) by cases (auto simp: building_def)
qed

lemma LbPool_ctor_loaded:
  assumes fresh: "fresh_addresses env" and l: "loaded w" and name: "name \<notin> fst ` set (lb_pools w)"
    and run: "LbPool_ctor env fuel try_send name config (w, k) = (r, w', k')"
  shows "case r of Inl e \<Rightarrow> loaded w' \<and> lb_pools w' = lb_pools w
         | Inr p \<Rightarrow> pool_name (get_pool p w') = name \<and> lb_pools w' = lb_pools w \<and>
                    loaded (w'\<lparr>lb_pools := map_insert name p (lb_pools w')\<rparr>)"
  using fresh run
proof (cases rule: LbPool_ctor_cases)
  case (thrown e)
  then show ?thesis using frame_loaded [OF l] by (simp add: frame_def)
next
  case (built p v)
  note reg = register_pool [OF built(2) l name built(4,3)] first_pool_logic [OF built(2) l name built(4,3)]
  have "pool_name (get_pool p w') = name"
    using built(2) static_eq_pool(1) [OF reg(3)] by (simp add: building_def new_pool_def)
  then show ?thesis using built(1) reg by (simp add: frame_def)
qed

text \<open>A pool that was constructed has all its nodes, and the first message to the worker bounds them.\<close>

lemma LbPool_ctor_size:
  assumes fresh: "fresh_addresses env" and run: "LbPool_ctor env fuel try_send name config (w, k) = (Inr p, w', k')"
  shows "length (json_items (lib env) (json_index (lib env) config ''nodes'')) < MAX_NODES"
    "length (nodes (get_pool p w')) = length (json_items (lib env) (json_index (lib env) config ''nodes''))"
proof -
  have none: "not_lb_pool (lib env) config = None" using run by (auto simp: LbPool_ctor_def split: option.splits)
  obtain q w3 k2 r3 where stages: "LbPool_ctor env fuel try_send name config (w, k) =
      (case r3 of Inl e \<Rightarrow> (Inl e, w3, k2)
       | Inr (u :: unit) \<Rightarrow> let w4 = upd_pool q (\<lambda>x. x\<lparr>pf_synced := False\<rparr>) w3 in
           (case pool_logic fuel try_send q None w4 of Inl e \<Rightarrow> (Inl e, w4, k2) | Inr w \<Rightarrow> (Inr q, w, k2)))"
    "q \<notin> set (pool_dom w)" "building name q w w3"
    "length (nodes (get_pool q w3)) = min MAX_NODES (length (json_items (lib env) (json_index (lib env) config ''nodes'')))"
    by (rule LbPool_ctor_stages [OF fresh none])
  have logic: "pool_logic fuel try_send q None (upd_pool q (\<lambda>x. x\<lparr>pf_synced := False\<rparr>) w3) = Inr w'" "p = q"
    using run stages(1) by (auto simp: Let_def split: sum.splits)
  have "length (nodes (get_pool q w3)) < MAX_NODES" using pool_logic_unsynced_limit [OF logic(1)] by simp
  moreover have "nodes (get_pool q w') = nodes (get_pool q w3)" using static_eq_pool(3) [OF pool_logic_static(1) [OF logic(1)]] by simp
  ultimately show "length (json_items (lib env) (json_index (lib env) config ''nodes'')) < MAX_NODES"
    "length (nodes (get_pool p w')) = length (json_items (lib env) (json_index (lib env) config ''nodes''))"
    using stages(4) logic(2) by simp_all
qed

lemma load_pools_loaded:
  assumes fresh: "fresh_addresses env"
  shows "loaded w \<Longrightarrow> distinct (map fst items) \<Longrightarrow> set (map fst items) \<inter> fst ` set (lb_pools w) = {} \<Longrightarrow>
     load_pools env fuel try_send items (w, k) = Inr (w', k') \<Longrightarrow>
     loaded w' \<and> fst ` set (lb_pools w') \<subseteq> fst ` set (lb_pools w) \<union> set (map fst items)"
proof (induction items arbitrary: w k)
  case (Cons it items)
  obtain name config where it: "it = (name, config)" by fastforce
  obtain r w1 k1 where ctor: "LbPool_ctor env fuel try_send name config (w, k) = (r, w1, k1)" by (metis prod.collapse)
  have name: "name \<notin> fst ` set (lb_pools w)" using Cons.prems(3) it by auto
  note c = LbPool_ctor_loaded [OF fresh Cons.prems(1) name ctor]
  show ?case
  proof (cases r)
    case (Inr p)
    let ?w = "w1\<lparr>lb_pools := map_insert name p (lb_pools w1)\<rparr>"
    have keys: "fst ` set (lb_pools ?w) = insert name (fst ` set (lb_pools w))"
      using c Inr by (simp add: keys_map_insert)
    have "load_pools env fuel try_send items (?w, k1) = Inr (w', k')"
      using Cons.prems(4) it ctor Inr c by simp
    then have "loaded w' \<and> fst ` set (lb_pools w') \<subseteq> fst ` set (lb_pools ?w) \<union> set (map fst items)"
      using c Inr Cons.prems(2,3) it keys by (intro Cons.IH) auto
    then show ?thesis using keys it by auto
  next
    case (Inl e)
    then obtain m where e: "e = NotLbPoolException m"
      using Cons.prems(4) it ctor by (cases e) auto
    then have "load_pools env fuel try_send items (w1, k1) = Inr (w', k')"
      using Cons.prems(4) it ctor Inl by simp
    moreover have "loaded w1" "lb_pools w1 = lb_pools w" using c Inl e by auto
    ultimately have "loaded w' \<and> fst ` set (lb_pools w') \<subseteq> fst ` set (lb_pools w1) \<union> set (map fst items)"
      using Cons.prems(2,3) it by (intro Cons.IH) auto
    then show ?thesis using \<open>lb_pools w1 = lb_pools w\<close> it by auto
  qed
qed simp

text \<open>The main process before it loads its configuration.\<close>

definition empty_world :: "'q world \<Rightarrow> bool" where
  "empty_world w \<longleftrightarrow> lb_pools w = [] \<and> seq_map w = (\<lambda>s. None)"

lemma empty_world_loaded: "empty_world w \<Longrightarrow> loaded w"
  by (simp add: empty_world_def loaded_def pools_inv_def world_wf_def small_def hcs_wf_def registered_def doms_ok_def)

lemma loaded_live:
  assumes "loaded w" "acyclic (backup_rel w)" "length (lb_pools w) < fuel"
  shows "live fuel w"
  using assms by (simp add: live_def loaded_def sound_def agrees_def seqs_attached_def)

lemma load_config_live:
  assumes fresh: "fresh_addresses env" and e: "empty_world w" and keys: "distinct (map fst (json_items (lib env) config))"
    and run: "load_config env fuel try_send config (w, k) = Inr (w', k')" and ac: "acyclic (backup_rel w')"
  shows "live (Suc (length (lb_pools w'))) w'"
proof -
  have "loaded w'"
    using load_pools_loaded [OF fresh empty_world_loaded [OF e] keys] run e
    by (simp add: load_config_def empty_world_def)
  then show ?thesis using ac by (intro loaded_live) simp_all
qed

end
