(* ===== verification/Pf_Sync.thy ===== *)
theory Pf_Sync
  imports Pfctl
begin

text \<open>
  What \<open>pf_sync_table\<close> achieves. The behaviour of \<open>/sbin/pfctl\<close> it relies on is stated as a
  contract over an observation \<open>tbl\<close> of the packet filter: the addresses in each table.
\<close>

section \<open>Reading the output of a command\<close>

lemma fgets_chunk_set: "set (fst (fgets_chunk n s)) \<subseteq> set s" "set (snd (fgets_chunk n s)) \<subseteq> set s"
  using arg_cong [OF fgets_chunk_append [of n s], of set] by auto

lemma fgets_all_id: "NUL \<notin> set s \<Longrightarrow> fgets_all s = s"
proof (induction s rule: fgets_all.induct)
  case (1 s)
  show ?case
  proof (cases "s = []")
    case False
    have "NUL \<notin> set (fst (fgets_chunk 1023 s))" "NUL \<notin> set (snd (fgets_chunk 1023 s))"
      using 1(2) fgets_chunk_set by blast+
    then show ?thesis
      using 1(1) False fgets_chunk_append [of 1023 s] by (simp add: fgets_all.simps [of s] c_str_no_NUL)
  qed (simp add: fgets_all.simps)
qed

lemma getlines_Nil [simp]: "getlines [] = []"
  by (simp add: getlines.simps)

lemma getlines_line: "newline \<notin> set l \<Longrightarrow> getlines (l @ newline # s) = l # getlines s"
proof -
  assume "newline \<notin> set l"
  then have "takeWhile (\<lambda>c. c \<noteq> newline) (l @ newline # s) = l"
    "dropWhile (\<lambda>c. c \<noteq> newline) (l @ newline # s) = newline # s"
    by (auto simp: takeWhile_tail dropWhile_append3)
  then show ?thesis by (simp add: getlines.simps [of "l @ newline # s"])
qed

lemma getlines_lines:
  "\<forall>l \<in> set ls. newline \<notin> set l \<Longrightarrow> getlines (concat (map (\<lambda>l. l @ [newline]) ls)) = ls"
  by (induction ls) (simp_all add: getlines_line)

lemma parse_addresses_set:
  "set (parse_addresses sys ls R) = set R \<union> {a. a \<in> boost_trim sys ` set ls \<and> make_address_ok sys a}"
  by (induction sys ls R rule: parse_addresses.induct) auto

lemma parse_addresses_is_set: "is_set R \<Longrightarrow> is_set (parse_addresses sys ls R)"
  by (induction sys ls R rule: parse_addresses.induct) auto

section \<open>The contract of the command\<close>

text \<open>Arguments that the shell passes on as they are.\<close>

definition word :: "string \<Rightarrow> bool" where
  "word s \<longleftrightarrow> s \<noteq> [] \<and> NUL \<notin> set s \<and> newline \<notin> set s \<and> CHR '' '' \<notin> set s"

text \<open>
  The documented behaviour of \<open>pfctl -t t -T show\<close>, \<open>add\<close> and \<open>del\<close>: \<open>show\<close> prints the addresses
  of the table, one per indented line, and fails for a table that does not exist; \<open>add\<close> and \<open>del\<close>
  change the named table and print nothing (\<open>-q\<close>). Killing states or source nodes changes no
  table. The command can always be started, and the libraries trim the indentation and accept an
  address of a table.
\<close>

definition show_spec :: "('k \<Rightarrow> string \<Rightarrow> string set) \<Rightarrow> 'k pf_sys \<Rightarrow> bool" where
  "show_spec tbl sys \<longleftrightarrow>
     (\<forall>k t. word t \<longrightarrow>
        (\<exists>out ret k'. popen sys (pfctl_cmd [''-t'', t, ''-T'', ''show'']) k = (Some (out, ret), k') \<and> tbl k' = tbl k \<and>
           (if ret = 0
            then \<exists>as. set as = tbl k t \<and> out = concat (map (\<lambda>a. (''   '' @ a) @ [newline]) as)
            else out = [] \<and> tbl k t = {})))"

definition change_spec :: "('k \<Rightarrow> string \<Rightarrow> string set) \<Rightarrow> 'k pf_sys \<Rightarrow> bool" where
  "change_spec tbl sys \<longleftrightarrow>
     (\<forall>k t as. word t \<and> (\<forall>a \<in> set as. word a) \<longrightarrow>
        (\<exists>ret k'. popen sys (pfctl_cmd ([''-t'', t, ''-T'', ''add''] @ as)) k = (Some ([], ret), k') \<and>
           tbl k' = (if ret = 0 then (tbl k)(t := tbl k t \<union> set as) else tbl k)) \<and>
        (\<exists>ret k'. popen sys (pfctl_cmd ([''-t'', t, ''-T'', ''del''] @ as)) k = (Some ([], ret), k') \<and>
           tbl k' = (if ret = 0 then (tbl k)(t := tbl k t - set as) else tbl k)))"

definition kill_spec :: "('k \<Rightarrow> string \<Rightarrow> string set) \<Rightarrow> 'k pf_sys \<Rightarrow> bool" where
  "kill_spec tbl sys \<longleftrightarrow>
     (\<forall>k flag args. flag \<in> {''-K'', ''-k''} \<longrightarrow> tbl (snd (popen sys (pfctl_cmd (flag # args)) k)) = tbl k)"

definition pfctl_contract :: "('k \<Rightarrow> string \<Rightarrow> string set) \<Rightarrow> 'k pf_sys \<Rightarrow> bool" where
  "pfctl_contract tbl sys \<longleftrightarrow>
     show_spec tbl sys \<and> change_spec tbl sys \<and> kill_spec tbl sys \<and>
     (\<forall>k t. \<forall>a \<in> tbl k t. word a \<and> boost_trim sys (''   '' @ a) = a \<and> make_address_ok sys a)"

lemma changeD:
  assumes "pfctl_contract tbl sys" "word t" "\<forall>a \<in> set as. word a"
  shows "\<exists>ret k'. popen sys (pfctl_cmd ([''-t'', t, ''-T'', ''add''] @ as)) k = (Some ([], ret), k') \<and>
           tbl k' = (if ret = 0 then (tbl k)(t := tbl k t \<union> set as) else tbl k)"
    "\<exists>ret k'. popen sys (pfctl_cmd ([''-t'', t, ''-T'', ''del''] @ as)) k = (Some ([], ret), k') \<and>
           tbl k' = (if ret = 0 then (tbl k)(t := tbl k t - set as) else tbl k)"
  using assms unfolding pfctl_contract_def change_spec_def by blast+

section \<open>The single commands\<close>

lemma show_lines:
  assumes "\<forall>a \<in> set as. word a"
  shows "getlines (fgets_all (concat (map (\<lambda>a. (''   '' @ a) @ [newline]) as))) = map (\<lambda>a. ''   '' @ a) as"
proof -
  let ?ls = "map (\<lambda>a. ''   '' @ a) as"
  have "concat (map (\<lambda>a. (''   '' @ a) @ [newline]) as) = concat (map (\<lambda>l. l @ [newline]) ?ls)"
    by (simp add: comp_def)
  moreover have "NUL \<notin> set (concat (map (\<lambda>l. l @ [newline]) ?ls))"
    using assms by (auto simp: word_def NUL_def newline_def)
  moreover have "\<forall>l \<in> set ?ls. newline \<notin> set l"
    using assms by (auto simp: word_def newline_def)
  ultimately show ?thesis using fgets_all_id getlines_lines by metis
qed

lemma pf_get_table_contract:
  assumes c: "pfctl_contract tbl sys" and act: "pf_action sys" and t: "word t"
    and run: "pf_get_table sys t k = ((ok, cur), k')"
  shows "tbl k' = tbl k \<and> (ok \<longrightarrow> set cur = tbl k t \<and> is_set cur)"
proof -
  obtain out ret k1 where sh: "popen sys (pfctl_cmd [''-t'', t, ''-T'', ''show'']) k = (Some (out, ret), k1)"
    "tbl k1 = tbl k"
    and printed: "if ret = 0 then \<exists>as. set as = tbl k t \<and> out = concat (map (\<lambda>a. (''   '' @ a) @ [newline]) as)
                  else out = [] \<and> tbl k t = {}"
    using c t unfolding pfctl_contract_def show_spec_def by meson
  obtain ret2 k2 where add: "popen sys (pfctl_cmd [''-t'', t, ''-T'', ''add'']) k1 = (Some ([], ret2), k2)"
    "tbl k2 = tbl k1"
    using changeD(1) [OF c t, of "[]" k1] by (auto split: if_splits)
  show ?thesis
  proof (cases "ret = 0")
    case True
    then obtain as where as: "set as = tbl k t" "out = concat (map (\<lambda>a. (''   '' @ a) @ [newline]) as)"
      using printed by auto
    have ok: "word a \<and> boost_trim sys (''   '' @ a) = a \<and> make_address_ok sys a" if "a \<in> set as" for a
      using c that as(1) by (auto simp: pfctl_contract_def)
    then have "cur = parse_addresses sys (map (\<lambda>a. ''   '' @ a) as) []" "k' = k1"
      using run sh(1) act True show_lines [of as] as(2) by (auto simp: pf_get_table_def pfctl_run_command_def)
    moreover have "set (parse_addresses sys (map (\<lambda>a. ''   '' @ a) as) []) = set as"
      using ok by (auto simp: parse_addresses_set image_iff)
    ultimately show ?thesis using sh(2) as(1) by (simp add: parse_addresses_is_set)
  next
    case False
    then have "out = []" "tbl k t = {}" using printed by auto
    then show ?thesis
      using False run sh add act
      by (auto simp: pf_get_table_def pfctl_run_command_def fgets_all_id split: if_splits bool.splits)
  qed
qed

lemma pf_table_add_True:
  assumes "pfctl_contract tbl sys" "pf_action sys" "word t" "\<forall>a \<in> set as. word a"
    and "pf_table_add sys t as k = (True, k')"
  shows "tbl k' = (tbl k)(t := tbl k t \<union> set as)"
proof (cases as)
  case Nil
  then show ?thesis using assms(5) by (simp add: pf_table_add_def)
next
  case Cons
  obtain ret k1 where "popen sys (pfctl_cmd ([''-t'', t, ''-T'', ''add''] @ as)) k = (Some ([], ret), k1)"
    "ret = 0 \<longrightarrow> tbl k1 = (tbl k)(t := tbl k t \<union> set as)"
    using changeD(1) [OF assms(1,3,4), of k] by auto
  then show ?thesis
    using Cons assms(2,5) by (auto simp: pf_table_add_def pfctl_run_command_def)
qed

lemma pf_table_del_True:
  assumes "pfctl_contract tbl sys" "pf_action sys" "word t" "\<forall>a \<in> set as. word a"
    and "pf_table_del sys t as k = (True, k')"
  shows "tbl k' = (tbl k)(t := tbl k t - set as)"
proof (cases as)
  case Nil
  then show ?thesis using assms(5) by (simp add: pf_table_del_def)
next
  case Cons
  obtain ret k1 where "popen sys (pfctl_cmd ([''-t'', t, ''-T'', ''del''] @ as)) k = (Some ([], ret), k1)"
    "ret = 0 \<longrightarrow> tbl k1 = (tbl k)(t := tbl k t - set as)"
    using changeD(2) [OF assms(1,3,4), of k] by auto
  then show ?thesis
    using Cons assms(2,5) by (auto simp: pf_table_del_def pfctl_run_command_def)
qed

text \<open>Killing states and source nodes.\<close>

lemma snd_run_command:
  "snd (pfctl_run_command sys args b k) = (if pf_action sys then snd (popen sys (pfctl_cmd args) k) else k)"
  by (auto simp: pfctl_run_command_def split: prod.splits option.splits)

lemma snd_ret_pair: "snd (case r of ((ret, x), k) \<Rightarrow> (ret, k)) = snd r"
  by (simp split: prod.splits)

lemma kill_src_nodes_tables:
  "kill_spec tbl sys \<Longrightarrow> tbl (snd (pf_kill_src_nodes_to sys t a b k)) = tbl k"
  by (simp add: pf_kill_src_nodes_to_def snd_ret_pair snd_run_command kill_spec_def)

lemma kill_states_tables:
  "kill_spec tbl sys \<Longrightarrow> tbl (snd (pf_kill_states_to_rdr sys t a k)) = tbl k"
  by (simp add: pf_kill_states_to_rdr_def snd_ret_pair snd_run_command kill_spec_def)

lemma kill_address_tables: "kill_spec tbl sys \<Longrightarrow> tbl (kill_address sys t d b a k) = tbl k"
  by (simp add: kill_address_def Let_def kill_src_nodes_tables kill_states_tables)

lemma kill_removed_tables: "kill_spec tbl sys \<Longrightarrow> tbl (kill_removed sys t d ss k) = tbl k"
  by (induction sys t d ss k rule: kill_removed.induct) (simp_all add: protos_def kill_address_tables)

lemma kill_others_tables: "kill_spec tbl sys \<Longrightarrow> tbl (snd (kill_others sys t skip as k)) = tbl k"
proof (induction sys t skip as k rule: kill_others.induct)
  case (2 sys table skip address rest k)
  obtain r k1 where r: "pf_kill_src_nodes_to sys table address False k = (r, k1)" by fastforce
  have "tbl k1 = tbl k" using kill_src_nodes_tables [OF 2(3), of table address False k] r by simp
  then show ?case using 2 r by (cases r) auto
qed simp

lemma rebalance_tables:
  assumes c: "pfctl_contract tbl sys" and act: "pf_action sys" and t: "word t"
  shows "tbl (snd (pf_table_rebalance sys t skip k)) = tbl k"
proof -
  obtain ok cur k1 where g: "pf_get_table sys t k = ((ok, cur), k1)" by (metis prod.collapse)
  then show ?thesis
    using pf_get_table_contract [OF c act t g] kill_others_tables [of tbl sys] c
    by (cases ok) (simp_all add: pf_table_rebalance_def pfctl_contract_def)
qed

section \<open>The whole synchronisation\<close>

text \<open>The addresses the worker wants in the table.\<close>

definition entry_addresses :: "SyncedLbNode \<Rightarrow> string set" where
  "entry_addresses s = c_str ` set (protos s) - {[]}"

lemma wanted_addresses_set:
  "set (wanted_addresses ss W) =
     set W \<union> \<Union> (entry_addresses ` {s \<in> set ss. wanted_state s = NODE_UP \<and> synced_admin_state s = STATE_ENABLED})"
  by (induction ss W rule: wanted_addresses.induct) (auto simp: entry_addresses_def protos_def)

lemma pf_sync_table_True:
  assumes c: "pfctl_contract tbl sys" and act: "pf_action sys" and t: "word t"
    and want: "\<forall>a \<in> set (wanted_addresses ss []). word a"
    and run: "pf_sync_table sys t ss k = (True, k')"
  shows "tbl k' = (tbl k)(t := set (wanted_addresses ss []))"
proof -
  let ?want = "wanted_addresses ss []"
  obtain cur k1 where g: "pf_get_table sys t k = ((True, cur), k1)"
    using run by (auto simp: pf_sync_table_def split: prod.splits bool.splits)
  have cur: "tbl k1 = tbl k" "set cur = tbl k t" using pf_get_table_contract [OF c act t g] by simp_all
  let ?del = "set_difference cur ?want" and ?add = "set_difference ?want cur"
  obtain k2 where d: "pf_table_del sys t ?del k1 = (True, k2)"
    using run g by (auto simp: pf_sync_table_def Let_def split: prod.splits bool.splits)
  obtain k3 where a: "pf_table_add sys t ?add (kill_removed sys t ?del ss k2) = (True, k3)"
    using run g d by (auto simp: pf_sync_table_def Let_def split: prod.splits bool.splits)
  have k': "k' = (if length ?add \<noteq> 0 then snd (pf_table_rebalance sys t ?add k3) else k3)"
    using run g d a by (simp add: pf_sync_table_def Let_def split: if_splits)
  have "\<forall>a \<in> tbl k t. word a" using c by (simp add: pfctl_contract_def)
  then have "tbl k2 = (tbl k)(t := tbl k t - set ?del)"
    using pf_table_del_True [OF c act t _ d] cur by auto
  moreover have "tbl (kill_removed sys t ?del ss k2) = tbl k2"
    using c by (intro kill_removed_tables) (simp add: pfctl_contract_def)
  ultimately have "tbl k3 = (tbl k)(t := tbl k t - set ?del \<union> set ?add)"
    using pf_table_add_True [OF c act t _ a] want by auto
  also have "tbl k t - set ?del \<union> set ?add = set ?want" using cur by auto
  finally show ?thesis
    using k' rebalance_tables [OF c act t, of ?add k3] by (cases "length ?add = 0") (simp_all add: fun_upd_def)
qed

text \<open>It succeeds when every command does, and does nothing when pf actions are switched off.\<close>

definition never_fails :: "'k pf_sys \<Rightarrow> bool" where
  "never_fails sys \<longleftrightarrow> (\<forall>cmd k. \<exists>out. fst (popen sys cmd k) = Some (out, 0))"

lemma run_command_never_fails:
  assumes "never_fails sys \<or> \<not> pf_action sys"
  obtains lines k' where "pfctl_run_command sys args b k = ((True, lines), k')"
proof (cases "pf_action sys")
  case True
  then obtain out where "fst (popen sys (pfctl_cmd args) k) = Some (out, 0)"
    using assms unfolding never_fails_def by blast
  then obtain k' where "popen sys (pfctl_cmd args) k = (Some (out, 0), k')" by (metis prod.collapse)
  then show ?thesis using that True by (simp add: pfctl_run_command_def)
next
  case False
  then show ?thesis using that by (simp add: pfctl_run_command_def)
qed

lemma commands_never_fail:
  assumes "never_fails sys \<or> \<not> pf_action sys"
  shows "\<exists>cur k'. pf_get_table sys t k = ((True, cur), k')"
    "\<exists>k'. pf_table_add sys t as k = (True, k')" "\<exists>k'. pf_table_del sys t as k = (True, k')"
proof -
  obtain l1 k1 where "pfctl_run_command sys [''-t'', t, ''-T'', ''show''] True k = ((True, l1), k1)"
    by (rule run_command_never_fails [OF assms])
  then show "\<exists>cur k'. pf_get_table sys t k = ((True, cur), k')" by (simp add: pf_get_table_def)
  obtain l2 k2 where "pfctl_run_command sys ([''-t'', t, ''-T'', ''add''] @ as) False k = ((True, l2), k2)"
    by (rule run_command_never_fails [OF assms])
  then show "\<exists>k'. pf_table_add sys t as k = (True, k')" by (simp add: pf_table_add_def)
  obtain l3 k3 where "pfctl_run_command sys ([''-t'', t, ''-T'', ''del''] @ as) False k = ((True, l3), k3)"
    by (rule run_command_never_fails [OF assms])
  then show "\<exists>k'. pf_table_del sys t as k = (True, k')" by (simp add: pf_table_del_def)
qed

lemma pf_sync_table_succeeds:
  assumes "never_fails sys \<or> \<not> pf_action sys"
  shows "\<exists>k'. pf_sync_table sys t ss k = (True, k')"
proof -
  obtain cur k1 where "pf_get_table sys t k = ((True, cur), k1)" using commands_never_fail(1) [OF assms] by blast
  moreover obtain k2 where "pf_table_del sys t (set_difference cur (wanted_addresses ss [])) k1 = (True, k2)"
    using commands_never_fail(3) [OF assms] by blast
  moreover obtain k3 where "pf_table_add sys t (set_difference (wanted_addresses ss []) cur)
      (kill_removed sys t (set_difference cur (wanted_addresses ss [])) ss k2) = (True, k3)"
    using commands_never_fail(2) [OF assms] by blast
  ultimately show ?thesis by (simp add: pf_sync_table_def Let_def)
qed

section \<open>The commands that kill states\<close>

text \<open>One command of \<open>pfctl\<close>, whatever it answers.\<close>

definition run_pfctl :: "'k pf_sys \<Rightarrow> string list \<Rightarrow> 'k \<Rightarrow> 'k" where
  "run_pfctl sys args k = snd (popen sys (pfctl_cmd args) k)"

definition kill_src_args :: "string \<Rightarrow> bool \<Rightarrow> string \<Rightarrow> string list" where
  "kill_src_args t with_states a =
     [''-K'', ''table'', ''-K'', t, ''-K'', ''dsthost'', ''-K'', a] @
     (if with_states then [''-K'', ''kill'', ''-K'', ''rststates''] else [])"

definition kill_states_args :: "string \<Rightarrow> string \<Rightarrow> string list" where
  "kill_states_args t a =
     [''-k'', ''table'', ''-k'', t, ''-k'', ''rdrhost'', ''-k'', a, ''-k'', ''kill'', ''-k'', ''rststates'']"

text \<open>
  What has to happen to an address that was removed: a drained node only loses its source nodes,
  any other node also its states, and its source nodes once more.
\<close>

definition removal_commands :: "string \<Rightarrow> LbNodeAdminState \<Rightarrow> string \<Rightarrow> string list list" where
  "removal_commands t a ip =
     (if a = STATE_DRAIN_HARD \<or> a = STATE_DRAIN_SOFT then [kill_src_args t False ip]
      else [kill_src_args t True ip, kill_states_args t ip, kill_src_args t True ip])"

definition removals :: "string list \<Rightarrow> SyncedLbNode list \<Rightarrow> (LbNodeAdminState \<times> string) list" where
  "removals to_del ss =
     concat (map (\<lambda>s. map (\<lambda>ip. (synced_admin_state s, c_str ip))
                        (filter (\<lambda>ip. c_str ip \<noteq> [] \<and> c_str ip \<in> set to_del) (protos s))) ss)"

lemma snd_kill_src: "pf_action sys \<Longrightarrow> snd (pf_kill_src_nodes_to sys t a b k) = run_pfctl sys (kill_src_args t b a) k"
  by (simp add: pf_kill_src_nodes_to_def snd_ret_pair snd_run_command run_pfctl_def kill_src_args_def)

lemma snd_kill_states: "pf_action sys \<Longrightarrow> snd (pf_kill_states_to_rdr sys t a k) = run_pfctl sys (kill_states_args t a) k"
  by (simp add: pf_kill_states_to_rdr_def snd_ret_pair snd_run_command run_pfctl_def kill_states_args_def)

lemma kill_address_commands:
  assumes "pf_action sys"
  shows "kill_address sys t to_del (\<not> (a \<le> STATE_DRAIN_SOFT)) ip k =
     (if c_str ip \<noteq> [] \<and> c_str ip \<in> set to_del then fold (run_pfctl sys) (removal_commands t a (c_str ip)) k else k)"
  using assms by (auto simp: kill_address_def Let_def snd_kill_src snd_kill_states removal_commands_def)

lemma kill_removed_commands:
  assumes "pf_action sys"
  shows "kill_removed sys t to_del ss k =
     fold (run_pfctl sys) (concat (map (\<lambda>(a, ip). removal_commands t a ip) (removals to_del ss))) k"
proof (induction ss arbitrary: k)
  case (Cons s ss)
  then show ?case
    by (simp add: removals_def protos_def kill_address_commands [OF assms] del: le_drain_soft)
qed (simp add: removals_def)

section \<open>Dry runs\<close>

lemma dry_commands:
  assumes "\<not> pf_action sys"
  shows "pfctl_run_command sys args b k = ((True, []), k)" "snd (pf_kill_src_nodes_to sys t a c k) = k"
    "snd (pf_kill_states_to_rdr sys t a k) = k"
  using assms by (simp_all add: pfctl_run_command_def pf_kill_src_nodes_to_def pf_kill_states_to_rdr_def)

lemma dry_kill_address: "\<not> pf_action sys \<Longrightarrow> kill_address sys t d b a k = k"
  by (simp add: kill_address_def Let_def dry_commands)

lemma dry_kill_removed: "\<not> pf_action sys \<Longrightarrow> kill_removed sys t d ss k = k"
  by (induction ss) (simp_all add: protos_def dry_kill_address)

lemma dry_sync: "\<not> pf_action sys \<Longrightarrow> pf_sync_table sys t ss k = (True, k)"
  by (simp add: pf_sync_table_def pf_get_table_def pf_table_del_def pf_table_add_def pf_table_rebalance_def
      dry_commands dry_kill_removed Let_def)

end
