(* ===== verification/Pfctl_Worker.thy ===== *)
theory Pfctl_Worker
  imports Pf_Sync
begin

text \<open>
  The worker process of \<open>pfctl_worker.cpp\<close>: it attaches to the queue the main process creates and
  applies the messages to the packet filter, one after the other. What the operating system and
  the queue library answer in one iteration of the loop is an input of that iteration.
\<close>

section \<open>The operations\<close>

datatype signal = SIGPIPE | SIGTERM | SIGINT | SIGHUP | SIGUSR1

definition worker_signal_handler :: "signal \<Rightarrow> bool \<Rightarrow> bool" where
  "worker_signal_handler signum running = (case signum of SIGTERM \<Rightarrow> False | _ \<Rightarrow> running)"

text \<open>
  \<open>timed_receive\<close> throws, times out, or returns a message and its size; \<open>getppid\<close> returns a process
  id; signals may arrive until \<open>running\<close> is read again.
\<close>

datatype receive = Receive_Exception | Receive_Timeout | Received pfctl_msg nat

record iteration =
  received :: receive
  ppid :: int
  signals :: "signal list"

datatype 'k loop_state =
    Looping bool 'k
  | Loop_Returned bool 'k
  | Loop_Aborted 'k

definition worker_iteration :: "'k pf_sys \<Rightarrow> nat \<Rightarrow> int \<Rightarrow> iteration \<Rightarrow> bool \<Rightarrow> 'k \<Rightarrow> 'k loop_state" where
  "worker_iteration sys sizeof_msg parent_pid i running k =
     (let running = fold worker_signal_handler (signals i) running in
      case received i of
        Receive_Exception \<Rightarrow> Loop_Returned False k
      | Receive_Timeout \<Rightarrow>
          if ppid i \<noteq> parent_pid then Loop_Returned False k else Looping running k
      | Received msg recvd_size \<Rightarrow>
          if ppid i \<noteq> parent_pid then Loop_Returned False k
          else if recvd_size \<noteq> sizeof_msg then Loop_Aborted k
          else Looping running (snd (pf_sync_table sys (c_str (msg_table_name msg)) (synced_lb_nodes msg) k)))"

fun worker_while :: "'k pf_sys \<Rightarrow> nat \<Rightarrow> int \<Rightarrow> iteration list \<Rightarrow> 'k loop_state \<Rightarrow> 'k loop_state" where
  "worker_while sys sizeof_msg parent_pid is (Looping False k) = Loop_Returned True k"
| "worker_while sys sizeof_msg parent_pid (i # is) (Looping True k) =
     worker_while sys sizeof_msg parent_pid is (worker_iteration sys sizeof_msg parent_pid i True k)"
| "worker_while sys sizeof_msg parent_pid is s = s"

definition pfctl_worker_loop :: "'k pf_sys \<Rightarrow> nat \<Rightarrow> int \<Rightarrow> iteration list \<Rightarrow> 'k \<Rightarrow> 'k loop_state" where
  "pfctl_worker_loop sys sizeof_msg parent_pid is k = worker_while sys sizeof_msg parent_pid is (Looping True k)"

text \<open>
  Opening the queue: the attempts of the worker are retried while the library reports that it does
  not exist yet (code 7). \<open>None\<close> is an attempt not made yet.
\<close>

datatype 'mq open_result = Opened 'mq | Interprocess_Exception int | Runtime_Error | Other_Exception

definition new_pfctl_queue :: "'mq open_result \<Rightarrow> 'mq option" where
  "new_pfctl_queue r = (case r of Opened mq \<Rightarrow> Some mq | _ \<Rightarrow> None)"

fun attach_pfctl_queue :: "'mq open_result list \<Rightarrow> 'mq option option" where
  "attach_pfctl_queue [] = None"
| "attach_pfctl_queue (Opened mq # rs) = Some (Some mq)"
| "attach_pfctl_queue (Interprocess_Exception code # rs) =
     (if code = 7 then attach_pfctl_queue rs else Some None)"
| "attach_pfctl_queue (Runtime_Error # rs) = Some None"
| "attach_pfctl_queue (Other_Exception # rs) = Some None"

text \<open>The exit code of the child process, once it ends.\<close>

definition worker_process ::
    "'k pf_sys \<Rightarrow> nat \<Rightarrow> int \<Rightarrow> 'mq open_result list \<Rightarrow> iteration list \<Rightarrow> 'k \<Rightarrow> error option \<times> 'k" where
  "worker_process sys sizeof_msg parent_pid attempts is k =
     (case attach_pfctl_queue attempts of
        None \<Rightarrow> (None, k)
      | Some None \<Rightarrow> (Some (Exit 1), k)
      | Some (Some mq) \<Rightarrow>
          (case pfctl_worker_loop sys sizeof_msg parent_pid is k of
             Looping _ k \<Rightarrow> (None, k)
           | Loop_Returned True k \<Rightarrow> (Some (Exit 0), k)
           | Loop_Returned False k \<Rightarrow> (Some (Exit 1), k)
           | Loop_Aborted k \<Rightarrow> (Some Assertion_Failed, k)))"

section \<open>The tables after a run of the loop\<close>

text \<open>An iteration that receives a message, or nothing, while the main process is alive.\<close>

definition healthy :: "nat \<Rightarrow> int \<Rightarrow> iteration \<Rightarrow> bool" where
  "healthy sizeof_msg parent_pid i \<longleftrightarrow>
     ppid i = parent_pid \<and> SIGTERM \<notin> set (signals i) \<and>
     (case received i of Receive_Exception \<Rightarrow> False | Receive_Timeout \<Rightarrow> True | Received m s \<Rightarrow> s = sizeof_msg)"

definition messages :: "iteration list \<Rightarrow> pfctl_msg list" where
  "messages is = concat (map (\<lambda>i. case received i of Received m s \<Rightarrow> [m] | _ \<Rightarrow> []) is)"

lemma running_kept: "SIGTERM \<notin> set ss \<Longrightarrow> fold worker_signal_handler ss running = running"
  by (induction ss) (auto simp: worker_signal_handler_def split: signal.splits)

lemma sigterm_stops: "SIGTERM \<in> set ss \<Longrightarrow> fold worker_signal_handler ss running = False"
proof (induction ss arbitrary: running)
  case (Cons s ss)
  have down: "fold worker_signal_handler ss False = False" for ss
    by (induction ss) (auto simp: worker_signal_handler_def split: signal.splits)
  have "worker_signal_handler SIGTERM running = False" by (simp add: worker_signal_handler_def)
  then show ?case using Cons down by (cases "s = SIGTERM") auto
qed simp

definition apply_msg :: "'k pf_sys \<Rightarrow> pfctl_msg \<Rightarrow> 'k \<Rightarrow> 'k" where
  "apply_msg sys m k = snd (pf_sync_table sys (c_str (msg_table_name m)) (synced_lb_nodes m) k)"

lemma worker_loop_healthy:
  assumes "list_all (healthy n pid) is"
  shows "pfctl_worker_loop sys n pid is k = Looping True (fold (apply_msg sys) (messages is) k)"
proof -
  have "worker_while sys n pid is (Looping True k) = Looping True (fold (apply_msg sys) (messages is) k)" for k
    using assms
  proof (induction "is" arbitrary: k)
    case (Cons i "is")
    then show ?case
      by (auto simp: worker_iteration_def healthy_def messages_def running_kept apply_msg_def Let_def
          split: receive.splits)
  qed (simp add: messages_def)
  then show ?thesis by (simp add: pfctl_worker_loop_def)
qed

lemma worker_loop_append:
  assumes "list_all (healthy n pid) is"
  shows "pfctl_worker_loop sys n pid (is @ js) k =
           worker_while sys n pid js (Looping True (fold (apply_msg sys) (messages is) k))"
proof -
  have "worker_while sys n pid (is @ js) (Looping True k) =
          worker_while sys n pid js (Looping True (fold (apply_msg sys) (messages is) k))" for k
    using assms
  proof (induction "is" arbitrary: k)
    case (Cons i "is")
    then show ?case
      by (auto simp: worker_iteration_def healthy_def messages_def running_kept apply_msg_def Let_def
          split: receive.splits)
  qed (simp add: messages_def)
  then show ?thesis by (simp add: pfctl_worker_loop_def)
qed

text \<open>The message that decides over a table is the last one that names it.\<close>

definition last_for :: "string \<Rightarrow> pfctl_msg list \<Rightarrow> pfctl_msg option" where
  "last_for t ms = List.find (\<lambda>m. c_str (msg_table_name m) = t) (rev ms)"

definition msg_ok :: "pfctl_msg \<Rightarrow> bool" where
  "msg_ok m \<longleftrightarrow>
     word (c_str (msg_table_name m)) \<and> (\<forall>a \<in> set (wanted_addresses (synced_lb_nodes m) []). word a)"

lemma find_append: "List.find P (xs @ ys) = (case List.find P xs of None \<Rightarrow> List.find P ys | Some x \<Rightarrow> Some x)"
  by (induction xs) auto

lemma last_for_snoc:
  "last_for t (ms @ [m]) = (if c_str (msg_table_name m) = t then Some m else last_for t ms)"
  by (simp add: last_for_def)

lemma apply_msgs_tables:
  assumes "pfctl_contract tbl sys" "pf_action sys" "never_fails sys" "\<forall>m \<in> set ms. msg_ok m"
  shows "tbl (fold (apply_msg sys) ms k) t =
           (case last_for t ms of None \<Rightarrow> tbl k t | Some m \<Rightarrow> set (wanted_addresses (synced_lb_nodes m) []))"
  using assms(4)
proof (induction ms rule: rev_induct)
  case Nil
  then show ?case by (simp add: last_for_def)
next
  case (snoc m ms)
  let ?k = "fold (apply_msg sys) ms k" and ?t = "c_str (msg_table_name m)"
  have "msg_ok m" using snoc.prems by simp
  moreover obtain k' where k': "pf_sync_table sys ?t (synced_lb_nodes m) ?k = (True, k')"
    using pf_sync_table_succeeds [of sys] assms(3) by blast
  ultimately have "tbl k' = (tbl ?k)(?t := set (wanted_addresses (synced_lb_nodes m) []))"
    using pf_sync_table_True [OF assms(1,2) _ _ k'] by (simp add: msg_ok_def)
  moreover have "apply_msg sys m ?k = k'" using k' by (simp add: apply_msg_def)
  ultimately show ?case using snoc by (simp add: last_for_snoc)
qed

section \<open>The addresses a message carries\<close>

definition node_addresses :: "LbNode \<Rightarrow> string set" where
  "node_addresses n = c_str ` {node_ipv4_address n, node_ipv6_address n} - {[]}"

definition addresses_fit :: "LbNode \<Rightarrow> bool" where
  "addresses_fit n \<longleftrightarrow>
     length (c_str (node_ipv4_address n)) \<le> ADDR_LEN \<and> length (c_str (node_ipv6_address n)) \<le> ADDR_LEN"

text \<open>What is left of the addresses of a node in the fixed fields of a message.\<close>

definition sent_addresses :: "LbNode \<Rightarrow> string set" where
  "sent_addresses n = (\<lambda>a. c_str (strncpy ADDR_LEN a)) ` {node_ipv4_address n, node_ipv6_address n} - {[]}"

lemma sent_addresses_fit: "addresses_fit n \<Longrightarrow> sent_addresses n = node_addresses n"
  by (auto simp: sent_addresses_def node_addresses_def addresses_fit_def c_str_strncpy)

lemma entry_sent_addresses: "entry_addresses (synced_entry up w n) = sent_addresses (get_node n w)"
  by (auto simp: entry_addresses_def sent_addresses_def synced_entry_def protos_def)

lemma message_addresses:
  assumes "length all \<le> MAX_NODES"
  shows "set (wanted_addresses (synced_lb_nodes (build_msg pool table all up w)) []) =
           (\<Union>n \<in> {n \<in> set all. n \<in> set up \<and> admin_state (get_node n w) = STATE_ENABLED}. sent_addresses (get_node n w))"
proof -
  let ?ss = "map (synced_entry up w) all @ replicate (MAX_NODES - length all) zero_synced"
  have "{s \<in> set ?ss. wanted_state s = NODE_UP \<and> synced_admin_state s = STATE_ENABLED} =
      synced_entry up w ` {n \<in> set all. n \<in> set up \<and> admin_state (get_node n w) = STATE_ENABLED}"
    by (auto simp: synced_entry_def zero_synced_def split: if_splits)
  then show ?thesis
    using build_msg_nodes [OF assms, of pool table up w] by (simp add: wanted_addresses_set entry_sent_addresses)
qed

lemma build_msg_table: "length (c_str t) \<le> NAME_LEN \<Longrightarrow> c_str (msg_table_name (build_msg pool t all up w)) = c_str t"
  by (simp add: build_msg_def c_str_strncpy)

end
