(* ===== verification/Testtool.thy ===== *)
theory Testtool
  imports Load_Inv Pfctl_Worker
begin

text \<open>
  The main process (\<open>testtool.cpp\<close>): the periodic tasks, the signal handler and the events of the
  health checks, as one relation between states of the process. What the environment answers
  (configuration files, sockets, clocks, libraries) is part of an event.
\<close>

section \<open>Calls of virtual methods\<close>

record net_env =
  strings :: boost_strings
  bevs :: "hc_id \<Rightarrow> bev_answer"
  sockets :: "hc_id \<Rightarrow> socket_answer"
  pqs :: "hc_id \<Rightarrow> pq_answers"

definition hc_schedule ::
    "net_env \<Rightarrow> timespec \<Rightarrow> nat \<Rightarrow> ('q \<Rightarrow> pfctl_msg \<Rightarrow> bool \<times> 'q) \<Rightarrow> hc_id \<Rightarrow> 'q world \<Rightarrow> 'q world result" where
  "hc_schedule net now fuel try_send hc w =
     (case derived (get_hc hc w) of
        Http _ \<Rightarrow> http_schedule_healthcheck (strings net) (bevs net) now fuel try_send hc w
      | Https _ \<Rightarrow> http_schedule_healthcheck (strings net) (bevs net) now fuel try_send hc w
      | Tcp _ \<Rightarrow> tcp_schedule_healthcheck (bevs net) now fuel try_send hc w
      | Ping _ \<Rightarrow> ping_schedule_healthcheck now fuel try_send hc w
      | Postgres _ \<Rightarrow> pg_schedule_healthcheck (pqs net) now fuel try_send hc w
      | Dns _ \<Rightarrow> dns_schedule_healthcheck (sockets net) now fuel try_send hc w
      | Dummy \<Rightarrow> dummy_schedule_healthcheck now fuel try_send hc w)"

definition hc_finalize ::
    "(hc_id \<Rightarrow> timespec) \<Rightarrow> nat \<Rightarrow> ('q \<Rightarrow> pfctl_msg \<Rightarrow> bool \<times> 'q) \<Rightarrow> hc_id \<Rightarrow> 'q world \<Rightarrow> 'q world result" where
  "hc_finalize clock fuel try_send hc w =
     (case derived (get_hc hc w) of
        Ping _ \<Rightarrow> ping_finalize (clock hc) fuel try_send hc w
      | _ \<Rightarrow> finalize_base hc w)"

section \<open>The periodic tasks\<close>

definition node_schedule_healthchecks ::
    "net_env \<Rightarrow> timespec \<Rightarrow> nat \<Rightarrow> ('q \<Rightarrow> pfctl_msg \<Rightarrow> bool \<times> 'q) \<Rightarrow> node_id \<Rightarrow> 'q world \<Rightarrow> 'q world result" where
  "node_schedule_healthchecks net now fuel try_send n w =
     for_each (hc_schedule net now fuel try_send) (healthchecks (get_node n w)) w"

definition pool_schedule_healthchecks ::
    "net_env \<Rightarrow> timespec \<Rightarrow> nat \<Rightarrow> ('q \<Rightarrow> pfctl_msg \<Rightarrow> bool \<times> 'q) \<Rightarrow> pool_id \<Rightarrow> 'q world \<Rightarrow> 'q world result" where
  "pool_schedule_healthchecks net now fuel try_send p w =
     for_each (node_schedule_healthchecks net now fuel try_send) (nodes (get_pool p w)) w"

definition node_finalize_healthchecks ::
    "(hc_id \<Rightarrow> timespec) \<Rightarrow> nat \<Rightarrow> ('q \<Rightarrow> pfctl_msg \<Rightarrow> bool \<times> 'q) \<Rightarrow> node_id \<Rightarrow> 'q world \<Rightarrow> 'q world result" where
  "node_finalize_healthchecks clock fuel try_send n w =
     for_each (hc_finalize clock fuel try_send) (healthchecks (get_node n w)) w"

definition pool_finalize_healthchecks ::
    "(hc_id \<Rightarrow> timespec) \<Rightarrow> nat \<Rightarrow> ('q \<Rightarrow> pfctl_msg \<Rightarrow> bool \<times> 'q) \<Rightarrow> pool_id \<Rightarrow> 'q world \<Rightarrow> 'q world result" where
  "pool_finalize_healthchecks clock fuel try_send p w =
     for_each (node_finalize_healthchecks clock fuel try_send) (nodes (get_pool p w)) w"

text \<open>\<open>json::value\<close> with a null default: it throws when it is not called on an object.\<close>

definition json_value :: "'j json_lib \<Rightarrow> 'j \<Rightarrow> string \<Rightarrow> 'j result" where
  "json_value l j key =
     (if \<not> json_is_object l j then Inl Json_Exception
      else case json_find l j key of None \<Rightarrow> Inr (json_null l) | Some v \<Rightarrow> Inr v)"

definition downtime_node ::
    "'j json_lib \<Rightarrow> 'j \<Rightarrow> nat \<Rightarrow> ('q \<Rightarrow> pfctl_msg \<Rightarrow> bool \<times> 'q) \<Rightarrow> node_id \<Rightarrow> 'q world \<Rightarrow> 'q world result" where
  "downtime_node l pool_config fuel try_send n w =
     bind_result (json_value l pool_config ''nodes'') (\<lambda>pool_nodes.
     bind_result (json_value l pool_nodes (node_name (get_node n w))) (\<lambda>node_config.
       if \<not> json_empty l node_config
       then change_downtime fuel try_send n (safe_get_string l node_config ''state'' ''online'') w
       else Inr w))"

definition downtime_pool ::
    "'j json_lib \<Rightarrow> 'j \<Rightarrow> nat \<Rightarrow> ('q \<Rightarrow> pfctl_msg \<Rightarrow> bool \<times> 'q) \<Rightarrow> string \<times> pool_id \<Rightarrow> 'q world \<Rightarrow> 'q world result" where
  "downtime_pool l config fuel try_send kp w =
     bind_result (json_value l config (fst kp)) (\<lambda>pool_config.
       if \<not> json_empty l pool_config
       then for_each (downtime_node l pool_config fuel try_send) (nodes (get_pool (snd kp) w)) w
       else Inr w)"

text \<open>The file is parsed first; \<open>None\<close> is a parse error, whose exception nobody catches.\<close>

definition load_downtimes ::
    "'j json_lib \<Rightarrow> 'j option \<Rightarrow> nat \<Rightarrow> ('q \<Rightarrow> pfctl_msg \<Rightarrow> bool \<times> 'q) \<Rightarrow> 'q world \<Rightarrow> 'q world result" where
  "load_downtimes l file fuel try_send w =
     (case file of
        None \<Rightarrow> Inl Json_Exception
      | Some config \<Rightarrow> for_each (downtime_pool l config fuel try_send) (lb_pools w) w)"

definition schedule_healthchecks ::
    "'j json_lib \<Rightarrow> 'j option \<Rightarrow> net_env \<Rightarrow> timespec \<Rightarrow> nat \<Rightarrow> ('q \<Rightarrow> pfctl_msg \<Rightarrow> bool \<times> 'q) \<Rightarrow> 'q world \<Rightarrow> 'q world result" where
  "schedule_healthchecks l file net now fuel try_send w =
     bind_result
       (if check_downtimes w
        then bind_result (load_downtimes l file fuel try_send w) (\<lambda>w. Inr (w\<lparr>check_downtimes := False\<rparr>))
        else Inr w)
       (\<lambda>w. for_each (\<lambda>(key, p). pool_schedule_healthchecks net now fuel try_send p) (lb_pools w) w)"

definition finalize_healthchecks ::
    "(hc_id \<Rightarrow> timespec) \<Rightarrow> nat \<Rightarrow> ('q \<Rightarrow> pfctl_msg \<Rightarrow> bool \<times> 'q) \<Rightarrow> 'q world \<Rightarrow> 'q world result" where
  "finalize_healthchecks clock fuel try_send w =
     for_each (\<lambda>(key, p). pool_finalize_healthchecks clock fuel try_send p) (lb_pools w) w"

definition sync_lbpools_without_healthchecks ::
    "nat \<Rightarrow> ('q \<Rightarrow> pfctl_msg \<Rightarrow> bool \<times> 'q) \<Rightarrow> 'q world \<Rightarrow> 'q world result" where
  "sync_lbpools_without_healthchecks fuel try_send w =
     for_each (\<lambda>(key, p). sync_no_hc fuel try_send p) (lb_pools w) w"

section \<open>The state of the process\<close>

text \<open>
  The process is in its main loop, has left it (\<open>event_base_loopbreak\<close>), or has died.
\<close>

datatype 'q process = In_Loop "'q world" | Left_Loop | Died error

definition signal_handler :: "signal \<Rightarrow> 'q world \<Rightarrow> 'q process" where
  "signal_handler sig w =
     (case sig of
        SIGPIPE \<Rightarrow> In_Loop w
      | SIGTERM \<Rightarrow> Left_Loop
      | SIGINT \<Rightarrow> Left_Loop
      | SIGHUP \<Rightarrow> Left_Loop
      | SIGUSR1 \<Rightarrow> In_Loop (w\<lparr>check_downtimes := True\<rparr>))"

definition EXIT_SUCCESS :: int where "EXIT_SUCCESS = 0"

definition EXIT_FAILURE :: int where "EXIT_FAILURE = 1"

text \<open>The result of \<open>waitpid\<close> and the status word it fills in.\<close>

definition worker_check_callback :: "int \<Rightarrow> int \<Rightarrow> 'q world \<Rightarrow> 'q process" where
  "worker_check_callback result status w =
     (if result = 0 then In_Loop w
      else if result = -1 then Left_Loop
      else if status = EXIT_FAILURE then Left_Loop
      else In_Loop w)"

definition continue :: "'q world result \<Rightarrow> 'q process" where
  "continue r = (case r of Inl e \<Rightarrow> Died e | Inr w \<Rightarrow> In_Loop w)"

text \<open>The callback of the scheduler catches the scheduling exception and leaves the loop.\<close>

definition healthcheck_scheduler_callback ::
    "'j json_lib \<Rightarrow> 'j option \<Rightarrow> net_env \<Rightarrow> timespec \<Rightarrow> nat \<Rightarrow> ('q \<Rightarrow> pfctl_msg \<Rightarrow> bool \<times> 'q) \<Rightarrow> 'q world \<Rightarrow> 'q process" where
  "healthcheck_scheduler_callback l file net now fuel try_send w =
     (case schedule_healthchecks l file net now fuel try_send w of
        Inl (HealthcheckSchedulingException msg) \<Rightarrow> Left_Loop
      | r \<Rightarrow> continue r)"

section \<open>The status file\<close>

record node_status =
  ns_state :: string
  ns_route_network :: string
  ns_ipv4_address :: string
  ns_ipv6_address :: string

record pool_status =
  ps_route_network :: string
  ps_nodes_alive :: nat
  ps_nodes :: "(string \<times> node_status) list"
  ps_state :: string
  ps_ipv4_address :: string
  ps_ipv6_address :: string

primrec get_pool_state_string :: "LbPoolState \<Rightarrow> string" where
  "get_pool_state_string POOL_DOWN = ''down''"
| "get_pool_state_string POOL_UP = ''up''"

definition node_status_of :: "LbNode \<Rightarrow> node_status" where
  "node_status_of n =
     \<lparr>ns_state = is_up_string n, ns_route_network = node_route_network n,
      ns_ipv4_address = node_ipv4_address n, ns_ipv6_address = node_ipv6_address n\<rparr>"

definition pool_status_of :: "pool_id \<Rightarrow> 'q world \<Rightarrow> pool_status" where
  "pool_status_of p w =
     (let pl = get_pool p w in
      \<lparr>ps_route_network = pool_route_network pl, ps_nodes_alive = count_up_nodes p w,
       ps_nodes = fold (\<lambda>n st. map_insert (node_name (get_node n w)) (node_status_of (get_node n w)) st) (nodes pl) [],
       ps_state = get_pool_state_string (pool_state pl),
       ps_ipv4_address = pool_ipv4_address pl, ps_ipv6_address = pool_ipv6_address pl\<rparr>)"

definition dump_status :: "'q world \<Rightarrow> (string \<times> pool_status) list" where
  "dump_status w = fold (\<lambda>(key, p) st. map_insert key (pool_status_of p w) st) (lb_pools w) []"

end
