(* ===== verification/Main_Loop.thy ===== *)
theory Main_Loop
  imports Testtool
begin

text \<open>
  The main loop as a state machine: the events libevent can deliver, the step each of them makes,
  and what holds in every state the process can reach.
\<close>

section \<open>Events\<close>

datatype 'j event =
    Ev_Scheduler "'j option" net_env timespec
  | Ev_Finalizer "hc_id \<Rightarrow> timespec"
  | Ev_Syncer
  | Ev_Worker_Check int int
  | Ev_Dump_Status
  | Ev_Signal signal
  | Ev_Tcp hc_id "16 word"
  | Ev_Http hc_id "16 word"
  | Ev_Http_Read hc_id string
  | Ev_Dns hc_id "16 word" "string option"
  | Ev_Ping bool "16 word" "string option"
  | Ev_Postgres_Io hc_id pq_answers "16 word"
  | Ev_Postgres_Timeout hc_id "16 word"

text \<open>The callback of each event; \<open>dump_status\<close> changes no object.\<close>

fun dispatch ::
    "'j json_lib \<Rightarrow> nat \<Rightarrow> ('q \<Rightarrow> pfctl_msg \<Rightarrow> bool \<times> 'q) \<Rightarrow> 'j event \<Rightarrow> 'q world \<Rightarrow> 'q process" where
  "dispatch l fuel ts (Ev_Scheduler file net now) w = healthcheck_scheduler_callback l file net now fuel ts w"
| "dispatch l fuel ts (Ev_Finalizer clock) w = continue (finalize_healthchecks clock fuel ts w)"
| "dispatch l fuel ts Ev_Syncer w = continue (sync_lbpools_without_healthchecks fuel ts w)"
| "dispatch l fuel ts (Ev_Worker_Check result status) w = worker_check_callback result status w"
| "dispatch l fuel ts Ev_Dump_Status w = In_Loop w"
| "dispatch l fuel ts (Ev_Signal sig) w = signal_handler sig w"
| "dispatch l fuel ts (Ev_Tcp hc events) w = continue (tcp_event_callback events fuel ts hc w)"
| "dispatch l fuel ts (Ev_Http hc events) w = continue (http_event_callback events fuel ts hc w)"
| "dispatch l fuel ts (Ev_Http_Read hc input) w = continue (http_read_callback input fuel ts hc w)"
| "dispatch l fuel ts (Ev_Dns hc what recvd) w = continue (dns_callback what recvd fuel ts hc w)"
| "dispatch l fuel ts (Ev_Ping v4 what recvd) w = continue (ping_callback v4 what recvd fuel ts w)"
| "dispatch l fuel ts (Ev_Postgres_Io hc a flag) w = continue (handle_io_event a flag fuel ts hc w)"
| "dispatch l fuel ts (Ev_Postgres_Timeout hc flag) w = continue (handle_timeout_event flag fuel ts hc w)"

text \<open>libevent calls back only for what is registered with it, on behalf of an object of the configuration.\<close>

fun may_fire :: "'j event \<Rightarrow> 'q world \<Rightarrow> bool" where
  "may_fire (Ev_Tcp hc events) w =
     (attached hc w \<and> (case derived (get_hc hc w) of Tcp t \<Rightarrow> tcp_bev t | _ \<Rightarrow> False))"
| "may_fire (Ev_Http hc events) w =
     (attached hc w \<and> (case get_http (get_hc hc w) of Some t \<Rightarrow> http_bev t | None \<Rightarrow> False))"
| "may_fire (Ev_Http_Read hc input) w =
     (attached hc w \<and> (case get_http (get_hc hc w) of Some t \<Rightarrow> http_bev t | None \<Rightarrow> False))"
| "may_fire (Ev_Dns hc what recvd) w =
     (attached hc w \<and> (case get_dns (get_hc hc w) of Some t \<Rightarrow> dns_ev t | None \<Rightarrow> False))"
| "may_fire (Ev_Postgres_Io hc a flag) w =
     (attached hc w \<and> (case get_pg (get_hc hc w) of Some t \<Rightarrow> pg_io_event t | None \<Rightarrow> False))"
| "may_fire (Ev_Postgres_Timeout hc flag) w =
     (attached hc w \<and> (case get_pg (get_hc hc w) of Some t \<Rightarrow> pg_timeout_event t | None \<Rightarrow> False))"
| "may_fire _ w = True"

inductive step ::
    "'j json_lib \<Rightarrow> nat \<Rightarrow> ('q \<Rightarrow> pfctl_msg \<Rightarrow> bool \<times> 'q) \<Rightarrow> 'q process \<Rightarrow> 'q process \<Rightarrow> bool"
  for l fuel try_send where
  fire: "may_fire e w \<Longrightarrow> step l fuel try_send (In_Loop w) (dispatch l fuel try_send e w)"

inductive_cases stepE: "step l fuel try_send s s'"

inductive_simps step_from_end [simp]:
  "step l fuel try_send Left_Loop s"
  "step l fuel try_send (Died e) s"

inductive reachable ::
    "'j json_lib \<Rightarrow> nat \<Rightarrow> ('q \<Rightarrow> pfctl_msg \<Rightarrow> bool \<times> 'q) \<Rightarrow> 'q world \<Rightarrow> 'q process \<Rightarrow> bool"
  for l fuel try_send w0 where
  initial: "reachable l fuel try_send w0 (In_Loop w0)"
| further: "reachable l fuel try_send w0 s \<Longrightarrow> step l fuel try_send s s' \<Longrightarrow>
         reachable l fuel try_send w0 s'"

section \<open>Every task keeps the invariant\<close>

text \<open>The errors that end the process: a panic, a failed assertion, an overflow of the DNS packet, bad JSON.\<close>

definition deadly :: "error set" where
  "deadly = {Exit 2, Assertion_Failed, Buffer_Overflow, Json_Exception}"

definition scheduling :: "error set" where
  "scheduling = deadly \<union> fatal"

lemma fatal_sets [simp]: "fatal \<subseteq> scheduling" "pg_fatal \<subseteq> scheduling" "{Buffer_Overflow} \<subseteq> scheduling" "deadly \<subseteq> scheduling"
  "pg_fatal \<subseteq> deadly" "{Exit 2} \<subseteq> deadly" "{} \<subseteq> scheduling" "{Exit 2} \<subseteq> scheduling"
  by (auto simp: scheduling_def deadly_def fatal_def pg_fatal_def)

lemma fatal_members [simp]: "Exit 2 \<in> deadly" "Exit 2 \<in> scheduling" "Buffer_Overflow \<in> scheduling"
  by (auto simp: scheduling_def deadly_def)

interpretation schedule_any: hc_operation "hc_schedule net now" scheduling for net now
proof
  fix fuel :: nat and w :: "'a world" and hc try_send
  assume w: "live fuel w" "attached hc w"
  show "outcome scheduling fuel w (hc_schedule net now fuel try_send hc w)"
    using outcome_mono [OF http_schedule.op_outcome [OF w], of scheduling] outcome_mono [OF tcp_schedule.op_outcome [OF w], of scheduling]
      outcome_mono [OF ping_schedule.op_outcome [OF w], of scheduling] outcome_mono [OF pg_schedule.op_outcome [OF w], of scheduling]
      outcome_mono [OF dns_schedule.op_outcome [OF w], of scheduling] outcome_mono [OF dummy_schedule.op_outcome [OF w], of scheduling]
    unfolding hc_schedule_def by (cases "derived (get_hc hc w)") simp_all
qed

interpretation finalize_any: hc_operation "hc_finalize clock" deadly for clock
proof
  fix fuel :: nat and w :: "'a world" and hc try_send
  assume w: "live fuel w" "attached hc w"
  show "outcome deadly fuel w (hc_finalize clock fuel try_send hc w)"
    using outcome_mono [OF ping_finalize.op_outcome [OF w], of deadly]
    unfolding hc_finalize_def by (cases "derived (get_hc hc w)") (simp_all add: finalize_base_def)
qed

lemma finalize_outcome:
  "live fuel w \<Longrightarrow> outcome deadly fuel w (finalize_healthchecks clock fuel try_send w)"
  using finalize_any.on_pools_outcome [of fuel w clock try_send]
  by (simp add: finalize_healthchecks_def pool_finalize_healthchecks_def [abs_def] node_finalize_healthchecks_def [abs_def])

text \<open>Downtimes.\<close>

lemma change_downtime_outcome:
  assumes "live fuel w" "registered n w"
  shows "outcome {} fuel w (change_downtime fuel try_send n a w)"
proof -
  obtain w' where "change_downtime fuel try_send n a w = Inr w'" "live fuel w'" "same_config w w'"
    "\<And>h. get_hc h w' = get_hc h w"
    using change_downtime_live [OF assms, of try_send a] by blast
  then show ?thesis by (simp add: keeps_def)
qed

lemma json_value_error: "json_value l j key = Inl e \<Longrightarrow> e = Json_Exception"
  by (auto simp: json_value_def split: if_splits option.splits)

lemma outcome_bind_json:
  assumes "\<And>v. outcome deadly fuel w (f v)"
  shows "outcome deadly fuel w (bind_result (json_value l j key) f)"
  using assms json_value_error [of l j key] by (cases "json_value l j key") (auto simp: deadly_def)

lemma downtime_node_outcome:
  assumes "live fuel w" "registered n w"
  shows "outcome deadly fuel w (downtime_node l pc fuel try_send n w)"
  unfolding downtime_node_def
  using outcome_mono [OF change_downtime_outcome [OF assms], of deadly]
  by (intro outcome_bind_json) simp

lemma downtime_pool_outcome:
  assumes live: "live fuel w" and p: "(k, p) \<in> set (lb_pools w)"
  shows "outcome deadly fuel w (downtime_pool l config fuel try_send (k, p) w)"
proof -
  have "outcome deadly fuel w (for_each (downtime_node l pc fuel try_send) (nodes (get_pool p w)) w)" for pc
    unfolding outcome_def by (rule keeping.over_nodes [OF live p]) (rule downtime_node_outcome [unfolded outcome_def])
  then show ?thesis unfolding downtime_pool_def by (intro outcome_bind_json) simp
qed

lemma load_downtimes_outcome:
  assumes "live fuel w"
  shows "outcome deadly fuel w (load_downtimes l file fuel try_send w)"
proof -
  have "outcome deadly fuel w (for_each (downtime_pool l config fuel try_send) (lb_pools w) w)" for config
    unfolding outcome_def by (rule keeping.over_pools [OF assms]) (rule downtime_pool_outcome [unfolded outcome_def])
  then show ?thesis by (auto simp: load_downtimes_def deadly_def split: option.split)
qed

lemma keeps_check_downtimes: "keeps fuel w (w\<lparr>check_downtimes := b\<rparr>)"
  by (rule keeps_globals) simp_all

lemma outcome_bind:
  assumes "outcome E fuel w r" "\<And>w'. r = Inr w' \<Longrightarrow> keeps fuel w w' \<Longrightarrow> outcome E fuel w' (f w')"
  shows "outcome E fuel w (bind_result r f)"
  using assms by (cases r) (auto intro: outcome_after)

lemma schedule_healthchecks_outcome:
  assumes live: "live fuel w"
  shows "outcome scheduling fuel w (schedule_healthchecks l file net now fuel try_send w)"
proof -
  have down: "outcome scheduling fuel w (bind_result (load_downtimes l file fuel try_send w) (\<lambda>w. Inr (w\<lparr>check_downtimes := False\<rparr>)))"
    by (intro outcome_bind outcome_mono [OF load_downtimes_outcome [OF live]]) (simp_all add: keeps_check_downtimes)
  have sched: "outcome scheduling fuel w' (for_each (\<lambda>(key, p). pool_schedule_healthchecks net now fuel try_send p) (lb_pools w') w')"
    if "live fuel w'" for w'
    using schedule_any.on_pools_outcome [OF that, of net now try_send]
    by (simp add: pool_schedule_healthchecks_def [abs_def] node_schedule_healthchecks_def [abs_def])
  show ?thesis
    unfolding schedule_healthchecks_def
    by (intro outcome_bind) (use down live sched in \<open>auto simp: keeps_def\<close>)
qed

text \<open>The syncer of pools without health checks.\<close>

lemma live_static:
  assumes live: "live fuel w" and st: "static_eq w w'" and inv: "world_inv w'" "small w'"
  shows "live fuel w'"
proof -
  note cfg = static_eq_same_config [OF st] and D = static_eqD [OF st]
  have "sound fuel w'"
    using live inv by (simp add: live_def sound_def backup_rel_static [OF st] D)
  moreover have "hcs_wf w'" using hcs_wf_keep [OF _ cfg] live by (simp add: live_def D)
  moreover have "agrees n w'" if "registered n w'" for n
    using live that all_passed_keep [OF cfg, of n]
    by (simp add: live_def agrees_def same_config_registered [OF cfg] D)
  moreover have "seqs_attached w'"
    using seqs_attached_keep [OF _ cfg static_eq_globals [OF st]] live by (simp add: live_def D)
  ultimately show ?thesis by (simp add: live_def)
qed

lemma update_pfctl_outcome:
  assumes live: "live fuel w" and p: "(k, p) \<in> set (lb_pools w)"
  shows "outcome {} fuel w (update_pfctl fuel try_send p w)"
proof -
  have s: "world_inv w" "world_wf w" "small w" "acyclic (backup_rel w)" "length (lb_pools w) < fuel"
    using live by (auto simp: live_def sound_def pools_inv_def)
  have "card (below w (pool_name (get_pool p w))) \<le> fuel"
    using below_card(2) [of w "pool_name (get_pool p w)"] s(5) by linarith
  then have "update_pfctl fuel try_send p w \<noteq> Inl Unbounded_Recursion"
    by (intro pool_logic_ranked(2) [OF acyclic_ranked [OF s(4)] world_inv_active_ok [OF s(1)] s(2)])
  moreover have "only_recursion (update_pfctl fuel try_send p w) small"
    using p by (intro pool_logic_only_recursion(2) s) force
  ultimately obtain w' where w': "update_pfctl fuel try_send p w = Inr w'" "small w'"
    by (auto simp: only_recursion_def split: sum.splits)
  have "world_inv w'"
    using pool_logic_None_inv(2) [OF w'(1), of "{}"] pools_inv_mono [OF s(1)] by simp
  then have "live fuel w'" using live_static [OF live pool_logic_static(2) [OF w'(1)]] w'(2) by simp
  then show ?thesis
    using w'(1) static_eq_same_config [OF pool_logic_static(2) [OF w'(1)]] static_eqD [OF pool_logic_static(2) [OF w'(1)]]
    by (simp add: keeps_def)
qed

lemma sync_no_hc_outcome:
  assumes "live fuel w" "(k, p) \<in> set (lb_pools w)"
  shows "outcome {} fuel w (sync_no_hc fuel try_send p w)"
  using update_pfctl_outcome [OF assms] by (simp add: sync_no_hc_def)

lemma sync_outcome:
  assumes "live fuel w"
  shows "outcome {} fuel w (sync_lbpools_without_healthchecks fuel try_send w)"
  unfolding outcome_def sync_lbpools_without_healthchecks_def
  by (rule keeping.over_pools [OF assms]) (simp add: sync_no_hc_outcome [unfolded outcome_def])

section \<open>Every step keeps the invariant\<close>

definition process_ok :: "nat \<Rightarrow> 'q world \<Rightarrow> 'q process \<Rightarrow> bool" where
  "process_ok fuel w s \<longleftrightarrow>
     (case s of In_Loop w' \<Rightarrow> live fuel w' \<and> same_config w w' | Left_Loop \<Rightarrow> True | Died e \<Rightarrow> e \<in> deadly)"

lemma continue_ok:
  assumes "outcome E fuel w r" "live fuel w" "E \<subseteq> deadly"
  shows "process_ok fuel w (continue r)"
  using assms by (auto simp: process_ok_def continue_def outcome_def keeps_def split: sum.splits)

lemma scheduler_ok:
  assumes "live fuel w"
  shows "process_ok fuel w (healthcheck_scheduler_callback l file net now fuel try_send w)"
proof (cases "schedule_healthchecks l file net now fuel try_send w")
  case (Inl e)
  with schedule_healthchecks_outcome [OF assms, of l "file" net now try_send] have "e \<in> scheduling" by simp
  with Inl show ?thesis
    by (auto simp: healthcheck_scheduler_callback_def continue_def process_ok_def scheduling_def deadly_def fatal_def
        split: error.splits)
next
  case (Inr w')
  with schedule_healthchecks_outcome [OF assms, of l "file" net now try_send] assms show ?thesis
    by (simp add: healthcheck_scheduler_callback_def continue_def process_ok_def keeps_def)
qed

text \<open>A callback runs on behalf of an attached check; a signal changes no object.\<close>

lemma dispatch_ok:
  assumes live: "live fuel w" and ev: "may_fire e w"
  shows "process_ok fuel w (dispatch l fuel try_send e w)"
proof -
  have sub: "{} \<subseteq> deadly" by simp
  show ?thesis
  proof (cases e)
    case (Ev_Scheduler f net now)
    then show ?thesis using scheduler_ok [OF live] by simp
  next
    case (Ev_Signal sig)
    have "live fuel (w\<lparr>check_downtimes := True\<rparr>)" "same_config w (w\<lparr>check_downtimes := True\<rparr>)"
      using keeps_check_downtimes [of fuel w True] live by (simp_all add: keeps_def)
    with Ev_Signal live show ?thesis by (cases sig) (simp_all add: signal_handler_def process_ok_def)
  next
    case (Ev_Tcp hc events)
    with ev show ?thesis using continue_ok [OF tcp_event.op_outcome live] live by simp
  next
    case (Ev_Http hc events)
    with ev show ?thesis using continue_ok [OF http_event.op_outcome live] live by simp
  next
    case (Ev_Http_Read hc input)
    with ev show ?thesis using continue_ok [OF http_read.op_outcome live] live by simp
  next
    case (Ev_Dns hc what recvd)
    with ev show ?thesis using continue_ok [OF dns_event.op_outcome live] live by simp
  next
    case (Ev_Postgres_Io hc a flag)
    with ev show ?thesis using continue_ok [OF pg_io.op_outcome live] live by simp
  next
    case (Ev_Postgres_Timeout hc flag)
    with ev show ?thesis using continue_ok [OF pg_timeout.op_outcome live] live by simp
  next
    case (Ev_Worker_Check result status)
    with live show ?thesis by (simp add: worker_check_callback_def process_ok_def)
  next
    case Ev_Dump_Status
    with live show ?thesis by (simp add: process_ok_def)
  qed (simp_all add: continue_ok [OF finalize_outcome [OF live] live] continue_ok [OF sync_outcome [OF live] live]
      continue_ok [OF ping_callback_outcome [OF live] live])
qed

lemma step_ok:
  assumes "step l fuel try_send s s'" "process_ok fuel w0 s"
  shows "process_ok fuel w0 s'"
  using assms(1)
proof (rule stepE)
  fix e w assume s: "s = In_Loop w" "s' = dispatch l fuel try_send e w" and fire: "may_fire e w"
  with assms(2) have w: "live fuel w" "same_config w0 w" by (simp_all add: process_ok_def)
  have "process_ok fuel w s'" using dispatch_ok [OF w(1) fire] s(2) by simp
  with w(2) show ?thesis
    by (cases s') (auto simp: process_ok_def elim: same_config_trans [rotated])
qed

lemma reachable_ok:
  assumes "live fuel w0" "reachable l fuel try_send w0 s"
  shows "process_ok fuel w0 s"
  using assms(2)
proof (induction rule: reachable.induct)
  case initial
  show ?case using assms(1) by (simp add: process_ok_def)
next
  case (further s s')
  show ?case by (rule step_ok [OF further.hyps(2) further.IH])
qed

section \<open>What the invariant says of a pool\<close>

lemma reachable_live:
  assumes "live fuel w0" "reachable l fuel try_send w0 (In_Loop w)"
  shows "live fuel w" "same_config w0 w"
  using reachable_ok [OF assms] by (simp_all add: process_ok_def)

lemma live_pool:
  assumes "live fuel w" "(k, p) \<in> set (lb_pools w)"
  shows "pool_inv p w" "linked p w" "world_inv w" "acyclic (backup_rel w)"
  using assms pools_invD [of "{}" w k p] by (auto simp: live_def sound_def)

lemma pool_inv_policy:
  assumes "pool_inv p w" "linked p w"
  shows "pool_policy (get_pool p w) (up_set (nodes (get_pool p w)) w) (enabled_set (nodes (get_pool p w)) w)
           (if backup_pool_active (get_pool p w) then backup_set (get_pool p w) w else None)
           (set (up_nodes (get_pool p w)))"
    and "pool_state (get_pool p w) = POOL_UP \<longleftrightarrow> up_nodes (get_pool p w) \<noteq> []"
  using assms by (auto simp: pool_inv_def pool_weak_def linked_def Let_def backup_set_def split: if_splits)

section \<open>The status file\<close>

lemma dump_status_entry:
  assumes "world_wf w" "(key, p) \<in> set (lb_pools w)"
  shows "map_of (dump_status w) key = Some (pool_status_of p w)"
proof -
  have "distinct (map fst (lb_pools w))" using assms(1) by (simp add: world_wf_def is_set_def)
  from map_of_fold_insert [OF this assms(2), of "\<lambda>kp. pool_status_of (snd kp) w" "[]"] show ?thesis
    by (simp add: dump_status_def case_prod_unfold)
qed

lemma node_status_entry:
  assumes "distinct (map (\<lambda>n. node_name (get_node n w)) (nodes (get_pool p w)))" "n \<in> set (nodes (get_pool p w))"
  shows "map_of (ps_nodes (pool_status_of p w)) (node_name (get_node n w)) = Some (node_status_of (get_node n w))"
  using map_of_fold_insert [OF assms, of "\<lambda>n. node_status_of (get_node n w)" "[]"] by (simp add: pool_status_of_def Let_def)

end
