(* ===== verification/Downtimes.thy ===== *)
theory Downtimes
  imports Main_Loop
begin

text \<open>
  The effect of a downtime file on the administrative states of all nodes: the loops of
  \<open>load_downtimes\<close> (\<open>testtool.cpp\<close>) visit every node once, and the change of one node leaves the
  state of the others alone.
\<close>

section \<open>What a downtime file asks for\<close>

text \<open>The state a file names for a node, when the node is listed.\<close>

definition node_setting :: "'j json_lib \<Rightarrow> 'j \<Rightarrow> string \<Rightarrow> string option" where
  "node_setting l pool_config name =
     (case bind_result (json_value l pool_config ''nodes'') (\<lambda>pool_nodes. json_value l pool_nodes name) of
        Inl e \<Rightarrow> None
      | Inr c \<Rightarrow> if json_empty l c then None else Some (safe_get_string l c ''state'' ''online''))"

definition pool_setting :: "'j json_lib \<Rightarrow> 'j \<Rightarrow> string \<Rightarrow> string \<Rightarrow> string option" where
  "pool_setting l config key name =
     (case json_value l config key of Inl e \<Rightarrow> None | Inr c \<Rightarrow> if json_empty l c then None else node_setting l c name)"

definition set_state :: "string option \<Rightarrow> LbNodeAdminState \<Rightarrow> LbNodeAdminState" where
  "set_state s a = (case s of None \<Rightarrow> a | Some s \<Rightarrow> admin_state_from_config s)"

text \<open>A world that differs from another only by what happened to the nodes in \<open>N\<close>.\<close>

definition touches :: "nat \<Rightarrow> node_id set \<Rightarrow> 'q world \<Rightarrow> 'q world \<Rightarrow> bool" where
  "touches fuel N w w' \<longleftrightarrow>
     live fuel w' \<and> same_config w w' \<and> (\<forall>m. node_name (get_node m w') = node_name (get_node m w)) \<and>
     (\<forall>m. m \<notin> N \<longrightarrow> admin_state (get_node m w') = admin_state (get_node m w))"

lemma touches_trans: "touches fuel N w w1 \<Longrightarrow> touches fuel M w1 w2 \<Longrightarrow> touches fuel (N \<union> M) w w2"
  by (auto simp: touches_def intro: same_config_trans)

lemma downtime_change_name [simp]: "node_name (downtime_change a x) = node_name x"
  by (simp add: downtime_change_def)

lemma change_downtime_touches:
  assumes "live fuel w" "registered n w" "change_downtime fuel try_send n s w = Inr w'"
  shows "touches fuel {n} w w' \<and> admin_state (get_node n w') = admin_state_from_config s"
proof -
  have w': "live fuel w'" "same_config w w'" "admin_state (get_node n w') = admin_state_from_config s"
    using change_downtime_admin [OF assms(1,2), of try_send s] assms(3) by auto
  have "w' = w \<or> static_eq (upd_node n (downtime_change (admin_state_from_config s)) w) w'"
    using assms(3) pool_logic_static(1) by (fastforce simp: change_downtime_eq split: if_splits)
  then have "node_name (get_node m w') = node_name (get_node m w)"
    "m \<noteq> n \<longrightarrow> admin_state (get_node m w') = admin_state (get_node m w)" for m
    using static_eq_node(3,7) [of "upd_node n (downtime_change (admin_state_from_config s)) w" w' m]
    by (auto simp: node_store.get_upd)
  then show ?thesis using w' by (simp add: touches_def)
qed

lemma downtime_node_touches:
  assumes "live fuel w" "registered n w" "downtime_node l pc fuel try_send n w = Inr w'"
  shows "touches fuel {n} w w' \<and>
     admin_state (get_node n w') = set_state (node_setting l pc (node_name (get_node n w))) (admin_state (get_node n w))"
proof (cases "node_setting l pc (node_name (get_node n w))")
  case None
  then have "w' = w"
    using assms(3) by (auto simp: downtime_node_def node_setting_def bind_result_Inr_iff split: if_splits)
  then show ?thesis using assms(1) None by (simp add: touches_def set_state_def)
next
  case (Some s)
  then have "change_downtime fuel try_send n s w = Inr w'"
    using assms(3) by (auto simp: downtime_node_def node_setting_def bind_result_Inr_iff split: if_splits)
  then show ?thesis using change_downtime_touches [OF assms(1,2)] Some by (simp add: set_state_def)
qed

lemma downtime_nodes_touch:
  assumes "live fuel w" "\<forall>n \<in> set ns. registered n w" "distinct ns"
    and "for_each (downtime_node l pc fuel try_send) ns w = Inr w'"
  shows "touches fuel (set ns) w w' \<and>
     (\<forall>n \<in> set ns. admin_state (get_node n w') = set_state (node_setting l pc (node_name (get_node n w))) (admin_state (get_node n w)))"
  using assms
proof (induction ns arbitrary: w)
  case Nil
  then show ?case by (simp add: touches_def)
next
  case (Cons n ns)
  obtain w1 where w1: "downtime_node l pc fuel try_send n w = Inr w1" "for_each (downtime_node l pc fuel try_send) ns w1 = Inr w'"
    using Cons.prems(4) by (auto simp: bind_result_Inr_iff)
  have t1: "touches fuel {n} w w1"
    "admin_state (get_node n w1) = set_state (node_setting l pc (node_name (get_node n w))) (admin_state (get_node n w))"
    using downtime_node_touches [OF Cons.prems(1) _ w1(1)] Cons.prems(2) by simp_all
  have reg: "\<forall>m \<in> set ns. registered m w1" using t1(1) Cons.prems(2) same_config_registered [of w w1] by (simp add: touches_def)
  have t2: "touches fuel (set ns) w1 w'"
    "\<forall>m \<in> set ns. admin_state (get_node m w') = set_state (node_setting l pc (node_name (get_node m w1))) (admin_state (get_node m w1))"
    using Cons.IH [OF _ reg _ w1(2)] t1(1) Cons.prems(3) by (simp_all add: touches_def)
  have "touches fuel (set (n # ns)) w w'" using touches_trans [OF t1(1) t2(1)] by simp
  moreover have "n \<notin> set ns" using Cons.prems(3) by simp
  ultimately show ?case using t1 t2 by (auto simp: touches_def)
qed

lemma downtime_pool_touches:
  assumes live: "live fuel w" and p: "(key, p) \<in> set (lb_pools w)"
    and run: "downtime_pool l config fuel try_send (key, p) w = Inr w'"
  shows "touches fuel (set (nodes (get_pool p w))) w w' \<and>
     (\<forall>n \<in> set (nodes (get_pool p w)).
        admin_state (get_node n w') = set_state (pool_setting l config key (node_name (get_node n w))) (admin_state (get_node n w)))"
proof -
  obtain pc where pc: "json_value l config key = Inr pc" using run by (auto simp: downtime_pool_def bind_result_Inr_iff)
  have wf: "world_wf w" using live by (simp add: live_def sound_def pools_inv_def)
  then have reg: "\<forall>n \<in> set (nodes (get_pool p w)). registered n w" and d: "distinct (nodes (get_pool p w))"
    using world_wf_pool [OF wf p] p by (simp_all add: registered_def Let_def pool_wf_def is_set_def)
  show ?thesis
  proof (cases "json_empty l pc")
    case True
    then have "w' = w" using run pc by (simp add: downtime_pool_def)
    then show ?thesis using live pc True by (simp add: touches_def pool_setting_def set_state_def)
  next
    case False
    then have "for_each (downtime_node l pc fuel try_send) (nodes (get_pool p w)) w = Inr w'"
      using run pc by (simp add: downtime_pool_def)
    from downtime_nodes_touch [OF live reg d this] show ?thesis using pc False by (simp add: pool_setting_def)
  qed
qed

lemma downtime_pools_touch:
  assumes "live fuel w" "set kps \<subseteq> set (lb_pools w)" "for_each (downtime_pool l config fuel try_send) kps w = Inr w'"
  shows "touches fuel (\<Union>(k, p) \<in> set kps. set (nodes (get_pool p w))) w w'"
  using assms
proof (induction kps arbitrary: w)
  case Nil
  then show ?case by (simp add: touches_def)
next
  case (Cons kp kps)
  obtain k p where kp: "kp = (k, p)" by fastforce
  obtain w1 where w1: "downtime_pool l config fuel try_send (k, p) w = Inr w1" "for_each (downtime_pool l config fuel try_send) kps w1 = Inr w'"
    using Cons.prems(3) kp by (auto simp: bind_result_Inr_iff)
  have t1: "touches fuel (set (nodes (get_pool p w))) w w1"
    using downtime_pool_touches [OF Cons.prems(1) _ w1(1)] Cons.prems(2) kp by simp
  then have cfg: "lb_pools w1 = lb_pools w" "\<And>q. nodes (get_pool q w1) = nodes (get_pool q w)"
    by (simp_all add: touches_def same_config_def)
  have "touches fuel (\<Union>(k, p) \<in> set kps. set (nodes (get_pool p w1))) w1 w'"
    using Cons.IH [OF _ _ w1(2)] t1 Cons.prems(2) cfg(1) by (simp add: touches_def)
  from touches_trans [OF t1 this] show ?case by (simp add: kp cfg(2))
qed

lemma load_downtimes_states:
  assumes live: "live fuel w" and run: "load_downtimes l (Some config) fuel try_send w = Inr w'"
    and p: "(key, p) \<in> set (lb_pools w)" and n: "n \<in> set (nodes (get_pool p w))"
  shows "admin_state (get_node n w') = set_state (pool_setting l config key (node_name (get_node n w))) (admin_state (get_node n w))"
proof -
  let ?dp = "downtime_pool l config fuel try_send"
  obtain xs ys where split: "lb_pools w = xs @ (key, p) # ys" using split_list [OF p] by blast
  obtain w1 w2 where w1: "for_each ?dp xs w = Inr w1" "?dp (key, p) w1 = Inr w2" "for_each ?dp ys w2 = Inr w'"
    using run by (auto simp: load_downtimes_def split for_each_append bind_result_Inr_iff)
  have wf: "world_wf w" using live by (simp add: live_def sound_def pools_inv_def)
  have "distinct (map fst (lb_pools w))" using wf by (simp add: world_wf_def is_set_def)
  then have keys: "key \<notin> fst ` set xs" "key \<notin> fst ` set ys" by (simp_all add: split)
  have own: "k = key" if "(k, q) \<in> set (lb_pools w)" "n \<in> set (nodes (get_pool q w))" for k q
    using world_wf_pool(1,3) [OF wf that(1)] world_wf_pool(1,3) [OF wf p] that(2) n by metis
  have t1: "touches fuel (\<Union>(k, q) \<in> set xs. set (nodes (get_pool q w))) w w1"
    by (rule downtime_pools_touch [OF live _ w1(1)]) (auto simp: split)
  then have l1: "live fuel w1" "(key, p) \<in> set (lb_pools w1)" "n \<in> set (nodes (get_pool p w1))" "lb_pools w1 = lb_pools w"
    "\<And>q. nodes (get_pool q w1) = nodes (get_pool q w)" "node_name (get_node n w1) = node_name (get_node n w)"
    using p n by (simp_all add: touches_def same_config_def)
  have "n \<notin> (\<Union>(k, q) \<in> set xs. set (nodes (get_pool q w)))" using own keys(1) by (force simp: split)
  then have a1: "admin_state (get_node n w1) = admin_state (get_node n w)" using t1 by (simp add: touches_def)
  note t2 = downtime_pool_touches [OF l1(1,2) w1(2)]
  then have l2: "live fuel w2" "lb_pools w2 = lb_pools w" "\<And>q. nodes (get_pool q w2) = nodes (get_pool q w)"
    using l1(4,5) by (simp_all add: touches_def same_config_def)
  have t3: "touches fuel (\<Union>(k, q) \<in> set ys. set (nodes (get_pool q w2))) w2 w'"
    by (rule downtime_pools_touch [OF l2(1) _ w1(3)]) (auto simp: l2 split)
  have "n \<notin> (\<Union>(k, q) \<in> set ys. set (nodes (get_pool q w2)))" using own keys(2) by (force simp: split l2(3))
  then have "admin_state (get_node n w') = admin_state (get_node n w2)" using t3 by (simp add: touches_def)
  then show ?thesis using t2 l1(3,6) a1 by simp
qed

end
