(* ===== verification/Msg.thy ===== *)
theory Msg
  imports Objects
begin

text \<open>
  Logging (\<open>msg.cpp\<close>, \<open>msg.h\<close>). A message is printed and handed to \<open>syslog\<close>; a message about a
  pool, a node or a health check gets a prefix that names the object and its parents. The handlers
  are modelled with log lines that still say which object they are about; \<open>emit\<close> turns a line into
  the calls \<open>log\<close> makes for it.
\<close>

section \<open>The operations\<close>

datatype MessageType = MSG_INFO | MSG_CRIT | MSG_DEBUG | MSG_STATE_UP | MSG_STATE_DOWN

text \<open>The constants of \<open>syslog.h\<close>.\<close>

definition LOG_CRIT :: int where "LOG_CRIT = 2"
definition LOG_INFO :: int where "LOG_INFO = 6"
definition LOG_DEBUG :: int where "LOG_DEBUG = 7"
definition LOG_LOCAL3 :: int where "LOG_LOCAL3 = 19 * 8"
definition LOG_PID :: int where "LOG_PID = 1"

text \<open>What logging does: the output stream and the calls of the system log.\<close>

datatype log_call = Openlog string int int | Cout string | Syslog int string

definition start_logging :: "log_call list" where
  "start_logging = [Openlog ''testtool'' LOG_PID LOG_LOCAL3]"

primrec sysloglevel :: "MessageType \<Rightarrow> int" where
  "sysloglevel MSG_INFO = LOG_INFO"
| "sysloglevel MSG_CRIT = LOG_CRIT"
| "sysloglevel MSG_DEBUG = LOG_DEBUG"
| "sysloglevel MSG_STATE_UP = LOG_INFO"
| "sysloglevel MSG_STATE_DOWN = LOG_INFO"

unbundle bit_operations_syntax

definition log_msg :: "MessageType \<Rightarrow> string \<Rightarrow> log_call list" where
  "log_msg loglevel msg = [Cout (msg @ [CHR 0x0A]), Syslog (sysloglevel loglevel OR LOG_LOCAL3) (c_str msg)]"

definition log_pool :: "'q world \<Rightarrow> MessageType \<Rightarrow> pool_id \<Rightarrow> string \<Rightarrow> log_call list" where
  "log_pool w loglevel lbpool msg = log_msg loglevel (''lbpool: '' @ pool_name (get_pool lbpool w) @ '' '' @ msg)"

definition log_node :: "'q world \<Rightarrow> MessageType \<Rightarrow> node_id \<Rightarrow> string \<Rightarrow> log_call list" where
  "log_node w loglevel lbnode msg =
     log_pool w loglevel (parent_lbpool (get_node lbnode w)) (''lbnode: '' @ node_name (get_node lbnode w) @ '' '' @ msg)"

definition log_healthcheck :: "'q world \<Rightarrow> MessageType \<Rightarrow> hc_id \<Rightarrow> string \<Rightarrow> log_call list" where
  "log_healthcheck w loglevel hc msg =
     log_node w loglevel (parent_lbnode (get_hc hc w))
       (''healthcheck: '' @ hc_type (get_hc hc w) @ '' '' @ log_prefix (get_hc hc w) @ '' '' @ msg)"

section \<open>Log lines and the object they are about\<close>

datatype log_subject = Of_Pool pool_id | Of_Node node_id | Of_Check hc_id

type_synonym log_line = "MessageType \<times> log_subject \<times> string"

fun emit :: "'q world \<Rightarrow> log_line \<Rightarrow> log_call list" where
  "emit w (t, Of_Pool p, msg) = log_pool w t p msg"
| "emit w (t, Of_Node n, msg) = log_node w t n msg"
| "emit w (t, Of_Check h, msg) = log_healthcheck w t h msg"

text \<open>A computation together with the lines it has logged, in their order.\<close>

type_synonym 'a logged = "log_line list \<times> 'a"

definition tell :: "log_line \<Rightarrow> 'a logged \<Rightarrow> 'a logged" where
  "tell l m = (l # fst m, snd m)"

definition bind_logged :: "'a logged \<Rightarrow> ('a \<Rightarrow> 'b logged) \<Rightarrow> 'b logged" where
  "bind_logged m f = (fst m @ fst (f (snd m)), snd (f (snd m)))"

text \<open>A step that may fail; what was logged before the failure stays logged.\<close>

definition bind_logged_result :: "'a result logged \<Rightarrow> ('a \<Rightarrow> 'b result logged) \<Rightarrow> 'b result logged" where
  "bind_logged_result m f = bind_logged m (\<lambda>r. case r of Inl e \<Rightarrow> ([], Inl e) | Inr a \<Rightarrow> f a)"

lemma tell_simps [simp]: "fst (tell l m) = l # fst m" "snd (tell l m) = snd m"
  by (simp_all add: tell_def)

lemma bind_logged_simps [simp]:
  "fst (bind_logged m f) = fst m @ fst (f (snd m))" "snd (bind_logged m f) = snd (f (snd m))"
  by (simp_all add: bind_logged_def)

lemma bind_logged_result_snd [simp]:
  "snd (bind_logged_result m f) = bind_result (snd m) (\<lambda>a. snd (f a))"
  by (simp add: bind_logged_result_def bind_result_def split: sum.split)

lemma bind_logged_result_Inr:
  assumes "snd (bind_logged_result m f) = Inr b"
  obtains a where "snd m = Inr a" "snd (f a) = Inr b" "fst (bind_logged_result m f) = fst m @ fst (f a)"
  using assms that by (cases "snd m") (auto simp: bind_logged_result_def)

section \<open>What reaches the system log\<close>

text \<open>The priority encodes the facility \<open>local3\<close> and a severity.\<close>

lemma syslog_priority: "(sysloglevel t OR LOG_LOCAL3) div 8 = 19" "(sysloglevel t OR LOG_LOCAL3) mod 8 = sysloglevel t"
  by (cases t; simp add: LOG_CRIT_def LOG_INFO_def LOG_DEBUG_def LOG_LOCAL3_def)+

end
