(* ===== verification/Options.thy ===== *)
theory Options
  imports Msg
begin

text \<open>
  The command line (\<open>main\<close> and \<open>usage\<close> in \<open>testtool.cpp\<close>): \<open>getopt\<close> as POSIX defines it and the C
  library of FreeBSD implements it, the loop over the options it returns, and the usage message.
\<close>

section \<open>The function getopt\<close>

text \<open>Whether a character is an option of an option string, and whether it takes an argument.\<close>

fun option_kind :: "string \<Rightarrow> char \<Rightarrow> bool option" where
  "option_kind [] c = None"
| "option_kind (x # s) c =
     (if x = c \<and> c \<noteq> CHR '':'' then Some (s \<noteq> [] \<and> hd s = CHR '':'') else option_kind s c)"

text \<open>
  One word of options, without its dash, and the words after it: an option that takes an argument
  takes the rest of the word, or the next word. An unknown option and a missing argument give \<open>'?'\<close>.
\<close>

fun getopt_word :: "string \<Rightarrow> string \<Rightarrow> string list \<Rightarrow> (char \<times> string) list \<times> string list" where
  "getopt_word optstring [] rest = ([], rest)"
| "getopt_word optstring (c # cs) rest =
     (case option_kind optstring c of
        None \<Rightarrow> (case getopt_word optstring cs rest of (opts, rest) \<Rightarrow> ((CHR ''?'', '''') # opts, rest))
      | Some False \<Rightarrow> (case getopt_word optstring cs rest of (opts, rest) \<Rightarrow> ((c, '''') # opts, rest))
      | Some True \<Rightarrow>
          if cs \<noteq> [] then ([(c, cs)], rest)
          else case rest of [] \<Rightarrow> ([(CHR ''?'', '''')], []) | arg # rest \<Rightarrow> ([(c, arg)], rest))"

lemma getopt_word_rest: "(opts, left) = getopt_word s cs rest \<Longrightarrow> length left \<le> length rest"
proof -
  have "length (snd (getopt_word s cs rest)) \<le> length rest"
    by (induction s cs rest rule: getopt_word.induct) (auto split: option.split bool.split list.split prod.split)
  then show "(opts, left) = getopt_word s cs rest \<Longrightarrow> length left \<le> length rest" by (metis snd_conv)
qed

text \<open>All options of the arguments; the first word that is no option, and \<open>--\<close>, end them.\<close>

function getopt :: "string \<Rightarrow> string list \<Rightarrow> (char \<times> string) list" where
  "getopt optstring [] = []"
| "getopt optstring (a # args) =
     (if length a < 2 \<or> hd a \<noteq> CHR ''-'' \<or> a = ''--'' then []
      else case getopt_word optstring (tl a) args of (opts, rest) \<Rightarrow> opts @ getopt optstring rest)"
  by pat_completeness auto
termination
  by (relation "measure (\<lambda>(_, args). length args)") (auto dest!: getopt_word_rest simp: less_Suc_eq_le)

section \<open>The options of the program\<close>

record settings =
  config_file_name :: string
  pf_action_set :: bool
  verbose_pfctl :: int
  verbose :: int

definition default_settings :: settings where
  "default_settings =
     \<lparr>config_file_name = ''/etc/iglb/lbpools.json'', pf_action_set = True, verbose_pfctl = 0, verbose = 0\<rparr>"

definition optstring :: string where
  "optstring = ''hnpvf:''"

text \<open>The loop over \<open>getopt\<close>. Anything else, such as \<open>'?'\<close>, is ignored.\<close>

fun parse_options :: "(char \<times> string) list \<Rightarrow> settings \<Rightarrow> settings result" where
  "parse_options [] s = Inr s"
| "parse_options ((opt, optarg) # rest) s =
     (if opt = CHR ''f'' then parse_options rest (s\<lparr>config_file_name := optarg\<rparr>)
      else if opt = CHR ''n'' then parse_options rest (s\<lparr>pf_action_set := False\<rparr>)
      else if opt = CHR ''p'' then parse_options rest (s\<lparr>verbose_pfctl := verbose_pfctl s + 1\<rparr>)
      else if opt = CHR ''v'' then parse_options rest (s\<lparr>verbose := verbose s + 1\<rparr>)
      else if opt = CHR ''h'' then Inl (Exit 0)
      else parse_options rest s)"

definition main_options :: "string list \<Rightarrow> settings result" where
  "main_options args = parse_options (getopt optstring args) default_settings"

text \<open>The lines of the usage message.\<close>

definition usage :: "string list" where
  "usage =
     [''Hi, I'' @ [CHR 0x27] @ ''m testtool-ng and my arguments are:'',
      '' -f  - specify an alternate configuration file to load'',
      '' -h  - helps you with this helpful help message'',
      '' -n  - do not perform any pfctl actions'',
      '' -p  - display pfctl commands even if skipping pfctl actions'',
      '' -v  - be verbose - display loaded lbpools list'',
      '' -vv - be more verbose - display every scheduling of a test and test result'']"

section \<open>What the options decide\<close>

definition options_given :: "char \<Rightarrow> (char \<times> string) list \<Rightarrow> string list" where
  "options_given c opts = map snd (filter (\<lambda>x. fst x = c) opts)"

lemma parse_options_eq:
  "parse_options opts s =
     (if options_given (CHR ''h'') opts \<noteq> [] then Inl (Exit 0)
      else Inr \<lparr>config_file_name = last (config_file_name s # options_given (CHR ''f'') opts),
                pf_action_set = (pf_action_set s \<and> options_given (CHR ''n'') opts = []),
                verbose_pfctl = verbose_pfctl s + int (length (options_given (CHR ''p'') opts)),
                verbose = verbose s + int (length (options_given (CHR ''v'') opts))\<rparr>)"
  by (induction opts s rule: parse_options.induct) (auto simp: options_given_def)

lemma options_given_append [simp]: "options_given c (xs @ ys) = options_given c xs @ options_given c ys"
  by (simp add: options_given_def)

section \<open>A command line for given settings\<close>

text \<open>Flags may be combined in one word.\<close>

lemma getopt_word_flags:
  assumes "\<forall>c \<in> set cs. option_kind s c = Some False"
  shows "getopt_word s cs rest = (map (\<lambda>c. (c, '''')) cs, rest)"
  using assms by (induction cs) simp_all

lemma getopt_flags:
  assumes "\<forall>c \<in> set cs. option_kind s c = Some False" "cs \<noteq> []" "cs \<noteq> ''-''"
  shows "getopt s ((CHR ''-'' # cs) # args) = map (\<lambda>c. (c, '''')) cs @ getopt s args"
  using assms getopt_word_flags [OF assms(1), of args] by (cases cs) simp_all

lemma getopt_argument:
  assumes "option_kind s c = Some True" "c \<noteq> CHR ''-''"
  shows "getopt s ([CHR ''-'', c] # arg # args) = (c, arg) # getopt s args"
  using assms by simp

text \<open>The arguments that ask for given settings.\<close>

definition command_line :: "settings \<Rightarrow> string list" where
  "command_line st =
     (let flags = (if pf_action_set st then [] else ''n'') @ replicate (nat (verbose_pfctl st)) (CHR ''p'') @
                  replicate (nat (verbose st)) (CHR ''v'')
      in (if flags = [] then [] else [CHR ''-'' # flags]) @ [''-f'', config_file_name st])"

lemma command_line_options:
  "getopt optstring (command_line st) =
     (if pf_action_set st then [] else [(CHR ''n'', '''')]) @ replicate (nat (verbose_pfctl st)) (CHR ''p'', '''') @
     replicate (nat (verbose st)) (CHR ''v'', '''') @ [(CHR ''f'', config_file_name st)]"
proof -
  let ?flags = "(if pf_action_set st then [] else ''n'') @ replicate (nat (verbose_pfctl st)) (CHR ''p'') @
                replicate (nat (verbose st)) (CHR ''v'')"
  have sub: "set ?flags \<subseteq> {CHR ''n'', CHR ''p'', CHR ''v''}" by (cases "pf_action_set st") (simp_all add: set_replicate_conv_if)
  have "option_kind optstring (CHR ''n'') = Some False" "option_kind optstring (CHR ''p'') = Some False"
    "option_kind optstring (CHR ''v'') = Some False"
    by (simp_all add: optstring_def)
  then have flags: "\<forall>c \<in> set ?flags. option_kind optstring c = Some False" using sub by blast
  have "CHR ''-'' \<notin> {CHR ''n'', CHR ''p'', CHR ''v''}" by simp
  then have "CHR ''-'' \<notin> set ?flags" using sub by blast
  then have dash: "?flags \<noteq> ''-''" by (metis list.set_intros(1))
  have fopt: "getopt optstring [''-f'', config_file_name st] = [(CHR ''f'', config_file_name st)]"
    using getopt_argument [of optstring "CHR ''f''" "config_file_name st" "[]"] by (simp add: optstring_def)
  have flag_opts: "map (\<lambda>c. (c, '''')) ?flags = (if pf_action_set st then [] else [(CHR ''n'', '''')]) @
      replicate (nat (verbose_pfctl st)) (CHR ''p'', '''') @ replicate (nat (verbose st)) (CHR ''v'', '''')"
    by (simp add: map_replicate_const [symmetric])
  show ?thesis
  proof (cases "?flags = []")
    case True
    have "command_line st = [''-f'', config_file_name st]" unfolding command_line_def Let_def True by simp
    moreover have "pf_action_set st" "nat (verbose_pfctl st) = 0" "nat (verbose st) = 0" using True by (auto split: if_splits)
    ultimately show ?thesis using fopt by (simp del: getopt.simps)
  next
    case False
    have "command_line st = [CHR ''-'' # ?flags, ''-f'', config_file_name st]"
      using False by (simp add: command_line_def Let_def)
    then show ?thesis using getopt_flags [OF flags False dash] fopt flag_opts by simp
  qed
qed

lemma main_options_command_line:
  assumes "0 \<le> verbose_pfctl st" "0 \<le> verbose st"
  shows "main_options (command_line st) = Inr st"
proof -
  have r: "options_given c (replicate k (d, x)) = (if c = d then replicate k x else [])" for c d k x
    by (simp add: options_given_def)
  have one: "options_given c [(d, x)] = (if c = d then [x] else [])" for c d x
    by (simp add: options_given_def)
  have nil: "options_given c [] = []" for c by (simp add: options_given_def)
  show ?thesis
    using assms by (simp add: main_options_def command_line_options parse_options_eq default_settings_def r one nil)
qed

section \<open>The usage message is complete\<close>

definition documented :: "char \<Rightarrow> bool" where
  "documented c \<longleftrightarrow> (\<exists>l \<in> set (tl usage). l ! 2 = c)"

lemma option_kind_None: "option_kind s c \<noteq> None \<longleftrightarrow> c \<in> set s \<and> c \<noteq> CHR '':''"
  by (induction s) auto

lemma usage_documents: "documented c \<longleftrightarrow> option_kind optstring c \<noteq> None"
  unfolding option_kind_None by (auto simp: documented_def usage_def optstring_def)

end
