(* ===== verification/Startup.thy ===== *)
theory Startup
  imports Downtimes Options
begin

text \<open>
  Start and end of the main process (\<open>main\<close> in \<open>testtool.cpp\<close>, the side of the parent of
  \<open>pfctl_worker.cpp\<close>). What the system answers is an input: the arguments, the
  result of \<open>fork\<close>, the attempt to create the queue, whether the TLS library could be set up, the
  process id and the sockets of the ping checks, and the content of the configuration file.
\<close>

section \<open>The child process, seen from the parent\<close>

text \<open>The parent gets the process id of the child and the queue, which is \<open>None\<close> when it could not be created.\<close>

definition start_pfctl_worker :: "int \<Rightarrow> 'q open_result \<Rightarrow> (int \<times> 'q option) result" where
  "start_pfctl_worker pid queue = (if pid = -1 then Inl (Exit 1) else Inr (pid, new_pfctl_queue queue))"

datatype shutdown_call = Kill int int | Remove_Queue string | Wait_Children

definition stop_pfctl_worker :: "int \<Rightarrow> shutdown_call list" where
  "stop_pfctl_worker worker_pid = [Kill worker_pid 15, Remove_Queue ''pfctl'']"

section \<open>Events of the main loop\<close>

datatype timer = Healthcheck_Scheduler | Healthcheck_Finalizer | Worker_Check | Dump_Status | Lbpool_Syncer

definition setup_events :: "(timer \<times> timeval) list" where
  "setup_events =
     [(Healthcheck_Scheduler, \<lparr>t_sec = 0, t_usec = 100000\<rparr>), (Healthcheck_Finalizer, \<lparr>t_sec = 0, t_usec = 100000\<rparr>),
      (Worker_Check, \<lparr>t_sec = 1, t_usec = 0\<rparr>), (Dump_Status, \<lparr>t_sec = 1, t_usec = 0\<rparr>),
      (Lbpool_Syncer, \<lparr>t_sec = 1, t_usec = 0\<rparr>)]"

section \<open>The main function\<close>

text \<open>
  \<open>main\<close> up to the main loop. A queue that could not be created is a null pointer \<open>main\<close> does not
  look at; the first message then goes through it, and the result is \<open>Inr None\<close>.
\<close>

definition main_init ::
    "('j, 'k) ctor_env \<Rightarrow> (string \<Rightarrow> 'j option) \<Rightarrow> string list \<Rightarrow> int \<Rightarrow> 'q open_result \<Rightarrow> bool \<Rightarrow> int \<Rightarrow> bool list
     \<Rightarrow> nat \<Rightarrow> ('q \<Rightarrow> pfctl_msg \<Rightarrow> bool \<times> 'q) \<Rightarrow> 'q world \<times> 'k \<Rightarrow> (settings \<times> int \<times> 'q world \<times> 'k) option result" where
  "main_init env file args fork_pid queue ssl own_pid ping_answers fuel try_send s =
     bind_result (main_options args) (\<lambda>st.
     bind_result (start_pfctl_worker fork_pid queue) (\<lambda>(worker_pid, mq).
       if \<not> ssl then Inl (Exit 1)
       else case ping_initialize own_pid ping_answers (fst s) of (ok, w) \<Rightarrow>
         if \<not> ok then Inl (Exit 1)
         else case file (config_file_name st) of
                None \<Rightarrow> Inl Json_Exception
              | Some config \<Rightarrow>
                  (case mq of
                     None \<Rightarrow> Inr None
                   | Some q \<Rightarrow>
                       bind_result
                         (load_config (env\<lparr>pf := (pf env)\<lparr>pf_action := pf_action_set st\<rparr>\<rparr>) fuel try_send config
                            (w\<lparr>pfctl_mq := q\<rparr>, snd s))
                         (\<lambda>(w, k). Inr (Some (st, worker_pid, w, k))))))"

text \<open>The calls after the main loop that reach the child process.\<close>

definition main_exit :: "int \<Rightarrow> shutdown_call list" where
  "main_exit worker_pid = stop_pfctl_worker worker_pid @ [Wait_Children]"

section \<open>A dry run asks nothing of the packet filter\<close>

lemma dry_is_in_table: "\<not> pf_action sys \<Longrightarrow> snd (pf_is_in_table sys t a k) = k"
  by (simp add: pf_is_in_table_def pf_get_table_def dry_commands)

lemma dry_LbNode: "\<not> pf_action (pf env) \<Longrightarrow> snd (LbNode_ctor env nm config p (w, k)) = k"
  using dry_is_in_table [of "pf env" _ _ k] by (simp add: LbNode_ctor_def Let_def split: prod.split) (metis snd_conv)

lemma dry_create_nodes: "\<not> pf_action (pf env) \<Longrightarrow> snd (create_nodes env p i items s) = snd s"
proof (induction items arbitrary: i s)
  case (Cons it items)
  then show ?case using dry_LbNode [of env _ _ _ "fst s" "snd s"] by (cases it) simp
qed simp

lemma dry_LbPool:
  assumes "\<not> pf_action (pf env)"
  shows "snd (snd (LbPool_ctor env fuel try_send name config s)) = snd s"
  using dry_create_nodes [OF assms]
  by (auto simp: LbPool_ctor_def Let_def case_prod_beta split: option.split sum.split)

lemma dry_load:
  assumes "\<not> pf_action (pf env)"
  shows "load_pools env fuel try_send items s = Inr s' \<Longrightarrow> snd s' = snd s"
proof (induction items arbitrary: s)
  case (Cons it items)
  obtain name config where it: "it = (name, config)" by fastforce
  obtain r w k where c: "LbPool_ctor env fuel try_send name config s = (r, w, k)" by (metis prod.exhaust)
  have "k = snd s" using dry_LbPool [OF assms, of fuel try_send name config s] c by simp
  then show ?case using Cons it c by (auto split: sum.splits error.splits)
qed simp

end
