(* ===== verification/Lifecycle.thy ===== *)
theory Lifecycle
  imports Startup
begin

text \<open>
  What the main process acquires and releases between its start and its end (\<open>testtool.cpp\<close>,
  \<open>healthcheck_ping.cpp\<close>): the TLS context, the event base, the events of signals and timers, the
  sockets, events and table of the ping checks, and the \<open>TestTool\<close> object. The functions are
  modelled by the calls they make; a checker runs a sequence of calls and fails at the first one
  that uses something that does not exist (any more) or creates something twice.
\<close>

section \<open>The operations\<close>

datatype resource =
    Ssl_Ctx | Event_Base | Signal_Event signal | Timer_Event timer | Seq_Map | Socket4 | Socket6 | Ev4 | Ev6 | Tool

text \<open>Calls that can fail carry their answer.\<close>

datatype lib_call =
    SSL_library_init | SSL_load_error_strings | OpenSSL_add_all_algorithms | SSLeay_version
  | SSL_CTX_new bool | SSL_CTX_set_verify | EVP_cleanup | ERR_free_strings | SSL_CTX_free
  | Event_base_new | Event_base_get_method | Event_base_dispatch | Event_base_free
  | Event_new resource "resource list" | Event_add resource | Event_del resource | Event_free resource
  | Calloc_seq_map | Free_seq_map | Open_socket resource bool | Setsockopt resource bool | Close_socket resource
  | New_TestTool | Load_config | Delete_TestTool

definition init_libssl :: "bool \<Rightarrow> lib_call list \<times> bool" where
  "init_libssl created =
     ([SSL_library_init, SSL_load_error_strings, OpenSSL_add_all_algorithms, SSLeay_version, SSL_CTX_new created] @
        (if \<not> created then [] else [SSL_CTX_set_verify]),
      created)"

definition finish_libssl :: "lib_call list" where
  "finish_libssl = [EVP_cleanup, ERR_free_strings, SSL_CTX_free]"

definition init_libevent :: "lib_call list" where
  "init_libevent = [Event_base_new, Event_base_get_method]"

definition finish_libevent :: "lib_call list" where
  "finish_libevent = [Event_base_free]"

definition signal_events :: "lib_call list" where
  "signal_events =
     concat (map (\<lambda>s. [Event_new (Signal_Event s) [], Event_add (Signal_Event s)]) [SIGINT, SIGTERM, SIGHUP, SIGPIPE, SIGUSR1])"

definition timer_events :: "lib_call list" where
  "timer_events = concat (map (\<lambda>(t, interval). [Event_new (Timer_Event t) [], Event_add (Timer_Event t)]) setup_events)"

text \<open>Calls that are made one after the other until one fails.\<close>

fun attempt :: "(bool \<Rightarrow> lib_call) list \<Rightarrow> bool list \<Rightarrow> lib_call list \<times> bool" where
  "attempt (c # cs) (ok # answers) =
     (if ok then (case attempt cs answers of (calls, r) \<Rightarrow> (c True # calls, r)) else ([c False], False))"
| "attempt cs answers = ([], True)"

definition ping_initialize_calls :: "bool list \<Rightarrow> lib_call list \<times> bool" where
  "ping_initialize_calls answers =
     (case attempt [Open_socket Socket4, Open_socket Socket6, Setsockopt Socket6, Setsockopt Socket4, Setsockopt Socket6] answers of
        (calls, ok) \<Rightarrow>
          (Calloc_seq_map # calls @
             (if ok then [Event_new Ev4 [Socket4], Event_add Ev4, Event_new Ev6 [Socket6], Event_add Ev6] else []),
           ok))"

definition ping_destroy :: "lib_call list" where
  "ping_destroy =
     [Event_del Ev4, Event_free Ev4, Close_socket Socket4, Event_del Ev6, Event_free Ev6, Close_socket Socket6, Free_seq_map]"

text \<open>
  The calls of \<open>main\<close>: whether the TLS context was created, the answers to the ping checks, and
  whether the configuration was loaded or the process died of an exception.
\<close>

definition main_calls :: "bool \<Rightarrow> bool list \<Rightarrow> bool \<Rightarrow> lib_call list" where
  "main_calls ssl answers config_loaded =
     fst (init_libssl ssl) @
     (if \<not> snd (init_libssl ssl) then []
      else init_libevent @ signal_events @ fst (ping_initialize_calls answers) @
        (if \<not> snd (ping_initialize_calls answers) then []
         else [New_TestTool, Load_config] @
           (if \<not> config_loaded then []
            else timer_events @ [Event_base_dispatch, Delete_TestTool] @ ping_destroy @ finish_libevent @ finish_libssl)))"

section \<open>The discipline of resources\<close>

text \<open>What a call needs, what it must not find, what it creates and what it destroys.\<close>

fun needs :: "lib_call \<Rightarrow> resource list" where
  "needs SSL_CTX_set_verify = [Ssl_Ctx]"
| "needs SSL_CTX_free = [Ssl_Ctx]"
| "needs Event_base_get_method = [Event_Base]"
| "needs Event_base_dispatch = [Event_Base, Ssl_Ctx, Socket4, Socket6, Ev4, Ev6, Seq_Map, Tool]"
| "needs Event_base_free = [Event_Base]"
| "needs (Event_new e fds) = Event_Base # fds"
| "needs (Event_add e) = [Event_Base, e]"
| "needs (Event_del e) = [Event_Base, e]"
| "needs (Event_free e) = [Event_Base, e]"
| "needs Free_seq_map = [Seq_Map]"
| "needs (Setsockopt s ok) = [s]"
| "needs (Close_socket s) = [s]"
| "needs New_TestTool = [Event_Base]"
| "needs Load_config = [Event_Base, Ssl_Ctx, Seq_Map, Tool]"
| "needs Delete_TestTool = [Tool]"
| "needs c = []"

fun conflicts :: "lib_call \<Rightarrow> resource list" where
  "conflicts (Close_socket Socket4) = [Ev4]"
| "conflicts (Close_socket Socket6) = [Ev6]"
| "conflicts c = []"

fun makes :: "lib_call \<Rightarrow> resource list" where
  "makes (SSL_CTX_new ok) = (if ok then [Ssl_Ctx] else [])"
| "makes Event_base_new = [Event_Base]"
| "makes (Event_new e fds) = [e]"
| "makes Calloc_seq_map = [Seq_Map]"
| "makes (Open_socket s ok) = (if ok then [s] else [])"
| "makes New_TestTool = [Tool]"
| "makes c = []"

fun drops :: "lib_call \<Rightarrow> resource list" where
  "drops SSL_CTX_free = [Ssl_Ctx]"
| "drops Event_base_free = [Event_Base]"
| "drops (Event_free e) = [e]"
| "drops Free_seq_map = [Seq_Map]"
| "drops (Close_socket s) = [s]"
| "drops Delete_TestTool = [Tool]"
| "drops c = []"

definition call_ok :: "lib_call \<Rightarrow> resource list \<Rightarrow> bool" where
  "call_ok c alive \<longleftrightarrow>
     list_all (\<lambda>r. r \<in> set alive) (needs c) \<and> list_all (\<lambda>r. r \<notin> set alive) (makes c @ conflicts c)"

fun run_calls :: "lib_call list \<Rightarrow> resource list \<Rightarrow> resource list option" where
  "run_calls [] alive = Some alive"
| "run_calls (c # cs) alive =
     (if call_ok c alive then run_calls cs (filter (\<lambda>r. r \<notin> set (drops c)) (makes c @ alive)) else None)"

lemma run_calls_append: "run_calls (cs @ ds) alive = Option.bind (run_calls cs alive) (run_calls ds)"
  by (induction cs alive rule: run_calls.induct) simp_all

section \<open>The main process keeps to it\<close>

text \<open>The answers decide whether the ping checks are set up, as in \<open>ping_initialize\<close>.\<close>

lemma five_answers:
  assumes "length answers = 5"
  obtains a b c d e where "answers = [a, b, c, d, e]"
  using assms by (auto simp: eval_nat_numeral length_Suc_conv)

lemma ping_initialize_calls_ok:
  assumes "length answers = 5"
  shows "snd (ping_initialize_calls answers) = fst (ping_initialize pid answers w)"
proof -
  obtain a b c d e where "answers = [a, b, c, d, e]" using five_answers [OF assms] .
  then show ?thesis by (simp add: ping_initialize_calls_def ping_initialize_def)
qed

text \<open>What exists before the ping checks are set up, and in the main loop.\<close>

definition base_resources :: "resource list" where
  "base_resources = [Signal_Event SIGUSR1, Signal_Event SIGPIPE, Signal_Event SIGHUP, Signal_Event SIGTERM, Signal_Event SIGINT, Event_Base, Ssl_Ctx]"

definition ping_resources :: "resource list" where
  "ping_resources = [Ev6, Ev4, Socket6, Socket4, Seq_Map]"

definition timer_resources :: "resource list" where
  "timer_resources =
     [Timer_Event Lbpool_Syncer, Timer_Event Dump_Status, Timer_Event Worker_Check, Timer_Event Healthcheck_Finalizer, Timer_Event Healthcheck_Scheduler]"

lemma run_init_libssl: "run_calls (fst (init_libssl ok)) [] = Some (if ok then [Ssl_Ctx] else [])"
  by (simp add: init_libssl_def call_ok_def)

lemma run_init_libevent: "run_calls (init_libevent @ signal_events) [Ssl_Ctx] = Some base_resources"
  by (simp add: init_libevent_def signal_events_def call_ok_def base_resources_def)

lemma run_ping_initialize:
  assumes "length answers = 5"
  shows "\<exists>alive. run_calls (fst (ping_initialize_calls answers)) base_resources = Some alive \<and>
    (snd (ping_initialize_calls answers) \<longrightarrow> alive = ping_resources @ base_resources)"
proof -
  obtain a b c d e where "answers = [a, b, c, d, e]" using five_answers [OF assms] .
  then show ?thesis by (simp add: ping_initialize_calls_def call_ok_def base_resources_def ping_resources_def)
qed

lemma run_setup:
  "run_calls [New_TestTool, Load_config] (ping_resources @ base_resources) = Some (Tool # ping_resources @ base_resources)"
  "run_calls timer_events (Tool # ping_resources @ base_resources) = Some (timer_resources @ Tool # ping_resources @ base_resources)"
  by (simp_all add: timer_events_def setup_events_def call_ok_def base_resources_def ping_resources_def timer_resources_def)

lemma run_shutdown:
  "run_calls ([Event_base_dispatch, Delete_TestTool] @ ping_destroy @ finish_libevent @ finish_libssl)
     (timer_resources @ Tool # ping_resources @ base_resources) =
   Some (timer_resources @ filter (\<lambda>r. r \<notin> {Event_Base, Ssl_Ctx}) base_resources)"
  by (simp add: ping_destroy_def finish_libevent_def finish_libssl_def call_ok_def base_resources_def ping_resources_def timer_resources_def)

lemma run_loop:
  "run_calls ([New_TestTool, Load_config] @ timer_events @ [Event_base_dispatch, Delete_TestTool] @ ping_destroy @ finish_libevent @ finish_libssl)
     (ping_resources @ base_resources) = Some (timer_resources @ filter (\<lambda>r. r \<notin> {Event_Base, Ssl_Ctx}) base_resources)"
  unfolding run_calls_append [of "[New_TestTool, Load_config]"] run_calls_append [of timer_events] run_setup Option.bind.simps
  by (rule run_shutdown)

lemma kept_resources: "set (timer_resources @ filter (\<lambda>r. r \<notin> {Event_Base, Ssl_Ctx}) base_resources) = range Signal_Event \<union> range Timer_Event"
proof -
  have "range Signal_Event = Signal_Event ` {SIGPIPE, SIGTERM, SIGINT, SIGHUP, SIGUSR1}"
    using signal.exhaust by blast
  moreover have "range Timer_Event = Timer_Event ` {Healthcheck_Scheduler, Healthcheck_Finalizer, Worker_Check, Dump_Status, Lbpool_Syncer}"
    using timer.exhaust by blast
  ultimately show ?thesis by (auto simp: timer_resources_def base_resources_def)
qed

text \<open>No call fails; after a normal end only the events of signals and timers were not freed.\<close>

lemma run_main_calls:
  assumes "length answers = 5"
  shows "\<exists>alive. run_calls (main_calls ssl answers config_loaded) [] = Some alive \<and>
    (ssl \<and> list_all id answers \<and> config_loaded \<longrightarrow> set alive = range Signal_Event \<union> range Timer_Event)"
proof (cases ssl)
  case False
  then show ?thesis by (simp add: main_calls_def init_libssl_def call_ok_def)
next
  case True
  let ?ok = "snd (ping_initialize_calls answers)"
  let ?loop = "timer_events @ [Event_base_dispatch, Delete_TestTool] @ ping_destroy @ finish_libevent @ finish_libssl"
  let ?rest = "if \<not> ?ok then [] else [New_TestTool, Load_config] @ (if \<not> config_loaded then [] else ?loop)"
  obtain alive where alive: "run_calls (fst (ping_initialize_calls answers)) base_resources = Some alive"
      "?ok \<Longrightarrow> alive = ping_resources @ base_resources"
    using run_ping_initialize [OF assms] by blast
  have ok: "?ok \<longleftrightarrow> list_all id answers"
    using ping_initialize_calls_ok [OF assms] by (simp add: ping_initialize_def id_def)
  have "snd (init_libssl ssl)" using True by (simp add: init_libssl_def)
  then have calls: "main_calls ssl answers config_loaded =
      fst (init_libssl ssl) @ (init_libevent @ signal_events) @ fst (ping_initialize_calls answers) @ ?rest"
    by (simp add: main_calls_def)
  have run: "run_calls (main_calls ssl answers config_loaded) [] = run_calls ?rest alive"
    unfolding calls run_calls_append [of "fst (init_libssl ssl)"] run_init_libssl
      run_calls_append [of "init_libevent @ signal_events"]
    using True run_init_libevent alive(1)
    by (simp add: run_calls_append [of "fst (ping_initialize_calls answers)"] del: run_calls.simps)
  consider "\<not> ?ok" | "?ok" "\<not> config_loaded" | "?ok" "config_loaded" by blast
  then show ?thesis
  proof cases
    case 3
    then have "run_calls ?rest alive = Some (timer_resources @ filter (\<lambda>r. r \<notin> {Event_Base, Ssl_Ctx}) base_resources)"
      using alive(2) run_loop by (simp del: run_calls.simps)
    then show ?thesis unfolding run by (intro exI conjI impI) (assumption, rule kept_resources)
  qed (use run ok alive(2) run_setup(1) in \<open>simp_all del: run_calls.simps(2)\<close>)
qed

end
