(* ===== verification/Retry.thy ===== *)
theory Retry
  imports Main_Loop
begin

text \<open>
  Messages that the queue did not accept (\<open>lb_pool.cpp\<close>, \<open>lb_node.cpp\<close>): the pool stays marked as not
  synchronised, and every later call of its logic sends it again. So when the queue has room again,
  a pool is synchronised as soon as one of its checks ends, or, without checks, at the next call
  of the periodic task for such pools.
\<close>

section \<open>A queue with room\<close>

definition accepting :: "('q \<Rightarrow> pfctl_msg \<Rightarrow> bool \<times> 'q) \<Rightarrow> bool" where
  "accepting try_send \<longleftrightarrow> (\<forall>q m. fst (try_send q m))"

definition waiting :: "'q world \<Rightarrow> pool_id set" where
  "waiting w = {p. \<not> pf_synced (get_pool p w)}"

lemma recompute_waiting: "waiting (recompute p l w) \<subseteq> insert p (waiting w)"
proof -
  have "pf_synced (get_pool q (recompute p l w)) = pf_synced (get_pool q w)" if "q \<noteq> p" for q
    using that by (simp add: recompute_other_pool)
  then show ?thesis by (auto simp: waiting_def)
qed

lemma sync_waiting:
  assumes "accepting try_send" "sync_pool try_send p w = Inr w'"
  shows "waiting w' = waiting w - {p}"
proof (cases "pf_synced (get_pool p w)")
  case True
  then show ?thesis using assms(2) by (auto simp: sync_pool_def waiting_def)
next
  case False
  then obtain sent w1 where s: "send_message try_send (pool_name (get_pool p w)) (pf_name (get_pool p w)) (nodes (get_pool p w))
      (up_nodes (get_pool p w)) w = Inr (sent, w1)" "w' = upd_pool p (\<lambda>x. x\<lparr>pf_synced := sent\<rparr>) w1"
    using assms(2) by (auto simp: sync_pool_def Let_def bind_result_Inr_iff)
  note m = send_message_Inr [OF s(1)]
  have "sent" using assms(1) m(3) unfolding accepting_def by (metis fst_conv)
  moreover have "get_pool q w1 = get_pool q w" for q
    using arg_cong [OF m(4), of "get_pool q"] by simp
  ultimately show ?thesis by (auto simp: s(2) waiting_def pool_store.get_upd)
qed

lemma pool_logic_waiting:
  "pool_logic fuel try_send p l w = Inr w' \<Longrightarrow> accepting try_send \<Longrightarrow> waiting w' \<subseteq> waiting w - {p}"
  "update_pfctl fuel try_send p w = Inr w' \<Longrightarrow> accepting try_send \<Longrightarrow> waiting w' \<subseteq> waiting w - {p}"
  "update_dependents fuel try_send p rest w = Inr w' \<Longrightarrow> accepting try_send \<Longrightarrow> waiting w' \<subseteq> waiting w"
proof (induction fuel try_send p l w and fuel try_send p w and fuel try_send p rest w
    arbitrary: w' and w' and w' rule: pool_logic_update_pfctl_update_dependents.induct)
  case (2 fuel try_send p l w)
  then show ?case using recompute_waiting [of p l w] by fastforce
next
  case (3 fuel try_send p w)
  then show ?case using sync_waiting by (fastforce split: sum.splits)
next
  case (5 fuel try_send p key q rest w)
  then show ?case by (fastforce split: if_splits sum.splits)
qed simp_all

section \<open>The next chance of a pool\<close>

lemma sync_no_hc_waiting:
  assumes "accepting try_send" "sync_no_hc fuel try_send p w = Inr w'"
  shows "waiting w' \<subseteq> waiting w" "\<not> has_hcs (get_pool p w) \<Longrightarrow> p \<notin> waiting w'"
  using assms pool_logic_waiting(2) [of fuel try_send p w w']
  by (auto simp: sync_no_hc_def waiting_def simp del: update_pfctl.simps split: if_splits)

lemma sync_no_hc_static: "sync_no_hc fuel try_send p w = Inr w' \<Longrightarrow> static_eq w w'"
  using pool_logic_static(2) by (auto simp: sync_no_hc_def simp del: update_pfctl.simps split: if_splits)

lemma for_each_sync_static: "for_each (\<lambda>(key, p). sync_no_hc fuel try_send p) ps w = Inr w' \<Longrightarrow> static_eq w w'"
proof (induction ps arbitrary: w)
  case (Cons kp ps)
  then show ?case
    by (cases kp) (auto simp: bind_result_Inr_iff intro: static_eq_trans dest!: sync_no_hc_static)
qed simp

lemma syncer_waiting:
  assumes "accepting try_send"
  shows "for_each (\<lambda>(key, p). sync_no_hc fuel try_send p) ps w = Inr w' \<Longrightarrow>
    waiting w' \<subseteq> waiting w \<and> (\<forall>(k, p) \<in> set ps. \<not> has_hcs (get_pool p w') \<longrightarrow> p \<notin> waiting w')"
proof (induction ps arbitrary: w)
  case (Cons kp ps)
  obtain k p where kp: "kp = (k, p)" by fastforce
  obtain w1 where w1: "sync_no_hc fuel try_send p w = Inr w1" "for_each (\<lambda>(key, p). sync_no_hc fuel try_send p) ps w1 = Inr w'"
    using Cons.prems kp by (auto simp: bind_result_Inr_iff)
  have "has_hcs (get_pool q w') = has_hcs (get_pool q w)" for q
    using for_each_sync_static [OF Cons.prems] by (simp add: static_eqD)
  then show ?case
    using Cons.IH [OF w1(2)] sync_no_hc_waiting [OF assms w1(1)] kp by auto
qed simp

lemma end_check_waiting:
  assumes acc: "accepting try_send" and att: "attached hc w" and run: "end_check fuel try_send hc r w = Inr w'"
  shows "waiting w' \<subseteq> waiting w - {parent_lbpool (get_node (parent_lbnode (get_hc hc w)) w)}"
proof -
  let ?n = "parent_lbnode (get_hc hc w)" and ?v = "upd_hc hc (with_result (result_state r)) w"
  have "hc \<in> set (healthchecks (get_node ?n ?v))" using att by (simp add: attached_def)
  then have ran: "\<exists>h \<in> set (healthchecks (get_node ?n ?v)). ran (get_hc h ?v)" by (auto simp: with_result_def hc_store.get_upd)
  obtain chk okc drain where c: "count_checks ?v (healthchecks (get_node ?n ?v)) (checked (get_node ?n ?v), 0, 0) = (chk, okc, drain)"
    by (metis prod.collapse)
  then have chk using ran by (simp add: count_checks_eq)
  moreover have "node_logic fuel try_send ?n ?v = Inr w'" using run by (simp add: end_check_eq split: if_splits)
  ultimately have "pool_logic fuel try_send (parent_lbpool (get_node ?n w)) (Some ?n)
      (upd_node ?n (node_transition (length (healthchecks (get_node ?n w))) okc drain) (upd_node ?n (\<lambda>x. x\<lparr>checked := True\<rparr>) ?v)) = Inr w'"
    using c by (simp add: node_logic_def Let_def)
  from pool_logic_waiting(1) [OF this acc] show ?thesis by (simp add: waiting_def)
qed

end
