(* ===== verification/Status_File.thy ===== *)
theory Status_File
  imports Main_Loop Msg
begin

text \<open>
  How the status document reaches the file system (\<open>TestTool::dump_status\<close> in \<open>testtool.cpp\<close>): it is
  written to a temporary file, which is renamed over the status file when the stream is still
  good. The file system maps names to contents; what the system answers is an input.
\<close>

section \<open>The operations\<close>

type_synonym files = "string \<rightharpoonup> string"

text \<open>Whether the file was opened, how many characters were written before an error, and whether the renaming worked.\<close>

record stream_answers =
  file_opened :: bool
  written :: "nat option"
  renamed :: bool

definition status_name :: string where
  "status_name = ''/var/run/iglb/lbpools_state.json''"

definition status_new_name :: string where
  "status_new_name = ''/var/run/iglb/lbpools_state.json.new''"

text \<open>Opening with truncation, writing the text and flushing it: whether the stream is good, and the files.\<close>

definition write_stream :: "stream_answers \<Rightarrow> string \<Rightarrow> string \<Rightarrow> files \<Rightarrow> bool \<times> files" where
  "write_stream a name text fs =
     (if \<not> file_opened a then (False, fs)
      else case written a of
             None \<Rightarrow> (True, fs(name \<mapsto> text))
           | Some k \<Rightarrow> (False, fs(name \<mapsto> take k text)))"

definition rename_file :: "bool \<Rightarrow> string \<Rightarrow> string \<Rightarrow> files \<Rightarrow> files" where
  "rename_file ok old new fs = (if ok then fs(old := None, new := fs old) else fs)"

text \<open>\<open>json_text\<close> is the JSON library's output with an indentation of four; \<open>std::endl\<close> adds the newline.\<close>

definition dump_status_file ::
    "((string \<times> pool_status) list \<Rightarrow> string) \<Rightarrow> stream_answers \<Rightarrow> 'q world \<Rightarrow> files \<Rightarrow> log_call list \<times> files" where
  "dump_status_file json_text a w fs =
     (case write_stream a status_new_name (json_text (dump_status w) @ [CHR 0x0A]) fs of
        (good, fs) \<Rightarrow>
          if good then ([], rename_file (renamed a) status_new_name status_name fs)
          else (log_msg MSG_CRIT ''Could not write status file, will retry next time.'', fs))"

definition dump_status_callback ::
    "((string \<times> pool_status) list \<Rightarrow> string) \<Rightarrow> stream_answers \<Rightarrow> 'q world \<Rightarrow> files \<Rightarrow> log_call list \<times> files" where
  "dump_status_callback json_text a w fs = dump_status_file json_text a w fs"

section \<open>The status file is replaced as a whole\<close>

lemma names_differ [simp]: "status_new_name \<noteq> status_name" "status_name \<noteq> status_new_name"
  by (simp_all add: status_name_def status_new_name_def)

lemma published_file:
  "snd (dump_status_file json_text a w fs) status_name =
     (if file_opened a \<and> written a = None \<and> renamed a then Some (json_text (dump_status w) @ [CHR 0x0A]) else fs status_name)"
  by (simp add: dump_status_file_def write_stream_def rename_file_def split: option.split)

lemma other_files:
  "f \<noteq> status_name \<Longrightarrow> f \<noteq> status_new_name \<Longrightarrow> snd (dump_status_file json_text a w fs) f = fs f"
  by (simp add: dump_status_file_def write_stream_def rename_file_def split: option.split)

text \<open>A run of the callback with different answers of the system, each for the state of its time.\<close>

definition dump_often ::
    "((string \<times> pool_status) list \<Rightarrow> string) \<Rightarrow> (stream_answers \<times> 'q world) list \<Rightarrow> files \<Rightarrow> files" where
  "dump_often json_text runs fs = fold (\<lambda>(a, w) fs. snd (dump_status_callback json_text a w fs)) runs fs"

lemma dump_often_complete:
  "dump_often json_text runs fs status_name = fs status_name \<or>
   (\<exists>(a, w) \<in> set runs. dump_often json_text runs fs status_name = Some (json_text (dump_status w) @ [CHR 0x0A]))"
proof (induction runs arbitrary: fs)
  case (Cons r runs)
  obtain a w where r: "r = (a, w)" by fastforce
  let ?fs = "snd (dump_status_callback json_text a w fs)"
  have "dump_often json_text (r # runs) fs = dump_often json_text runs ?fs" by (simp add: dump_often_def r)
  moreover have "?fs status_name = fs status_name \<or> ?fs status_name = Some (json_text (dump_status w) @ [CHR 0x0A])"
    by (simp add: dump_status_callback_def published_file)
  ultimately show ?case using Cons.IH [of ?fs] r by auto
qed (simp add: dump_often_def)

end
