(* ===== verification/Pool_Log.thy ===== *)
theory Pool_Log
  imports Msg Lb_Node
begin

text \<open>
  The handlers of pools (\<open>lb_pool.cpp\<close>) and the message to the child process (\<open>pfctl_worker.cpp\<close>)
  with the lines they log. Each definition is the handler of the theories before with its calls of
  \<open>log\<close> in place; that nothing else differs is proved (\<open>pool_logic_erase\<close>). The other way around, the
  lines of a run tell which nodes the pools have selected and which pools are synchronised.
\<close>

section \<open>The operations\<close>

fun add_previously_wanted_logged :: "nat \<Rightarrow> pool_id \<Rightarrow> 'q world \<Rightarrow> node_id list \<Rightarrow> node_id list \<Rightarrow> node_id list logged" where
  "add_previously_wanted_logged maxn p w [] wanted = ([], wanted)"
| "add_previously_wanted_logged maxn p w (n # ns) wanted =
     (if \<not> (maxn = 0 \<or> length wanted < maxn) then ([], wanted)
      else if \<not> is_up (get_node n w) then add_previously_wanted_logged maxn p w ns wanted
      else if \<not> max_nodes_kept (get_node n w) then add_previously_wanted_logged maxn p w ns wanted
      else tell (MSG_INFO, Of_Pool p, ''Adding previously wanted up LB Node '' @ node_name (get_node n w))
             (add_previously_wanted_logged maxn p w ns (set_insert n wanted)))"

fun add_any_up_logged ::
    "nat \<Rightarrow> pool_id \<Rightarrow> 'q world \<Rightarrow> node_id list \<Rightarrow> node_id list \<Rightarrow> (node_id list \<times> 'q world) logged" where
  "add_any_up_logged maxn p w [] wanted = ([], wanted, w)"
| "add_any_up_logged maxn p w (n # ns) wanted =
     (if \<not> (maxn = 0 \<or> length wanted < maxn) then ([], wanted, w)
      else if \<not> is_up (get_node n w) then add_any_up_logged maxn p w ns wanted
      else if max_nodes_kept (get_node n w) then add_any_up_logged maxn p w ns wanted
      else tell (MSG_INFO, Of_Pool p, ''Adding any up LB Node '' @ node_name (get_node n w))
             (add_any_up_logged maxn p (upd_node n (\<lambda>x. x\<lparr>max_nodes_kept := True\<rparr>) w) ns (set_insert n wanted)))"

definition keep_last_node_logged ::
    "nat \<Rightarrow> pool_id \<Rightarrow> node_id option \<Rightarrow> 'q world \<Rightarrow> node_id list \<Rightarrow> (node_id list \<times> 'q world) logged" where
  "keep_last_node_logged minn p last_node w wanted =
     (case last_node of
        None \<Rightarrow> ([], wanted, w)
      | Some l \<Rightarrow>
          if node_state (get_node l w) = NODE_DOWN \<and> admin_state (get_node l w) = STATE_ENABLED \<and>
             length wanted < minn
          then ([(MSG_INFO, Of_Pool p, ''Force keeping recently changed LB Node '' @ node_name (get_node l w))],
                set_insert l wanted, upd_node l (\<lambda>x. x\<lparr>min_nodes_kept := True\<rparr>) w)
          else ([], wanted, w))"

fun keep_previously_kept_logged ::
    "nat \<Rightarrow> pool_id \<Rightarrow> 'q world \<Rightarrow> node_id list \<Rightarrow> node_id list \<Rightarrow> (node_id list \<times> 'q world) logged" where
  "keep_previously_kept_logged minn p w [] wanted = ([], wanted, w)"
| "keep_previously_kept_logged minn p w (fuc # cs) wanted =
     (if length wanted \<ge> minn then ([], wanted, w)
      else if \<not> min_nodes_kept (get_node fuc w) then keep_previously_kept_logged minn p w cs wanted
      else tell (MSG_INFO, Of_Pool p, ''Force keeping previously force-kept LB Node '' @ node_name (get_node fuc w))
             (keep_previously_kept_logged minn p (upd_node fuc (\<lambda>x. x\<lparr>min_nodes_kept := True\<rparr>) w) cs (set_insert fuc wanted)))"

fun keep_any_logged ::
    "nat \<Rightarrow> pool_id \<Rightarrow> 'q world \<Rightarrow> node_id list \<Rightarrow> node_id list \<Rightarrow> (node_id list \<times> 'q world) logged" where
  "keep_any_logged minn p w [] wanted = ([], wanted, w)"
| "keep_any_logged minn p w (fuc # cs) wanted =
     (if length wanted \<ge> minn then ([], wanted, w)
      else tell (MSG_INFO, Of_Pool p, ''Force keeping any LB Node '' @ node_name (get_node fuc w))
             (keep_any_logged minn p (upd_node fuc (\<lambda>x. x\<lparr>min_nodes_kept := True\<rparr>) w) cs (set_insert fuc wanted)))"

definition force_up_logged ::
    "nat \<Rightarrow> pool_id \<Rightarrow> node_id list \<Rightarrow> node_id option \<Rightarrow> 'q world \<Rightarrow> node_id list \<Rightarrow> (node_id list \<times> 'q world) logged" where
  "force_up_logged minn p ns last_node w wanted =
     bind_logged (keep_last_node_logged minn p last_node w wanted) (\<lambda>(wanted, w).
       let cands = force_up_candidates last_node w ns []
       in bind_logged (keep_previously_kept_logged minn p w cands wanted)
            (\<lambda>(wanted, w). keep_any_logged minn p w cands wanted))"

definition wanted_nodes_logged :: "pool_id \<Rightarrow> node_id option \<Rightarrow> 'q world \<Rightarrow> (node_id list \<times> 'q world) logged" where
  "wanted_nodes_logged p last_node w =
     (let w = upd_pool p (\<lambda>x. x\<lparr>backup_pool_active := False\<rparr>) w; pl = get_pool p w
      in bind_logged (add_previously_wanted_logged (max_nodes pl) p w (nodes pl) []) (\<lambda>wanted.
         bind_logged (add_any_up_logged (max_nodes pl) p w (nodes pl) wanted) (\<lambda>(wanted, w).
           if min_nodes pl > 0 \<and> length wanted < min_nodes pl then
             (case fault_policy pl of
                FORCE_DOWN \<Rightarrow> ([(MSG_INFO, Of_Pool p, ''Not enough nodes, forcing pool down'')], [], w)
              | FORCE_UP \<Rightarrow> force_up_logged (min_nodes pl) p (nodes pl) last_node w wanted
              | BACKUP_POOL \<Rightarrow>
                  (case map_of (lb_pools w) (backup_pool_name pl) of
                     None \<Rightarrow> ([], wanted, w)
                   | Some b \<Rightarrow>
                       ([], up_nodes (get_pool b w), upd_pool p (\<lambda>x. x\<lparr>backup_pool_active := True\<rparr>) w)))
           else ([], wanted, w))))"

definition up_nodes_str :: "'q world \<Rightarrow> node_id list \<Rightarrow> string" where
  "up_nodes_str w ns = concat (map (\<lambda>n. node_name (get_node n w) @ '', '') ns)"

definition commit_wanted_logged :: "pool_id \<Rightarrow> node_id list \<Rightarrow> 'q world \<Rightarrow> 'q world logged" where
  "commit_wanted_logged p wanted w =
     (if wanted \<noteq> up_nodes (get_pool p w)
      then ([(MSG_INFO, Of_Pool p, ''up_lbnodes: '' @ up_nodes_str w wanted)],
            upd_pool p (\<lambda>x. x\<lparr>up_nodes := wanted,
                             pool_state := (if wanted = [] then POOL_DOWN else POOL_UP),
                             pf_synced := False\<rparr>) w)
      else ([], w))"

definition recompute_logged :: "pool_id \<Rightarrow> node_id option \<Rightarrow> 'q world \<Rightarrow> 'q world logged" where
  "recompute_logged p last_node w =
     (if last_node = None \<or> state_changed (get_node (the last_node) w)
      then bind_logged (wanted_nodes_logged p last_node w) (\<lambda>(wanted, w). commit_wanted_logged p wanted w)
      else ([], w))"

text \<open>The line of a node in the message to the child process.\<close>

definition sync_line :: "node_id list \<Rightarrow> 'q world \<Rightarrow> node_id \<Rightarrow> log_line" where
  "sync_line up_lb_nodes w lb_node =
     (let n = get_node lb_node w in
      (MSG_INFO, Of_Node lb_node,
       ''Syncing lb_node with wanted state '' @ (if lb_node \<in> set up_lb_nodes then ''up'' else ''down'') @
       '' admin_state '' @ get_admin_state_string (admin_state n) @ '' state '' @ get_state_string (node_state n)))"

definition send_message_logged ::
    "('q \<Rightarrow> pfctl_msg \<Rightarrow> bool \<times> 'q) \<Rightarrow> string \<Rightarrow> string \<Rightarrow> node_id list \<Rightarrow> node_id list \<Rightarrow> 'q world
     \<Rightarrow> (bool \<times> 'q world) result logged" where
  "send_message_logged try_send pool table all_lb_nodes up_lb_nodes w =
     (if \<not> length all_lb_nodes < MAX_NODES then ([], Inl Assertion_Failed)
      else if \<not> length up_lb_nodes < MAX_NODES then ([], Inl Assertion_Failed)
      else (map (sync_line up_lb_nodes w) all_lb_nodes,
            case try_send (pfctl_mq w) (build_msg pool table all_lb_nodes up_lb_nodes w) of
              (sent, q) \<Rightarrow> Inr (sent, w\<lparr>pfctl_mq := q\<rparr>)))"

definition sync_pool_logged :: "('q \<Rightarrow> pfctl_msg \<Rightarrow> bool \<times> 'q) \<Rightarrow> pool_id \<Rightarrow> 'q world \<Rightarrow> 'q world result logged" where
  "sync_pool_logged try_send p w =
     (let pl = get_pool p w in
      if \<not> pf_synced pl then
        bind_logged_result (send_message_logged try_send (pool_name pl) (pf_name pl) (nodes pl) (up_nodes pl) w)
          (\<lambda>(sent, w). ([(MSG_INFO, Of_Pool p, if \<not> sent then ''sync: delayed'' else ''sync: immediate'')],
                        Inr (upd_pool p (\<lambda>x. x\<lparr>pf_synced := sent\<rparr>) w)))
      else ([], Inr w))"

function (sequential) pool_logic_logged ::
    "nat \<Rightarrow> ('q \<Rightarrow> pfctl_msg \<Rightarrow> bool \<times> 'q) \<Rightarrow> pool_id \<Rightarrow> node_id option \<Rightarrow> 'q world \<Rightarrow> 'q world result logged"
  and update_pfctl_logged ::
    "nat \<Rightarrow> ('q \<Rightarrow> pfctl_msg \<Rightarrow> bool \<times> 'q) \<Rightarrow> pool_id \<Rightarrow> 'q world \<Rightarrow> 'q world result logged"
  and update_dependents_logged ::
    "nat \<Rightarrow> ('q \<Rightarrow> pfctl_msg \<Rightarrow> bool \<times> 'q) \<Rightarrow> pool_id \<Rightarrow> (string \<times> pool_id) list \<Rightarrow> 'q world \<Rightarrow> 'q world result logged"
where
  "pool_logic_logged 0 try_send p last_node w = ([], Inl Unbounded_Recursion)"
| "pool_logic_logged (Suc fuel) try_send p last_node w =
     bind_logged (recompute_logged p last_node w) (update_pfctl_logged fuel try_send p)"
| "update_pfctl_logged fuel try_send p w =
     bind_logged_result (sync_pool_logged try_send p w) (\<lambda>w. update_dependents_logged fuel try_send p (lb_pools w) w)"
| "update_dependents_logged fuel try_send p [] w = ([], Inr w)"
| "update_dependents_logged fuel try_send p ((key, q) # rest) w =
     (if backup_pool_name (get_pool q w) = pool_name (get_pool p w) \<and> backup_pool_active (get_pool q w)
      then bind_logged_result (pool_logic_logged fuel try_send q None w) (update_dependents_logged fuel try_send p rest)
      else update_dependents_logged fuel try_send p rest w)"
  by pat_completeness auto
termination
  by (relation "measures [\<lambda>x. case x of Inl (n, _) \<Rightarrow> n | Inr (Inl (n, _)) \<Rightarrow> n | Inr (Inr (n, _)) \<Rightarrow> n,
                          \<lambda>x. case x of Inl _ \<Rightarrow> 0 | Inr (Inl (_, _, _, w)) \<Rightarrow> 2
                                | Inr (Inr (_, _, _, l, _)) \<Rightarrow> 1,
                          \<lambda>x. case x of Inr (Inr (_, _, _, l, _)) \<Rightarrow> length l | _ \<Rightarrow> 0]")
     auto

definition sync_no_hc_logged ::
    "nat \<Rightarrow> ('q \<Rightarrow> pfctl_msg \<Rightarrow> bool \<times> 'q) \<Rightarrow> pool_id \<Rightarrow> 'q world \<Rightarrow> 'q world result logged" where
  "sync_no_hc_logged fuel try_send p w =
     (if \<not> has_hcs (get_pool p w) \<and> \<not> pf_synced (get_pool p w)
      then tell (MSG_DEBUG, Of_Pool p, ''sync: forcing for non-hc pool'') (update_pfctl_logged fuel try_send p w)
      else ([], Inr w))"

section \<open>Logging changes nothing\<close>

lemma add_previously_wanted_erase [simp]: "snd (add_previously_wanted_logged maxn p w ns W) = add_previously_wanted maxn w ns W"
  by (induction maxn w ns W rule: add_previously_wanted.induct) auto

lemma add_any_up_erase [simp]: "snd (add_any_up_logged maxn p w ns W) = add_any_up maxn w ns W"
  by (induction maxn w ns W rule: add_any_up.induct) auto

lemma keep_last_node_erase [simp]: "snd (keep_last_node_logged minn p l w W) = keep_last_node minn l w W"
  by (simp add: keep_last_node_logged_def keep_last_node_def split: option.split)

lemma keep_previously_kept_erase [simp]: "snd (keep_previously_kept_logged minn p w cs W) = keep_previously_kept minn w cs W"
  by (induction minn w cs W rule: keep_previously_kept.induct) simp_all

lemma keep_any_erase [simp]: "snd (keep_any_logged minn p w cs W) = keep_any minn w cs W"
  by (induction minn w cs W rule: keep_any.induct) simp_all

lemma force_up_erase [simp]: "snd (force_up_logged minn p ns l w W) = force_up minn ns l w W"
  by (simp add: force_up_logged_def force_up_def Let_def case_prod_beta)

lemma wanted_nodes_erase [simp]: "snd (wanted_nodes_logged p l w) = wanted_nodes p l w"
  by (simp add: wanted_nodes_logged_def wanted_nodes_def Let_def case_prod_beta split: FaultPolicy.split option.split)

lemma commit_wanted_erase [simp]: "snd (commit_wanted_logged p W w) = commit_wanted p W w"
  by (simp add: commit_wanted_logged_def commit_wanted_def)

lemma recompute_erase [simp]: "snd (recompute_logged p l w) = recompute p l w"
  by (simp add: recompute_logged_def recompute_def case_prod_beta)

lemma send_message_erase [simp]: "snd (send_message_logged ts pool table all up w) = send_message ts pool table all up w"
  by (simp add: send_message_logged_def send_message_def)

lemma sync_pool_erase [simp]: "snd (sync_pool_logged ts p w) = sync_pool ts p w"
  by (simp add: sync_pool_logged_def sync_pool_def Let_def case_prod_unfold)

lemma pool_logic_erase [simp]:
  "snd (pool_logic_logged fuel ts p l w) = pool_logic fuel ts p l w"
  "snd (update_pfctl_logged fuel ts p w) = update_pfctl fuel ts p w"
  "snd (update_dependents_logged fuel ts p rest w) = update_dependents fuel ts p rest w"
  by (induction fuel ts p l w and fuel ts p w and fuel ts p rest w rule: pool_logic_update_pfctl_update_dependents.induct)
     (auto simp: bind_result_def split: sum.split)

lemma sync_no_hc_erase [simp]: "snd (sync_no_hc_logged fuel ts p w) = sync_no_hc fuel ts p w"
  by (simp add: sync_no_hc_logged_def sync_no_hc_def del: update_pfctl_logged.simps update_pfctl.simps)

section \<open>Reading the log\<close>

text \<open>
  What a reader of the log knows: the nodes each pool has selected, as the text of its last
  \<open>up_lbnodes\<close> line, whether the selection was sent, and the state of each node.
\<close>

record view =
  selection :: "pool_id \<Rightarrow> string"
  synced :: "pool_id \<Rightarrow> bool"
  health :: "node_id \<Rightarrow> LbNodeState"

definition view_of :: "'q world \<Rightarrow> view" where
  "view_of w =
     \<lparr>selection = (\<lambda>p. up_nodes_str w (up_nodes (get_pool p w))), synced = (\<lambda>p. pf_synced (get_pool p w)),
      health = (\<lambda>n. node_state (get_node n w))\<rparr>"

fun read_line :: "log_line \<Rightarrow> view \<Rightarrow> view" where
  "read_line (t, Of_Pool p, msg) v =
     (if take 12 msg = ''up_lbnodes: '' then v\<lparr>selection := (selection v)(p := drop 12 msg), synced := (synced v)(p := False)\<rparr>
      else if msg = ''sync: immediate'' then v\<lparr>synced := (synced v)(p := True)\<rparr>
      else if msg = ''sync: delayed'' then v\<lparr>synced := (synced v)(p := False)\<rparr>
      else v)"
| "read_line (t, Of_Node n, msg) v =
     (if take 16 msg = ''message: all of '' then v\<lparr>health := (health v)(n := NODE_UP)\<rparr>
      else if take 9 msg = ''message: '' \<or> msg = ''downtime: ending'' then v\<lparr>health := (health v)(n := NODE_DOWN)\<rparr>
      else v)"
| "read_line (t, Of_Check h, msg) v = v"

definition read_log :: "log_line list \<Rightarrow> view \<Rightarrow> view" where
  "read_log ls v = fold read_line ls v"

lemma read_log_simps [simp]:
  "read_log [] v = v" "read_log (l # ls) v = read_log ls (read_line l v)"
  "read_log (ls @ ls') v = read_log ls' (read_log ls v)"
  by (simp_all add: read_log_def)

text \<open>The log of a run is true when reading it takes the view of the start to the view of the end.\<close>

definition true_log :: "'q world \<Rightarrow> 'q world result logged \<Rightarrow> bool" where
  "true_log w m \<longleftrightarrow> (\<forall>w'. snd m = Inr w' \<longrightarrow> read_log (fst m) (view_of w) = view_of w')"

lemma true_log_Inl [simp]: "true_log w (ls, Inl e)"
  by (simp add: true_log_def)

lemma true_log_bind:
  assumes "true_log w m" "\<And>w'. snd m = Inr w' \<Longrightarrow> true_log w' (f w')"
  shows "true_log w (bind_logged_result m f)"
  unfolding true_log_def
proof (intro allI impI)
  fix w2 assume run: "snd (bind_logged_result m f) = Inr w2"
  obtain w1 where w1: "snd m = Inr w1" "snd (f w1) = Inr w2" "fst (bind_logged_result m f) = fst m @ fst (f w1)"
    by (rule bind_logged_result_Inr [OF run])
  then show "read_log (fst (bind_logged_result m f)) (view_of w) = view_of w2"
    using assms(1) assms(2) [OF w1(1)] by (simp add: true_log_def)
qed

text \<open>Lines that tell nothing new.\<close>

definition silent :: "log_line list \<Rightarrow> bool" where
  "silent ls \<longleftrightarrow> (\<forall>v. read_log ls v = v)"

lemma silent_simps [simp]: "silent []" "silent ls \<Longrightarrow> silent ls' \<Longrightarrow> silent (ls @ ls')"
  by (auto simp: silent_def)

lemma silent_Cons: "read_line l = id \<Longrightarrow> silent ls \<Longrightarrow> silent (l # ls)"
  by (simp add: silent_def)

lemma silent_pool_line:
  "take 12 msg \<noteq> ''up_lbnodes: '' \<Longrightarrow> take 6 msg \<noteq> ''sync: '' \<Longrightarrow> read_line (t, Of_Pool p, msg) = id"
  by (auto simp: fun_eq_iff)

lemma silent_loops:
  "silent (fst (add_previously_wanted_logged maxn p w ns W))"
  "silent (fst (add_any_up_logged maxn p w ns W))"
  "silent (fst (keep_last_node_logged minn p l w W))"
  "silent (fst (keep_previously_kept_logged minn p w ns W))"
  "silent (fst (keep_any_logged minn p w ns W))"
proof -
  show "silent (fst (add_previously_wanted_logged maxn p w ns W))"
    by (induction maxn p w ns W rule: add_previously_wanted_logged.induct) (auto intro!: silent_Cons silent_pool_line)
  show "silent (fst (add_any_up_logged maxn p w ns W))"
    by (induction maxn p w ns W rule: add_any_up_logged.induct) (auto intro!: silent_Cons silent_pool_line)
  show "silent (fst (keep_last_node_logged minn p l w W))"
    by (auto simp: keep_last_node_logged_def intro!: silent_Cons silent_pool_line split: option.split)
  show "silent (fst (keep_previously_kept_logged minn p w ns W))"
    by (induction minn p w ns W rule: keep_previously_kept_logged.induct) (auto intro!: silent_Cons silent_pool_line)
  show "silent (fst (keep_any_logged minn p w ns W))"
    by (induction minn p w ns W rule: keep_any_logged.induct) (auto intro!: silent_Cons silent_pool_line)
qed

lemma silent_wanted_nodes: "silent (fst (wanted_nodes_logged p l w))"
proof -
  have "silent [(MSG_INFO, Of_Pool p, ''Not enough nodes, forcing pool down'')]"
    by (simp add: silent_Cons silent_pool_line del: read_line.simps)
  then show ?thesis
    by (simp add: wanted_nodes_logged_def force_up_logged_def Let_def case_prod_beta silent_loops
        split: FaultPolicy.split option.split)
qed

lemma silent_sync_lines: "silent (map (sync_line up w) ns)"
  by (induction ns) (auto simp: sync_line_def Let_def fun_eq_iff intro!: silent_Cons)

section \<open>The log of the pools is true\<close>

lemma flags_only_view:
  assumes "flags_only w w'"
  shows "view_of w' = view_of w"
  by (simp add: view_of_def up_nodes_str_def flags_onlyD [OF assms])

lemma view_backup_active [simp]: "view_of (upd_pool p (\<lambda>x. x\<lparr>backup_pool_active := b\<rparr>) w) = view_of w"
  by (auto simp: view_of_def up_nodes_str_def pool_store.get_upd fun_eq_iff)

lemma view_mq [simp]: "view_of (w\<lparr>pfctl_mq := q\<rparr>) = view_of w"
  by (simp add: view_of_def up_nodes_str_def)

lemma wanted_nodes_view: "view_of (snd (wanted_nodes p l w)) = view_of w"
proof -
  have "view_of (after_loops p w) = view_of w"
    using flags_only_view [OF after_loops_flags [of p w]] by simp
  then show ?thesis
    by (simp add: wanted_nodes_eq Let_def flags_only_view [OF force_up_flags] split: FaultPolicy.split option.split)
qed

lemma commit_wanted_view: "read_log (fst (commit_wanted_logged p W w)) (view_of w) = view_of (commit_wanted p W w)"
  by (auto simp: commit_wanted_logged_def commit_wanted_def view_of_def up_nodes_str_def pool_store.get_upd fun_eq_iff)

lemma recompute_view: "read_log (fst (recompute_logged p l w)) (view_of w) = view_of (recompute p l w)"
  using silent_wanted_nodes [of p l w] commit_wanted_view [of p "fst (wanted_nodes p l w)" "snd (wanted_nodes p l w)"]
  by (simp add: recompute_logged_def recompute_def case_prod_beta silent_def wanted_nodes_view)

lemma sync_pool_true: "true_log w (sync_pool_logged ts p w)"
proof (cases "pf_synced (get_pool p w)")
  case False
  have "read_log (fst (sync_pool_logged ts p w)) (view_of w) = view_of w'" if run: "sync_pool ts p w = Inr w'" for w'
  proof -
    let ?pl = "get_pool p w"
    let ?m = "send_message_logged ts (pool_name ?pl) (pf_name ?pl) (nodes ?pl) (up_nodes ?pl) w"
    obtain sent v where s: "snd ?m = Inr (sent, v)" "w' = upd_pool p (\<lambda>x. x\<lparr>pf_synced := sent\<rparr>) v"
      using run False by (auto simp: sync_pool_def Let_def bind_result_Inr_iff)
    have lines: "fst (sync_pool_logged ts p w) =
        fst ?m @ [(MSG_INFO, Of_Pool p, if \<not> sent then ''sync: delayed'' else ''sync: immediate'')]"
      using False s(1) by (simp add: sync_pool_logged_def Let_def bind_logged_result_def del: send_message_erase)
    have "v = w\<lparr>pfctl_mq := pfctl_mq v\<rparr>" using s(1) send_message_Inr(4) by simp
    then have "view_of v = view_of (w\<lparr>pfctl_mq := pfctl_mq v\<rparr>)" by (rule arg_cong)
    then have "view_of v = view_of w" by simp
    moreover have "silent (fst ?m)"
      by (simp add: send_message_logged_def silent_sync_lines)
    ultimately show ?thesis
      unfolding lines s(2) by (auto simp: silent_def view_of_def up_nodes_str_def pool_store.get_upd fun_eq_iff)
  qed
  then show ?thesis by (simp add: true_log_def)
qed (simp add: sync_pool_logged_def true_log_def)

lemma pool_logic_true:
  "true_log w (pool_logic_logged fuel ts p l w)"
  "true_log w (update_pfctl_logged fuel ts p w)"
  "true_log w (update_dependents_logged fuel ts p rest w)"
proof (induction fuel ts p l w and fuel ts p w and fuel ts p rest w rule: pool_logic_logged_update_pfctl_logged_update_dependents_logged.induct)
  case (2 fuel ts p l w)
  then show ?case using recompute_view [of p l w] by (simp add: true_log_def)
next
  case (3 fuel ts p w)
  then show ?case by (auto intro!: true_log_bind sync_pool_true)
next
  case (5 fuel ts p key q rest w)
  then show ?case by (auto intro!: true_log_bind)
qed (simp_all add: true_log_def)

lemma sync_no_hc_true: "true_log w (sync_no_hc_logged fuel ts p w)"
  using pool_logic_true(2) [of w fuel ts p]
  by (simp add: sync_no_hc_logged_def true_log_def del: update_pfctl_logged.simps update_pfctl.simps)

end
