(* ===== verification/Check_Log.thy ===== *)
theory Check_Log
  imports Pool_Log Healthcheck
begin

text \<open>
  The handlers of nodes (\<open>lb_node.cpp\<close>) and of the results of health checks (\<open>healthcheck.cpp\<close>) with
  the lines they log. They compute what the handlers of the theories before compute, and reading
  the lines of a run tells the state of the nodes and of the pools at its end.
\<close>

section \<open>The operations\<close>

definition node_transition_logged :: "node_id \<Rightarrow> nat \<Rightarrow> nat \<Rightarrow> nat \<Rightarrow> LbNode \<Rightarrow> LbNode logged" where
  "node_transition_logged i num_healthchecks ok_healthchecks drain_healthchecks n =
     (let n = n\<lparr>state_changed := False\<rparr>;
          new_state = (if ok_healthchecks < num_healthchecks then NODE_DOWN else NODE_UP);
          new_admin_state = (if drain_healthchecks = 0 then STATE_ENABLED else STATE_DRAIN_SOFT)
      in if node_state n = NODE_UP \<and> new_state = NODE_DOWN then
           ([(MSG_STATE_DOWN, Of_Node i, ''message: '' @ decimal (int (num_healthchecks - ok_healthchecks)) @ '' of '' @
                decimal (int num_healthchecks) @ '' checks failed'')],
            n\<lparr>state_changed := True, max_nodes_kept := False, node_state := NODE_DOWN,
              admin_state := (if admin_state n = STATE_ENABLED then new_admin_state else admin_state n)\<rparr>)
         else if node_state n = NODE_DOWN \<and> new_state = NODE_UP then
           ([(MSG_STATE_DOWN, Of_Node i, ''message: all of '' @ decimal (int num_healthchecks) @ '' checks passed'')],
            n\<lparr>state_changed := True, min_nodes_kept := False, node_state := NODE_UP,
              admin_state := (if admin_state n = STATE_DRAIN_SOFT then STATE_ENABLED else admin_state n)\<rparr>)
         else ([], n))"

definition node_logic_logged ::
    "nat \<Rightarrow> ('q \<Rightarrow> pfctl_msg \<Rightarrow> bool \<times> 'q) \<Rightarrow> node_id \<Rightarrow> 'q world \<Rightarrow> 'q world result logged" where
  "node_logic_logged fuel try_send n w =
     (let hcs = healthchecks (get_node n w);
          (chk, ok_healthchecks, drain_healthchecks) = count_checks w hcs (checked (get_node n w), 0, 0);
          w = upd_node n (\<lambda>x. x\<lparr>checked := chk\<rparr>) w
      in if \<not> chk then ([], Inr w)
         else bind_logged (node_transition_logged n (length hcs) ok_healthchecks drain_healthchecks (get_node n w)) (\<lambda>x.
                let w = upd_node n (\<lambda>_. x) w
                in pool_logic_logged fuel try_send (parent_lbpool (get_node n w)) (Some n) w))"

definition change_downtime_logged ::
    "nat \<Rightarrow> ('q \<Rightarrow> pfctl_msg \<Rightarrow> bool \<times> 'q) \<Rightarrow> node_id \<Rightarrow> string \<Rightarrow> 'q world \<Rightarrow> 'q world result logged" where
  "change_downtime_logged fuel try_send n s w =
     (let new_admin_state = admin_state_from_config s in
      if new_admin_state = admin_state (get_node n w) then ([], Inr w)
      else let (line, w) =
                 (if new_admin_state < STATE_ENABLED
                  then let kill = \<not> (new_admin_state \<le> STATE_DRAIN_SOFT)
                       in ((MSG_STATE_DOWN, Of_Node n, ''downtime: starting, drain: '' @ (if kill then ''no'' else ''yes'')),
                           upd_node n (\<lambda>x. x\<lparr>kill_states := kill, max_nodes_kept := False, state_changed := True\<rparr>) w)
                  else ((MSG_STATE_UP, Of_Node n, ''downtime: ending''),
                        upd_node n (\<lambda>x. x\<lparr>node_state := NODE_DOWN, state_changed := True\<rparr>) w));
               w = upd_node n (\<lambda>x. x\<lparr>admin_state := new_admin_state\<rparr>) w
           in tell line (pool_logic_logged fuel try_send (parent_lbpool (get_node n w)) (Some n) w))"

definition handle_result_logged :: "int \<Rightarrow> hc_id \<Rightarrow> string \<Rightarrow> Healthcheck \<Rightarrow> Healthcheck logged" where
  "handle_result_logged verbose hc message h =
     (let h = (if last_state h = HC_STATE_UP then h\<lparr>failure_counter := 0\<rparr> else h);
          (h, fail_message, changed, log_level) =
            (if hard_state h = HC_STATE_UP then
               (case last_state h of
                  HC_STATE_UP \<Rightarrow> (h, '''', False, MSG_INFO)
                | HC_STATE_DOWN \<Rightarrow>
                    (let h = h\<lparr>failure_counter := failure_counter h + 1\<rparr> in
                     (if uint (failure_counter h) \<ge> max_failed_checks h then h\<lparr>hard_state := HC_STATE_DOWN\<rparr> else h,
                      ''failure: '' @ decimal (uint (failure_counter h)) @ '' of '' @ decimal (max_failed_checks h),
                      True, MSG_STATE_DOWN))
                | HC_STATE_DRAIN \<Rightarrow> (h\<lparr>hard_state := HC_STATE_DRAIN\<rparr>, '''', True, MSG_STATE_DOWN))
             else if last_state h = HC_STATE_UP then
               (h\<lparr>hard_state := HC_STATE_UP, failure_counter := 0\<rparr>, '''', True, MSG_STATE_UP)
             else (h, '''', False, MSG_INFO))
      in (if changed \<or> verbose \<noteq> 0
          then [(log_level, Of_Check hc, ''protocol: '' @ af_string h @ '' '' @ message @ '' '' @ fail_message)] else [],
          h\<lparr>is_running := False, ran := True\<rparr>))"

text \<open>A result is handled on the object in the store, then the node is told.\<close>

definition report_result ::
    "int \<Rightarrow> nat \<Rightarrow> ('q \<Rightarrow> pfctl_msg \<Rightarrow> bool \<times> 'q) \<Rightarrow> hc_id \<Rightarrow> HealthcheckState \<Rightarrow> string \<Rightarrow> 'q world \<Rightarrow> 'q world result logged" where
  "report_result verbose fuel try_send hc state statemsg w =
     bind_logged (handle_result_logged verbose hc statemsg ((get_hc hc w)\<lparr>last_state := state\<rparr>)) (\<lambda>h.
       let w = upd_hc hc (\<lambda>_. h) w
       in node_logic_logged fuel try_send (parent_lbnode (get_hc hc w)) w)"

definition end_check_logged ::
    "int \<Rightarrow> nat \<Rightarrow> ('q \<Rightarrow> pfctl_msg \<Rightarrow> bool \<times> 'q) \<Rightarrow> hc_id \<Rightarrow> HealthcheckResult \<Rightarrow> string \<Rightarrow> 'q world \<Rightarrow> 'q world result logged" where
  "end_check_logged verbose fuel try_send hc result message w =
     (case result of
        HC_PASS \<Rightarrow> report_result verbose fuel try_send hc HC_STATE_UP (''state: up message: '' @ message) w
      | HC_FAIL \<Rightarrow> report_result verbose fuel try_send hc HC_STATE_DOWN (''state: down message: '' @ message) w
      | HC_DRAIN \<Rightarrow> report_result verbose fuel try_send hc HC_STATE_DRAIN (''state: down with draining, message: '' @ message) w
      | HC_PANIC \<Rightarrow> ([(MSG_CRIT, Of_Check hc, ''state: failure message: '' @ message)], Inl (Exit 2)))"

section \<open>Logging changes nothing\<close>

lemma node_transition_erase [simp]: "snd (node_transition_logged i num okc drain n) = node_transition num okc drain n"
  by (simp add: node_transition_logged_def node_transition_def Let_def)

lemma upd_node_checked:
  "upd_node n (\<lambda>_. f ((get_node n w)\<lparr>checked := b\<rparr>)) (upd_node n (\<lambda>x. x\<lparr>checked := b\<rparr>) w) =
     upd_node n f (upd_node n (\<lambda>x. x\<lparr>checked := b\<rparr>) w)"
  by (simp add: upd_node_def get_node_def)

lemma upd_hc_get: "upd_hc hc (\<lambda>_. f (get_hc hc w)) w = upd_hc hc f w"
  by (simp add: upd_hc_def get_hc_def)

lemma node_logic_erase [simp]: "snd (node_logic_logged fuel ts n w) = node_logic fuel ts n w"
  by (simp add: node_logic_logged_def node_logic_def Let_def case_prod_beta upd_node_checked)

lemma change_downtime_erase [simp]: "snd (change_downtime_logged fuel ts n s w) = change_downtime fuel ts n s w"
  by (simp add: change_downtime_logged_def change_downtime_def Let_def case_prod_beta)

lemma handle_result_erase [simp]: "snd (handle_result_logged verbose hc message h) = handle_result h"
  by (simp add: handle_result_logged_def handle_result_def Let_def case_prod_beta split: HealthcheckState.split)

lemma report_result_erase:
  "snd (report_result verbose fuel ts hc st message w) =
     (let w = upd_hc hc (\<lambda>h. handle_result (h\<lparr>last_state := st\<rparr>)) w in node_logic fuel ts (parent_lbnode (get_hc hc w)) w)"
  using upd_hc_get [of hc "\<lambda>h. handle_result (h\<lparr>last_state := st\<rparr>)" w] by (simp add: report_result_def Let_def)

lemma end_check_erase [simp]: "snd (end_check_logged verbose fuel ts hc r message w) = end_check fuel ts hc r w"
  by (simp add: end_check_logged_def end_check_def report_result_erase split: HealthcheckResult.split)

section \<open>The log of the nodes is true\<close>

lemma decimal_no_letter: "take 16 (''message: '' @ decimal (int k) @ s) \<noteq> ''message: all of ''"
proof
  assume "take 16 (''message: '' @ decimal (int k) @ s) = ''message: all of ''"
  then have "take 7 (decimal_nat k @ s) = ''all of ''" by (simp add: decimal_def)
  then have "hd (decimal_nat k) = CHR ''a''" by (cases "decimal_nat k") simp_all
  then have "CHR ''a'' \<in> set (decimal_nat k)" by (metis decimal_nat_nonempty(1) hd_in_set)
  then show False using decimal_nat_digits by fastforce
qed

lemma view_upd_node:
  assumes "\<And>x. node_name (f x) = node_name x"
  shows "view_of (upd_node n f w) = (view_of w)\<lparr>health := (health (view_of w))(n := node_state (f (get_node n w)))\<rparr>"
proof -
  have "node_name (get_node m (upd_node n f w)) = node_name (get_node m w)" for m
    using assms by (simp add: node_store.get_upd)
  then show ?thesis by (auto simp: view_of_def up_nodes_str_def node_store.get_upd fun_eq_iff)
qed

lemma view_same_node:
  assumes "\<And>x. node_name (f x) = node_name x" "node_state (f (get_node n w)) = node_state (get_node n w)"
  shows "view_of (upd_node n f w) = view_of w"
  using assms(2) by (simp add: view_upd_node [OF assms(1)]) (auto simp: view_of_def)

lemma true_log_step:
  assumes "read_log ls (view_of w) = view_of w'" "true_log w' m"
  shows "true_log w (ls @ fst m, snd m)"
  using assms by (simp add: true_log_def)

lemma read_failed: "read_line (t, Of_Node n, ''message: '' @ decimal (int k) @ s) v = v\<lparr>health := (health v)(n := NODE_DOWN)\<rparr>"
  using decimal_no_letter [of k s] by simp

lemma node_transition_view:
  "read_log (fst (node_transition_logged n num okc drain (get_node n w))) (view_of w) =
     view_of (upd_node n (node_transition num okc drain) w)"
proof -
  have name: "node_name (node_transition num okc drain x) = node_name x" for x
    by (simp add: node_transition_def Let_def)
  consider (down) "node_state (get_node n w) = NODE_UP" "okc < num" | (other) "node_state (get_node n w) = NODE_DOWN \<or> \<not> okc < num"
    using LbNodeState.exhaust by blast
  then show ?thesis
  proof cases
    case down
    then have "fst (node_transition_logged n num okc drain (get_node n w)) =
        [(MSG_STATE_DOWN, Of_Node n, ''message: '' @ decimal (int (num - okc)) @ '' of '' @ decimal (int num) @ '' checks failed'')]"
      by (simp add: node_transition_logged_def Let_def)
    then show ?thesis
      using down by (simp only: read_log_simps read_failed view_upd_node [of "node_transition num okc drain", OF name])
        (simp add: node_transition_def Let_def)
  next
    case other
    then show ?thesis
      unfolding view_upd_node [of "node_transition num okc drain", OF name]
      by (simp add: node_transition_logged_def node_transition_def Let_def) (auto simp: view_of_def)
  qed
qed

lemma node_logic_true: "true_log w (node_logic_logged fuel ts n w)"
proof -
  obtain chk okc drain where c: "count_checks w (healthchecks (get_node n w)) (checked (get_node n w), 0, 0) = (chk, okc, drain)"
    by (metis prod.collapse)
  let ?w = "upd_node n (\<lambda>x. x\<lparr>checked := chk\<rparr>) w" and ?k = "length (healthchecks (get_node n w))"
  have v: "view_of ?w = view_of w" by (rule view_same_node) simp_all
  show ?thesis
  proof (cases chk)
    case True
    have "true_log ?w (node_logic_logged fuel ts n w)"
      using true_log_step [OF node_transition_view [of n ?k okc drain ?w] pool_logic_true(1)] c True
      by (simp add: node_logic_logged_def bind_logged_def Let_def upd_node_checked)
    then show ?thesis by (simp add: true_log_def v)
  next
    case False
    then show ?thesis using v c by (simp add: node_logic_logged_def true_log_def)
  qed
qed

lemma change_downtime_true: "true_log w (change_downtime_logged fuel ts n s w)"
proof (cases "admin_state_from_config s = admin_state (get_node n w)")
  case True
  then show ?thesis by (simp add: change_downtime_logged_def true_log_def)
next
  case False
  let ?a = "admin_state_from_config s"
  let ?line = "if ?a < STATE_ENABLED
     then (MSG_STATE_DOWN, Of_Node n, ''downtime: starting, drain: '' @ (if \<not> (?a \<le> STATE_DRAIN_SOFT) then ''no'' else ''yes''))
     else (MSG_STATE_UP, Of_Node n, ''downtime: ending'')"
  let ?w = "upd_node n (downtime_change ?a) w"
  have name: "node_name (downtime_change a x) = node_name x" for a x by (simp add: downtime_change_def)
  have "read_log [?line] (view_of w) = view_of ?w"
    unfolding view_upd_node [of "downtime_change ?a", OF name] by (auto simp: downtime_change_def view_of_def)
  moreover have "change_downtime_logged fuel ts n s w =
      ([?line] @ fst (pool_logic_logged fuel ts (parent_lbpool (get_node n w)) (Some n) ?w),
       snd (pool_logic_logged fuel ts (parent_lbpool (get_node n w)) (Some n) ?w))"
    using False
    by (simp add: change_downtime_logged_def tell_def Let_def node_store.upd_upd downtime_change_def [abs_def] del: pool_logic_erase)
  ultimately show ?thesis using true_log_step [OF _ pool_logic_true(1)] by metis
qed

lemma silent_handle_result: "silent (fst (handle_result_logged verbose hc message h))"
  by (auto simp: handle_result_logged_def Let_def fun_eq_iff intro!: silent_Cons split: HealthcheckState.split)

lemma report_result_true: "true_log w (report_result verbose fuel ts hc st message w)"
proof -
  let ?f = "\<lambda>h. handle_result (h\<lparr>last_state := st\<rparr>)"
  let ?m = "handle_result_logged verbose hc message ((get_hc hc w)\<lparr>last_state := st\<rparr>)"
  have v: "view_of (upd_hc hc ?f w) = view_of w" by (simp add: view_of_def up_nodes_str_def)
  have "read_log (fst ?m) (view_of w) = view_of (upd_hc hc ?f w)"
    using silent_handle_result unfolding v silent_def by blast
  from true_log_step [OF this node_logic_true] show ?thesis
    using upd_hc_get [of hc ?f w] by (simp add: report_result_def bind_logged_def Let_def)
qed

lemma end_check_true: "true_log w (end_check_logged verbose fuel ts hc r message w)"
  by (cases r) (simp_all add: end_check_logged_def report_result_true)

section \<open>What is logged of a result\<close>

text \<open>A change of the hard state is logged whatever the verbosity; a check that keeps passing is not logged by default.\<close>

lemma hard_state_change_logged:
  "hard_state (handle_result h) \<noteq> hard_state h \<Longrightarrow> fst (handle_result_logged verbose hc message h) \<noteq> []"
  by (auto simp: handle_result_logged_def handle_result_def Let_def split: HealthcheckState.splits if_splits)

lemma passing_not_logged:
  "hard_state h = HC_STATE_UP \<Longrightarrow> last_state h = HC_STATE_UP \<Longrightarrow> fst (handle_result_logged 0 hc message h) = []"
  by (simp add: handle_result_logged_def Let_def)

end
