(* ===== verification/Pfctl_Example.thy ===== *)
theory Pfctl_Example
  imports Pfctl_Worker
begin

text \<open>
  A packet filter that satisfies the contract of \<open>/sbin/pfctl\<close>, for the examples: its state maps a
  table name to the addresses in it, and the command line is split into words.
\<close>

fun split_words :: "string \<Rightarrow> string \<Rightarrow> string list" where
  "split_words acc [] = [acc]"
| "split_words acc (c # s) = (if c = CHR '' '' then acc # split_words [] s else split_words (acc @ [c]) s)"

lemma split_words_word: "CHR '' '' \<notin> set a \<Longrightarrow> split_words acc (a @ s) = split_words (acc @ a) s"
  by (induction a arbitrary: acc) auto

lemma split_words_args:
  "\<forall>a \<in> set args. CHR '' '' \<notin> set a \<Longrightarrow>
     split_words acc (concat (map (\<lambda>a. '' '' @ a) args) @ s) = butlast (acc # args) @ split_words (last (acc # args)) s"
  by (induction args arbitrary: acc) (auto simp: split_words_word)

lemma hd_split_words: "hd (split_words acc (concat (map ((#) CHR '' '') args))) = acc"
  by (cases args) simp_all

definition sample_tables :: "(string \<Rightarrow> string list) \<Rightarrow> string \<Rightarrow> string set" where
  "sample_tables k t = {a \<in> set (k t). word a}"

fun sample_run :: "string list \<Rightarrow> (string \<Rightarrow> string list) \<Rightarrow> (string \<times> int) option \<times> (string \<Rightarrow> string list)" where
  "sample_run (dasht # t # dashT # cmd # as) k =
     (if dasht = ''-t'' \<and> cmd = ''show'' then
        (Some (concat (map (\<lambda>a. (''   '' @ a) @ [newline]) (filter word (k t))), 0), k)
      else if dasht = ''-t'' \<and> cmd = ''add'' then (Some ([], 0), k(t := k t @ filter word as))
      else if dasht = ''-t'' \<and> cmd = ''del'' then (Some ([], 0), k(t := filter (\<lambda>a. a \<notin> set as) (k t)))
      else (Some ([], 0), k))"
| "sample_run args k = (Some ([], 0), k)"

definition sample_pf :: "(string \<Rightarrow> string list) pf_sys" where
  "sample_pf =
     \<lparr>popen = (\<lambda>cmd. sample_run (drop 2 (split_words [] cmd))),
      boost_trim = dropWhile (\<lambda>c. c = CHR '' ''),
      make_address_ok = (\<lambda>a. True), pf_action = True\<rparr>"

lemma split_cmd: "drop 2 (split_words [] (pfctl_cmd args)) = tl (split_words ''-q'' (concat (map (\<lambda>a. '' '' @ a) args)))"
  by (simp add: pfctl_cmd_def drop_Suc)

lemma split_cmd_words:
  assumes "\<forall>a \<in> set args. CHR '' '' \<notin> set a"
  shows "drop 2 (split_words [] (pfctl_cmd args)) = args"
  using split_words_args [OF assms, of "''-q''" "[]"] append_butlast_last_id [of "''-q'' # args"]
  by (simp add: split_cmd del: append_butlast_last_id)

lemma sample_run_other: "hd args \<noteq> ''-t'' \<Longrightarrow> sample_run args k = (Some ([], 0), k)"
  by (cases "(args, k)" rule: sample_run.cases) auto

lemma sample_show: "show_spec sample_tables sample_pf"
proof -
  have "popen sample_pf (pfctl_cmd [''-t'', t, ''-T'', ''show'']) k =
      (Some (concat (map (\<lambda>a. (''   '' @ a) @ [newline]) (filter word (k t))), 0), k)" if "word t" for k t
    using that split_cmd_words [of "[''-t'', t, ''-T'', ''show'']"] by (simp add: sample_pf_def word_def)
  moreover have "set (filter word (k t)) = sample_tables k t" for k :: "string \<Rightarrow> string list" and t
    by (auto simp: sample_tables_def)
  ultimately show ?thesis unfolding show_spec_def by (metis (no_types, lifting))
qed

lemma sample_change: "change_spec sample_tables sample_pf"
proof -
  have sp: "popen sample_pf (pfctl_cmd ([''-t'', t, ''-T'', op] @ as)) k = sample_run ([''-t'', t, ''-T'', op] @ as) k"
    if "word t" "word op" "\<forall>a \<in> set as. word a" for k t op as
    using that split_cmd_words [of "[''-t'', t, ''-T'', op] @ as"] by (simp add: sample_pf_def word_def)
  have "word ''add''" "word ''del''" by (simp_all add: word_def NUL_def newline_def)
  moreover have "sample_tables (k(t := k t @ filter word as)) = (sample_tables k)(t := sample_tables k t \<union> set as)"
    if "\<forall>a \<in> set as. word a" for k t as
    using that by (auto simp: sample_tables_def fun_eq_iff)
  moreover have "sample_tables (k(t := filter (\<lambda>a. a \<notin> set as) (k t))) = (sample_tables k)(t := sample_tables k t - set as)"
    for k t and as :: "string list"
    by (auto simp: sample_tables_def fun_eq_iff)
  ultimately show ?thesis unfolding change_spec_def using sp by simp
qed

lemma sample_kill: "kill_spec sample_tables sample_pf"
proof -
  have "sample_run (drop 2 (split_words [] (pfctl_cmd (flag # args)))) k = (Some ([], 0), k)"
    if "flag \<in> {''-K'', ''-k''}" for flag args k
  proof -
    have "hd (tl (split_words ''-q'' ('' '' @ flag @ concat (map (\<lambda>a. '' '' @ a) args)))) = flag"
      using that by (auto simp: hd_split_words)
    then show ?thesis
      using that by (intro sample_run_other) (auto simp: split_cmd)
  qed
  then show ?thesis by (simp add: kill_spec_def sample_pf_def)
qed

lemma sample_contract: "pfctl_contract sample_tables sample_pf"
proof -
  have "dropWhile (\<lambda>c. c = CHR '' '') a = a" if "word a" for a
    using that by (cases a) (auto simp: word_def)
  then show ?thesis
    using sample_show sample_change sample_kill
    by (auto simp: pfctl_contract_def sample_tables_def sample_pf_def)
qed

lemma sample_never_fails: "never_fails sample_pf"
proof -
  have "\<exists>out. fst (sample_run args k) = Some (out, 0)" for args k
    by (cases "(args, k)" rule: sample_run.cases) auto
  then show ?thesis by (simp add: never_fails_def sample_pf_def)
qed

end
