(* ===== verification/Delivery.thy ===== *)
theory Delivery
  imports Main_Loop
begin

text \<open>
  From the selection of a pool (\<open>lb_pool.cpp\<close>) to the queue of the child process
  (\<open>pfctl_worker.cpp\<close>): whenever a pool counts as synchronised, the last message that was accepted
  for its table carries exactly the addresses of its own nodes that get traffic. This theory proves
  it of the recursion of \<open>pool_logic\<close> over backup pools.
\<close>

section \<open>The queue\<close>

text \<open>What the program relies on of the queue library: a message that was accepted is appended.\<close>

definition queue_contract :: "('q \<Rightarrow> pfctl_msg list) \<Rightarrow> ('q \<Rightarrow> pfctl_msg \<Rightarrow> bool \<times> 'q) \<Rightarrow> bool" where
  "queue_contract contents try_send \<longleftrightarrow>
     (\<forall>q m. contents (snd (try_send q m)) = (if fst (try_send q m) then contents q @ [m] else contents q))"

lemma sync_pool_message:
  assumes "queue_contract contents try_send" "sync_pool try_send p w = Inr w'"
    and "\<not> pf_synced (get_pool p w)" "pf_synced (get_pool p w')"
  shows "contents (pfctl_mq w') =
     contents (pfctl_mq w) @ [build_msg (pool_name (get_pool p w)) (pf_name (get_pool p w)) (nodes (get_pool p w)) (up_nodes (get_pool p w)) w]"
    and "length (nodes (get_pool p w)) < MAX_NODES"
proof -
  let ?m = "build_msg (pool_name (get_pool p w)) (pf_name (get_pool p w)) (nodes (get_pool p w)) (up_nodes (get_pool p w)) w"
  obtain sent w1 where s: "send_message try_send (pool_name (get_pool p w)) (pf_name (get_pool p w)) (nodes (get_pool p w))
      (up_nodes (get_pool p w)) w = Inr (sent, w1)" "w' = upd_pool p (\<lambda>x. x\<lparr>pf_synced := sent\<rparr>) w1"
    using assms(2,3) by (auto simp: sync_pool_def Let_def bind_result_Inr_iff)
  note s' = send_message_Inr [OF s(1)]
  have "sent" using assms(4) s(2) by simp
  then have "contents (pfctl_mq w1) = contents (pfctl_mq w) @ [?m]"
    using assms(1) s'(3) unfolding queue_contract_def by (metis fst_conv snd_conv)
  then show "contents (pfctl_mq w') = contents (pfctl_mq w) @ [?m]" by (simp add: s(2))
  show "length (nodes (get_pool p w)) < MAX_NODES" by (rule s'(1))
qed

section \<open>What was sent for a pool\<close>

text \<open>The table a message names, and the addresses of the pool's own nodes that get traffic.\<close>

definition table_of :: "LbPool \<Rightarrow> string" where
  "table_of pl = c_str (strncpy NAME_LEN (pf_name pl))"

definition own_traffic :: "pool_id \<Rightarrow> 'q world \<Rightarrow> string set" where
  "own_traffic p w =
     (\<Union>n \<in> set (nodes (get_pool p w)) \<inter> set (up_nodes (get_pool p w)). sent_addresses (get_node n w))"

text \<open>
  A pool that counts as synchronised: the last accepted message for its table carries its current
  selection.
\<close>

definition delivered :: "('q \<Rightarrow> pfctl_msg list) \<Rightarrow> pool_id \<Rightarrow> 'q world \<Rightarrow> bool" where
  "delivered contents p w \<longleftrightarrow>
     (pf_synced (get_pool p w) \<longrightarrow>
        (\<exists>m. last_for (table_of (get_pool p w)) (contents (pfctl_mq w)) = Some m \<and>
             set (wanted_addresses (synced_lb_nodes m) []) = own_traffic p w))"

text \<open>No two pools share a table.\<close>

definition distinct_tables :: "'q world \<Rightarrow> bool" where
  "distinct_tables w \<longleftrightarrow> distinct (map (\<lambda>(k, p). table_of (get_pool p w)) (lb_pools w))"

section \<open>Where the selected nodes come from\<close>

text \<open>
  A node a pool uses belongs to the pool itself or to a pool along its chain of backup pools, and to
  another pool when the backup is active. So a pool that has switched to its backup uses none of its
  own nodes.
\<close>

definition origin :: "'q world \<Rightarrow> bool" where
  "origin w \<longleftrightarrow>
     (\<forall>(k, q) \<in> set (lb_pools w). \<forall>n \<in> set (up_nodes (get_pool q w)). \<exists>(j, b) \<in> set (lb_pools w).
        n \<in> set (nodes (get_pool b w)) \<and>
        (k, j) \<in> (backup_rel w)\<^sup>* \<and> (backup_pool_active (get_pool q w) \<longrightarrow> (k, j) \<in> (backup_rel w)\<^sup>+))"

lemma originD:
  assumes "origin w" "(k, q) \<in> set (lb_pools w)" "n \<in> set (up_nodes (get_pool q w))"
  obtains j b where "(j, b) \<in> set (lb_pools w)" "n \<in> set (nodes (get_pool b w))" "(k, j) \<in> (backup_rel w)\<^sup>*"
    "backup_pool_active (get_pool q w) \<Longrightarrow> (k, j) \<in> (backup_rel w)\<^sup>+"
  using assms unfolding origin_def by fastforce

lemma pool_inv_own:
  assumes "pool_inv p w" "\<not> backup_pool_active (get_pool p w)" "n \<in> set (up_nodes (get_pool p w))"
  shows "n \<in> set (nodes (get_pool p w))" "admin_state (get_node n w) = STATE_ENABLED"
proof -
  have "n \<in> enabled_set (nodes (get_pool p w)) w"
    using assms pool_policy_enabled [OF _ up_subset_enabled] by (fastforce simp: pool_inv_def Let_def)
  then show "n \<in> set (nodes (get_pool p w))" "admin_state (get_node n w) = STATE_ENABLED"
    by (simp_all add: enabled_set_def)
qed

lemma own_nodes_enabled:
  assumes "pool_inv p w" "world_wf w" "origin w" "acyclic (backup_rel w)" "(k, p) \<in> set (lb_pools w)"
    and n: "n \<in> set (nodes (get_pool p w))" "n \<in> set (up_nodes (get_pool p w))"
  shows "admin_state (get_node n w) = STATE_ENABLED"
proof (cases "backup_pool_active (get_pool p w)")
  case False
  then show ?thesis using pool_inv_own(2) assms by blast
next
  case True
  obtain j b where jb: "(j, b) \<in> set (lb_pools w)" "n \<in> set (nodes (get_pool b w))" "(k, j) \<in> (backup_rel w)\<^sup>+"
    using originD [OF assms(3,5) n(2)] True by blast
  have "b = p" using world_wf_disjoint [OF assms(2,5) jb(1)] n(1) jb(2) by blast
  then have "j = k" using world_wf_pool(1) [OF assms(2)] jb(1) assms(5) by blast
  then show ?thesis using jb(3) assms(4) by (simp add: acyclic_def)
qed

lemma recompute_origin:
  assumes "origin w" "pools_inv Y (recompute p l w)" "(k, p) \<in> set (lb_pools w)" "triggered l w" "world_wf w"
  shows "origin (recompute p l w)"
proof -
  let ?w = "recompute p l w"
  have st: "static_eq w ?w" by (rule recompute_static)
  note D = static_eqD [OF st] backup_rel_static [OF st]
  have "\<exists>(j, b) \<in> set (lb_pools w). n \<in> set (nodes (get_pool b w)) \<and>
      (m, j) \<in> (backup_rel w)\<^sup>* \<and> (backup_pool_active (get_pool q ?w) \<longrightarrow> (m, j) \<in> (backup_rel w)\<^sup>+)"
    if q: "(m, q) \<in> set (lb_pools w)" and n: "n \<in> set (up_nodes (get_pool q ?w))" for m q n
  proof (cases "q = p")
    case False
    then have same: "get_pool q ?w = get_pool q w" by (rule recompute_other_pool)
    show ?thesis using assms(1) q n unfolding same origin_def by blast
  next
    case True
    have m: "m = k" using q assms(3,5) True world_wf_pool(1) by metis
    show ?thesis
    proof (cases "uses_backup p w")
      case False
      have p': "(k, p) \<in> set (lb_pools ?w)" using assms(3) by (simp add: D)
      have "n \<in> set (nodes (get_pool p ?w))"
        using pool_inv_own(1) [OF pools_invD(2) [OF assms(2) p']] False n True assms(4) by (simp add: recompute_up_nodes)
      then show ?thesis
        using assms(3,4) False True m by (auto simp: D recompute_up_nodes intro!: bexI [of _ "(k, p)"])
    next
      case use: True
      then obtain b where b: "map_of (lb_pools w) (backup_pool_name (get_pool p w)) = Some b"
          "fst (wanted_nodes p l w) = up_nodes (get_pool b w)" "fault_policy (get_pool p w) = BACKUP_POOL"
        by (auto simp: uses_backup_def wanted_nodes_eq Let_def)
      have nb: "n \<in> set (up_nodes (get_pool b w))" using n True b(2) assms(4) by (simp add: recompute_up_nodes)
      obtain j c where jc: "(j, c) \<in> set (lb_pools w)" "n \<in> set (nodes (get_pool c w))"
          "(backup_pool_name (get_pool p w), j) \<in> (backup_rel w)\<^sup>*"
        using originD [OF assms(1) map_of_SomeD [OF b(1)] nb] by blast
      have "(k, backup_pool_name (get_pool p w)) \<in> backup_rel w" using assms(3) b(3) by (auto simp: backup_rel_def)
      then have "(k, j) \<in> (backup_rel w)\<^sup>+" using jc(3) by (rule rtrancl_into_trancl2)
      then show ?thesis using jc(1,2) True m by (auto intro!: bexI [of _ "(j, c)"])
    qed
  qed
  then show ?thesis by (simp add: origin_def D) blast
qed

section \<open>A selection and a message\<close>

lemma recompute_mq [simp]: "pfctl_mq (recompute p l w) = pfctl_mq w"
proof -
  have "pfctl_mq (after_loops p w) = pfctl_mq w"
    using flags_only_world(4) [OF after_loops_flags [of p w]] by simp
  moreover have "pfctl_mq (snd (force_up m ns l (after_loops p w) W)) = pfctl_mq (after_loops p w)" for m ns W
    using flags_only_world(4) [OF force_up_flags] .
  ultimately have "pfctl_mq (snd (wanted_nodes p l w)) = pfctl_mq w"
    by (simp add: wanted_nodes_eq split: FaultPolicy.split option.split)
  then show ?thesis by (auto simp: recompute_def commit_wanted_def case_prod_beta)
qed

text \<open>The state of the deliveries depends on few members.\<close>

lemma delivered_cong:
  assumes "pf_name (get_pool p w') = pf_name (get_pool p w)" "nodes (get_pool p w') = nodes (get_pool p w)"
    and "pf_synced (get_pool p w') \<Longrightarrow> pf_synced (get_pool p w) \<and> up_nodes (get_pool p w') = up_nodes (get_pool p w)"
    and "\<And>n. n \<in> set (nodes (get_pool p w)) \<Longrightarrow> sent_addresses (get_node n w') = sent_addresses (get_node n w)"
    and "last_for (table_of (get_pool p w)) (contents (pfctl_mq w')) = last_for (table_of (get_pool p w)) (contents (pfctl_mq w))"
  shows "delivered contents p w \<Longrightarrow> delivered contents p w'"
  using assms by (auto simp: delivered_def own_traffic_def table_of_def)

lemma static_sent_addresses: "static_eq w w' \<Longrightarrow> sent_addresses (get_node n w') = sent_addresses (get_node n w)"
  by (simp add: sent_addresses_def static_eqD)

lemma recompute_delivered:
  assumes "delivered contents q w"
  shows "delivered contents q (recompute p l w)"
proof (rule delivered_cong [OF _ _ _ _ _ assms])
  have st: "static_eq w (recompute p l w)" by (rule recompute_static)
  show "pf_name (get_pool q (recompute p l w)) = pf_name (get_pool q w)" "nodes (get_pool q (recompute p l w)) = nodes (get_pool q w)"
    "\<And>n. sent_addresses (get_node n (recompute p l w)) = sent_addresses (get_node n w)"
    using static_eqD [OF st] static_sent_addresses [OF st] by simp_all
  show "pf_synced (get_pool q (recompute p l w)) \<Longrightarrow>
      pf_synced (get_pool q w) \<and> up_nodes (get_pool q (recompute p l w)) = up_nodes (get_pool q w)"
    by (cases "triggered l w"; cases "q = p")
       (auto simp: recompute_untriggered recompute_other_pool recompute_pool Let_def split: if_splits)
qed simp

lemma sync_delivered_own:
  assumes c: "queue_contract contents try_send" and sync: "sync_pool try_send p w = Inr w'"
    and en: "\<And>n. n \<in> set (nodes (get_pool p w)) \<Longrightarrow> n \<in> set (up_nodes (get_pool p w)) \<Longrightarrow> admin_state (get_node n w) = STATE_ENABLED"
    and d: "delivered contents p w"
  shows "delivered contents p w'"
proof (cases "pf_synced (get_pool p w) \<or> \<not> pf_synced (get_pool p w')")
  case True
  then show ?thesis using sync d by (auto simp: sync_pool_def delivered_def Let_def)
next
  case False
  note msg = sync_pool_message [OF c sync]
  have st: "static_eq w w'" by (rule sync_pool_static [OF sync])
  have up: "up_nodes (get_pool p w') = up_nodes (get_pool p w)"
    using sync by (cases rule: sync_pool_cases) simp_all
  let ?m = "build_msg (pool_name (get_pool p w)) (pf_name (get_pool p w)) (nodes (get_pool p w)) (up_nodes (get_pool p w)) w"
  have "contents (pfctl_mq w') = contents (pfctl_mq w) @ [?m]" "length (nodes (get_pool p w)) \<le> MAX_NODES"
    using msg False by auto
  moreover have "c_str (msg_table_name ?m) = table_of (get_pool p w')" by (simp add: build_msg_def table_of_def static_eqD [OF st])
  moreover have "set (wanted_addresses (synced_lb_nodes ?m) []) = own_traffic p w'"
    using en by (auto simp: message_addresses [OF calculation(2)] own_traffic_def up static_eqD [OF st] static_sent_addresses [OF st])
  ultimately show ?thesis by (simp add: delivered_def last_for_snoc)
qed

lemma sync_delivered_other:
  assumes c: "queue_contract contents try_send" and sync: "sync_pool try_send p w = Inr w'"
    and "q \<noteq> p" "table_of (get_pool q w) \<noteq> table_of (get_pool p w)" "delivered contents q w"
  shows "delivered contents q w'"
proof (rule delivered_cong [OF _ _ _ _ _ assms(5)])
  have st: "static_eq w w'" by (rule sync_pool_static [OF sync])
  show "pf_name (get_pool q w') = pf_name (get_pool q w)" "nodes (get_pool q w') = nodes (get_pool q w)"
    "\<And>n. sent_addresses (get_node n w') = sent_addresses (get_node n w)"
    using static_eqD [OF st] static_sent_addresses [OF st] by simp_all
  show "pf_synced (get_pool q w') \<Longrightarrow> pf_synced (get_pool q w) \<and> up_nodes (get_pool q w') = up_nodes (get_pool q w)"
    using sync assms(3) by (cases rule: sync_pool_cases) (simp_all add: pool_store.get_upd)
  let ?m = "build_msg (pool_name (get_pool p w)) (pf_name (get_pool p w)) (nodes (get_pool p w)) (up_nodes (get_pool p w)) w"
  have tbl: "c_str (msg_table_name ?m) = table_of (get_pool p w)" by (simp add: build_msg_def table_of_def)
  have "contents (pfctl_mq w') = contents (pfctl_mq w) \<or> contents (pfctl_mq w') = contents (pfctl_mq w) @ [?m]"
  proof (cases "pf_synced (get_pool p w)")
    case False
    then obtain s w1 where s: "send_message try_send (pool_name (get_pool p w)) (pf_name (get_pool p w)) (nodes (get_pool p w))
        (up_nodes (get_pool p w)) w = Inr (s, w1)" "w' = upd_pool p (\<lambda>x. x\<lparr>pf_synced := s\<rparr>) w1"
      using sync by (auto simp: sync_pool_def Let_def bind_result_Inr_iff)
    have "try_send (pfctl_mq w) ?m = (s, pfctl_mq w')" using send_message_Inr(3) [OF s(1)] by (simp add: s(2))
    then show ?thesis using c unfolding queue_contract_def by (metis fst_conv snd_conv)
  qed (use sync in \<open>simp add: sync_pool_def Let_def\<close>)
  then show "last_for (table_of (get_pool q w)) (contents (pfctl_mq w')) = last_for (table_of (get_pool q w)) (contents (pfctl_mq w))"
    using assms(4) tbl by (auto simp: last_for_snoc)
qed

section \<open>All pools together\<close>

definition deliveries :: "('q \<Rightarrow> pfctl_msg list) \<Rightarrow> 'q world \<Rightarrow> bool" where
  "deliveries contents w \<longleftrightarrow>
     origin w \<and> acyclic (backup_rel w) \<and> distinct_tables w \<and> (\<forall>(k, p) \<in> set (lb_pools w). delivered contents p w)"

lemma distinct_map_eqD: "distinct (map f xs) \<Longrightarrow> x \<in> set xs \<Longrightarrow> y \<in> set xs \<Longrightarrow> x \<noteq> y \<Longrightarrow> f x \<noteq> f y"
  by (auto simp: distinct_map inj_on_def)

lemma distinct_tablesD:
  assumes "distinct_tables w" "(k, p) \<in> set (lb_pools w)" "(j, q) \<in> set (lb_pools w)" "p \<noteq> q"
  shows "table_of (get_pool p w) \<noteq> table_of (get_pool q w)"
  using distinct_map_eqD [OF assms(1) [unfolded distinct_tables_def] assms(2,3)] assms(4) by simp

lemma static_distinct_tables: "static_eq w w' \<Longrightarrow> distinct_tables w' = distinct_tables w"
  by (simp add: distinct_tables_def table_of_def static_eqD)

lemma sync_origin:
  assumes "origin w" "sync_pool try_send p w = Inr w'"
  shows "origin w'"
proof -
  have st: "static_eq w w'" by (rule sync_pool_static [OF assms(2)])
  have "up_nodes (get_pool q w') = up_nodes (get_pool q w) \<and> backup_pool_active (get_pool q w') = backup_pool_active (get_pool q w)" for q
    using assms(2) by (cases rule: sync_pool_cases) (simp_all add: pool_store.get_upd)
  then show ?thesis
    using assms(1) by (simp add: origin_def static_eqD [OF st] backup_rel_static [OF st])
qed

lemma sync_deliveries:
  assumes c: "queue_contract contents try_send" and sync: "sync_pool try_send p w = Inr w'"
    and p: "(k, p) \<in> set (lb_pools w)" "pool_inv p w" "world_wf w" and d: "deliveries contents w"
  shows "deliveries contents w'"
proof -
  have st: "static_eq w w'" by (rule sync_pool_static [OF sync])
  have o: "origin w" "acyclic (backup_rel w)" "distinct_tables w"
    and del: "\<And>j q. (j, q) \<in> set (lb_pools w) \<Longrightarrow> delivered contents q w"
    using d by (auto simp: deliveries_def)
  have "delivered contents q w'" if q: "(j, q) \<in> set (lb_pools w)" for j q
  proof (cases "q = p")
    case True
    have "admin_state (get_node n w) = STATE_ENABLED"
      if "n \<in> set (nodes (get_pool p w))" "n \<in> set (up_nodes (get_pool p w))" for n
      by (rule own_nodes_enabled [OF p(2,3) o(1,2) p(1) that])
    then show ?thesis using sync_delivered_own [OF c sync] del [OF q] True by blast
  next
    case False
    then show ?thesis using sync_delivered_other [OF c sync] distinct_tablesD [OF o(3) q p(1)] del [OF q] by blast
  qed
  then show ?thesis
    using o sync_origin [OF o(1) sync] by (auto simp: deliveries_def static_eqD [OF st] backup_rel_static [OF st] static_distinct_tables [OF st])
qed

lemma recompute_deliveries:
  assumes d: "deliveries contents w" and "pools_inv Y (recompute p l w)" "(k, p) \<in> set (lb_pools w)" "triggered l w" "world_wf w"
  shows "deliveries contents (recompute p l w)"
proof -
  have st: "static_eq w (recompute p l w)" by (rule recompute_static)
  have "origin (recompute p l w)" using recompute_origin [OF _ assms(2-5)] d by (simp add: deliveries_def)
  then show ?thesis
    using d by (auto simp: deliveries_def recompute_delivered static_eqD [OF st] backup_rel_static [OF st] static_distinct_tables [OF st])
qed

lemma call_invD:
  assumes "call_inv X p w"
  shows "world_wf w" "(pool_name (get_pool p w), p) \<in> set (lb_pools w)"
  using assms by (simp_all add: call_inv_def)

text \<open>The recursion over backup pools.\<close>

interpretation sending: pool_calls "\<lambda>p w. p \<in> snd ` set (lb_pools w)"
    "\<lambda>try_send w. queue_contract contents try_send \<and> deliveries contents w" for contents
proof
  fix X p and w w' :: "'a world" and try_send :: "'a \<Rightarrow> pfctl_msg \<Rightarrow> bool \<times> 'a"
  show "call_inv X p w \<Longrightarrow> p \<in> snd ` set (lb_pools w)" using call_invD(2) [of X p w] by force
  show "static_eq w w' \<Longrightarrow> p \<in> snd ` set (lb_pools w) \<Longrightarrow> p \<in> snd ` set (lb_pools w')" by (simp add: static_eq_world(1))
  show "queue_contract contents try_send \<and> deliveries contents (recompute p None w)"
    if "call_inv X p w" "queue_contract contents try_send \<and> deliveries contents w"
    using recompute_call_inv [OF that(1), of None] call_invD [OF that(1)] that(2) by (auto intro: recompute_deliveries simp: triggered_def)
  show "queue_contract contents try_send \<and> deliveries contents w'"
    if "pools_inv X w" "p \<in> snd ` set (lb_pools w)" "sync_pool try_send p w = Inr w'"
      "queue_contract contents try_send \<and> deliveries contents w"
  proof -
    note member = that(2)
    obtain k where p: "(k, p) \<in> set (lb_pools w)" using member by auto
    note inv = pools_invD [OF that(1) p]
    show ?thesis using sync_deliveries [OF conjunct1 [OF that(4)] that(3) p inv(2,1) conjunct2 [OF that(4)]] that(4) by simp
  qed
qed

lemma update_pfctl_deliveries:
  assumes "update_pfctl fuel try_send p w = Inr w'" "p \<in> snd ` set (lb_pools w)" "pools_inv (X \<union> dependents p w) w"
    and "queue_contract contents try_send" "deliveries contents w"
  shows "deliveries contents w'"
  using sending.recursion(2) [OF assms(1-3), of contents] assms(4,5) by blast

end
