(* ===== verification/Delivery_Loop.thy ===== *)
theory Delivery_Loop
  imports Delivery
begin

text \<open>
  The events of the main loop as runs of four kinds of steps (\<open>core_step\<close>): the members of checks
  change, a check ends, a node gets another administrative state, a pool is sent again. Every
  operation of every type of check has this shape (the locale \<open>shaped_operation\<close>), so an invariant
  of nodes, pools and queue has to be proved for the four steps only; the deliveries are one.
\<close>

section \<open>Changes of one node\<close>

lemma deliveries_upd_node:
  assumes "\<And>x. sent_addresses (f x) = sent_addresses x"
  shows "deliveries contents (upd_node n f w) = deliveries contents w"
proof -
  have "sent_addresses (get_node m (upd_node n f w)) = sent_addresses (get_node m w)" for m
    using assms by (simp add: node_store.get_upd)
  moreover have "pfctl_mq (upd_node n f w) = pfctl_mq w" by simp
  ultimately show ?thesis by (simp add: deliveries_def origin_def distinct_tables_def delivered_def own_traffic_def)
qed

lemma pool_logic_calls_deliver:
  assumes run: "pool_logic fuel try_send p l w = Inr w'" and c: "queue_contract contents try_send" and d: "deliveries contents w"
    and p: "p \<in> snd ` set (lb_pools w)" "set_option l \<subseteq> set (nodes (get_pool p w))"
    and inv: "call_inv {} p w \<and> triggered l w \<or> world_inv w \<and> \<not> triggered l w"
  shows "deliveries contents w'"
proof -
  from run obtain f where f: "fuel = Suc f" by (cases fuel) auto
  let ?v = "recompute p l w"
  have st: "static_eq w ?v" by (rule recompute_static)
  have up: "update_pfctl f try_send p ?v = Inr w'" using run f by simp
  have "pools_inv (dependents p ?v) ?v \<and> deliveries contents ?v"
    using inv
  proof
    assume t: "call_inv {} p w \<and> triggered l w"
    then have v: "pools_inv (dependents p w) ?v" using recompute_call_inv [of "{}" p w l] p(2) by simp
    have "deliveries contents ?v"
      using t by (intro recompute_deliveries [OF d v]) (auto intro: call_invD)
    then show ?thesis using v by (simp add: static_eq_dependents [OF st])
  next
    assume u: "world_inv w \<and> \<not> triggered l w"
    then show ?thesis using d pools_inv_mono [of "{}" w] by (simp add: recompute_untriggered)
  qed
  then show ?thesis
    using update_pfctl_deliveries [OF up, of "{}"] p(1) c by (simp add: static_eq_world(1) [OF st])
qed

lemma node_logic_delivers:
  assumes inv: "world_inv w" and reg: "registered n w" and run: "node_logic fuel try_send n w = Inr w'"
    and c: "queue_contract contents try_send" and d: "deliveries contents w"
  shows "deliveries contents w'"
  using run
proof (cases rule: node_logic_cases)
  case idle
  then show ?thesis using d by (simp add: deliveries_upd_node sent_addresses_def)
next
  case (called okc drain)
  let ?f = "node_transition (length (healthchecks (get_node n w))) okc drain"
  have "sent_addresses (?f x) = sent_addresses x" for x
    by (cases "length (healthchecks (get_node n w))" okc drain x rule: node_transition_cases) (simp_all add: sent_addresses_def)
  then have "deliveries contents (upd_node n ?f (upd_node n (\<lambda>x. x\<lparr>checked := True\<rparr>) w))"
    using d by (simp add: deliveries_upd_node sent_addresses_def)
  then show ?thesis
    using pool_logic_calls_deliver [OF called c] node_transition_call [OF inv reg] registered_pool_known [OF reg] reg
    by (simp add: registered_def Let_def)
qed

lemma change_downtime_delivers:
  assumes inv: "world_inv w" and reg: "registered n w" and run: "change_downtime fuel try_send n s w = Inr w'"
    and c: "queue_contract contents try_send" and d: "deliveries contents w"
  shows "deliveries contents w'"
proof (cases "admin_state_from_config s = admin_state (get_node n w)")
  case True
  with run d show ?thesis by (simp add: change_downtime_eq)
next
  case False
  let ?f = "downtime_change (admin_state_from_config s)"
  have "call_inv {} (parent_lbpool (get_node n w)) (upd_node n ?f w)"
    using world_inv_mark [OF inv reg] False
    by (intro node_change_call_inv [OF inv reg]) (auto simp: is_up_def downtime_change_def split: if_splits)
  moreover have "deliveries contents (upd_node n ?f w)"
    using d by (simp add: deliveries_upd_node sent_addresses_def downtime_change_def)
  moreover have call: "pool_logic fuel try_send (parent_lbpool (get_node n w)) (Some n) (upd_node n ?f w) = Inr w'"
    using run False by (simp add: change_downtime_eq)
  ultimately show ?thesis
    using pool_logic_calls_deliver [OF call c] registered_pool_known [OF reg] reg by (simp add: triggered_def registered_def Let_def)
qed

section \<open>Operations of a health check\<close>

text \<open>A change that touches health checks and globals only.\<close>

definition quiet :: "'q world \<Rightarrow> 'q world \<Rightarrow> bool" where
  "quiet w w' \<longleftrightarrow>
     node_heap w' = node_heap w \<and> pool_heap w' = pool_heap w \<and> lb_pools w' = lb_pools w \<and> pfctl_mq w' = pfctl_mq w \<and>
     (\<forall>h. parent_lbnode (get_hc h w') = parent_lbnode (get_hc h w))"

lemma quiet_refl [simp]: "quiet w w"
  by (simp add: quiet_def)

lemma quiet_trans: "quiet w1 w2 \<Longrightarrow> quiet w2 w3 \<Longrightarrow> quiet w1 w3"
  by (simp add: quiet_def)

lemma quiet_upd_hc: "parent_lbnode (f (get_hc hc w)) = parent_lbnode (get_hc hc w) \<Longrightarrow> quiet w (upd_hc hc f w)"
  by (auto simp: quiet_def hc_store.get_upd) (simp_all add: upd_hc_def)

lemma quiet_reads:
  assumes "quiet w w'"
  shows "get_node n w' = get_node n w" "get_pool p w' = get_pool p w" "lb_pools w' = lb_pools w" "pfctl_mq w' = pfctl_mq w"
    "parent_lbnode (get_hc h w') = parent_lbnode (get_hc h w)"
  using assms by (simp_all add: quiet_def get_node_def get_pool_def)

lemma quiet_deliveries: "quiet w w' \<Longrightarrow> deliveries contents w' = deliveries contents w"
  by (simp add: deliveries_def origin_def distinct_tables_def delivered_def own_traffic_def backup_rel_def quiet_reads)

lemma quiet_registered: "quiet w w' \<Longrightarrow> registered n w' = registered n w"
  by (simp add: registered_def quiet_reads)

lemma quiet_world_inv: "quiet w w' \<Longrightarrow> world_inv w' = world_inv w"
  by (simp add: pools_inv_def world_wf_def pool_wf_def pool_inv_def pool_weak_def linked_def quiet_reads
      up_set_def enabled_set_def marked_set_def)

text \<open>The shape of every operation of a health check: it changes its members, and may then end.\<close>

definition shaped :: "nat \<Rightarrow> ('q \<Rightarrow> pfctl_msg \<Rightarrow> bool \<times> 'q) \<Rightarrow> hc_id \<Rightarrow> 'q world \<Rightarrow> 'q world result \<Rightarrow> bool" where
  "shaped fuel try_send hc w r \<longleftrightarrow>
     (\<forall>w'. r = Inr w' \<longrightarrow> quiet w w' \<or> (\<exists>w1 res. quiet w w1 \<and> end_check fuel try_send hc res w1 = Inr w'))"

lemma shaped_Inl [simp]: "shaped fuel try_send hc w (Inl e)"
  by (simp add: shaped_def)

lemma shaped_Inr [simp]: "quiet w w' \<Longrightarrow> shaped fuel try_send hc w (Inr w')"
  by (simp add: shaped_def)

lemma shaped_end: "quiet w w1 \<Longrightarrow> shaped fuel try_send hc w (end_check fuel try_send hc res w1)"
  unfolding shaped_def by blast

lemma shaped_after: "quiet w w1 \<Longrightarrow> shaped fuel try_send hc w1 r \<Longrightarrow> shaped fuel try_send hc w r"
  using quiet_trans [of w w1] unfolding shaped_def by blast

lemma schedule_base_quiet [simp]: "quiet w (snd (schedule_base now hc w))"
  by (simp add: schedule_base_def quiet_upd_hc)

section \<open>The core of the main loop\<close>

text \<open>
  What an event does to nodes, pools and the queue, whatever the type of the check it belongs to:
  a check ends, a node gets another administrative state, a pool is sent again, or nothing.
\<close>

inductive core_step :: "nat \<Rightarrow> ('q \<Rightarrow> pfctl_msg \<Rightarrow> bool \<times> 'q) \<Rightarrow> 'q world \<Rightarrow> 'q world \<Rightarrow> bool"
  for fuel try_send where
  members: "quiet w w' \<Longrightarrow> core_step fuel try_send w w'"
| check_ends: "attached hc w \<Longrightarrow> end_check fuel try_send hc r w = Inr w' \<Longrightarrow> core_step fuel try_send w w'"
| downtime: "registered n w \<Longrightarrow> change_downtime fuel try_send n a w = Inr w' \<Longrightarrow> core_step fuel try_send w w'"
| resync: "(k, p) \<in> set (lb_pools w) \<Longrightarrow> update_pfctl fuel try_send p w = Inr w' \<Longrightarrow> core_step fuel try_send w w'"

definition refines :: "nat \<Rightarrow> ('q \<Rightarrow> pfctl_msg \<Rightarrow> bool \<times> 'q) \<Rightarrow> 'q world \<Rightarrow> 'q world \<Rightarrow> bool" where
  "refines fuel try_send w w' \<longleftrightarrow> (core_step fuel try_send)\<^sup>*\<^sup>* w w' \<and> keeps fuel w w'"

lemma refines_refl [simp]: "refines fuel try_send w w"
  by (simp add: refines_def)

lemma refines_trans: "refines fuel try_send w1 w2 \<Longrightarrow> refines fuel try_send w2 w3 \<Longrightarrow> refines fuel try_send w1 w3"
  unfolding refines_def by (meson keeps_trans rtranclp_trans)

interpretation acting: traversal "refines fuel try_send" fuel for fuel try_send
  by unfold_locales (blast intro: refines_trans | simp add: refines_def)+

lemma refines_step: "core_step fuel try_send w w' \<Longrightarrow> keeps fuel w w' \<Longrightarrow> refines fuel try_send w w'"
  by (auto simp: refines_def)

lemma refines_quiet: "quiet w w' \<Longrightarrow> keeps fuel w w' \<Longrightarrow> refines fuel try_send w w'"
  by (rule refines_step [OF members])

lemma quiet_attached: "quiet w w' \<Longrightarrow> attached hc w' = attached hc w"
  by (simp add: attached_def quiet_registered quiet_reads)

lemma shaped_refines:
  assumes "attached hc w" "shaped fuel try_send hc w (Inr w')" "keeps fuel w w'"
  shows "refines fuel try_send w w'"
proof -
  consider "quiet w w'" | w1 res where "quiet w w1" "end_check fuel try_send hc res w1 = Inr w'"
    using assms(2) unfolding shaped_def by blast
  then show ?thesis
  proof cases
    case 1
    then show ?thesis using refines_quiet assms(3) by blast
  next
    case (2 w1 res)
    then have "core_step fuel try_send w w1" "core_step fuel try_send w1 w'"
      using assms(1) quiet_attached [OF 2(1)] by (auto intro: members check_ends)
    then show ?thesis using assms(3) by (auto simp: refines_def)
  qed
qed

locale shaped_operation = hc_operation op E
  for op :: "nat \<Rightarrow> ('q \<Rightarrow> pfctl_msg \<Rightarrow> bool \<times> 'q) \<Rightarrow> hc_id \<Rightarrow> 'q world \<Rightarrow> 'q world result" and E +
  assumes op_shaped: "shaped fuel try_send hc w (op fuel try_send hc w)"
begin

lemma op_refines:
  assumes "live fuel w" "attached hc w"
  shows "case op fuel try_send hc w of Inl e \<Rightarrow> e \<in> E | Inr w' \<Rightarrow> refines fuel try_send w w'"
  using op_outcome [OF assms, of try_send] op_shaped [of fuel try_send hc w] shaped_refines [OF assms(2)]
  by (auto simp: outcome_def split: sum.splits)

end

text \<open>A change of the members of one type is quiet, and so is sending a packet.\<close>

lemma quiet_upd [simp]:
  assumes "quiet w w1"
  shows "quiet w (upd_hc hc (upd_tcp f1) w1)" "quiet w (upd_hc hc (upd_http f2) w1)" "quiet w (upd_hc hc (upd_dns f3) w1)"
    "quiet w (upd_hc hc (upd_ping f4) w1)" "quiet w (upd_hc hc (upd_pg f5) w1)"
  by (rule quiet_trans [OF assms quiet_upd_hc], simp)+

lemma quiet_globals [simp]:
  "quiet w w1 \<Longrightarrow> quiet w (w1\<lparr>seq_map := m\<rparr>)" "quiet w w1 \<Longrightarrow> quiet w (w1\<lparr>ping_global_seq := s\<rparr>)"
  "quiet w w1 \<Longrightarrow> quiet w (w1\<lparr>global_transaction_id := t\<rparr>)" "quiet w w1 \<Longrightarrow> quiet w (w1\<lparr>check_downtimes := b\<rparr>)"
  "quiet w w1 \<Longrightarrow> quiet w (send_packet hc bytes w1)"
  by (simp_all add: quiet_def get_hc_def send_packet_def)

lemma end_checks_shaped [simp]:
  assumes "quiet w w1"
  shows "shaped fuel try_send hc w (tcp_end_check r fuel try_send hc w1)"
    "shaped fuel try_send hc w (http_end_check r fuel try_send hc w1)"
    "shaped fuel try_send hc w (ping_end_check r fuel try_send hc w1)"
    "shaped fuel try_send hc w (pg_end_check r fuel try_send hc w1)"
    "shaped fuel try_send hc w (end_check fuel try_send hc r w1)"
  using assms by (simp_all add: tcp_end_check_def http_end_check_def ping_end_check_def pg_end_check_def shaped_end)

interpretation dummy_schedule_shape: shaped_operation "dummy_schedule_healthcheck now" "{}" for now
  by unfold_locales (simp add: dummy_schedule_healthcheck_def)

interpretation tcp_event_shape: shaped_operation "tcp_event_callback events" "{Exit 2}" for events
  by unfold_locales (simp add: tcp_event_callback_def)

interpretation tcp_schedule_shape: shaped_operation "tcp_schedule_healthcheck ans now" fatal for ans now
  by unfold_locales (simp add: tcp_schedule_healthcheck_def case_prod_beta Let_def)

interpretation http_event_shape: shaped_operation "http_event_callback events" "{Exit 2}" for events
  by unfold_locales (simp add: http_event_callback_def split: option.split)

interpretation http_read_shape: shaped_operation "http_read_callback input" "{}" for input
  by unfold_locales (simp add: http_read_callback_def)

interpretation http_schedule_shape: shaped_operation "http_schedule_healthcheck bs ans now" fatal for bs ans now
  by unfold_locales (simp add: http_schedule_healthcheck_def case_prod_beta Let_def)

interpretation dns_event_shape: shaped_operation "dns_callback what recvd" "{Exit 2}" for what recvd
  by unfold_locales (simp add: dns_callback_def split: option.split)

interpretation dns_schedule_shape: shaped_operation "dns_schedule_healthcheck ans now" "{Buffer_Overflow}" for ans now
  by unfold_locales (simp add: dns_schedule_healthcheck_def case_prod_beta Let_def bind_result_def split: option.split sum.split)

interpretation ping_finalize_shape: shaped_operation "ping_finalize now" "{Exit 2}" for now
  by unfold_locales (simp add: ping_finalize_def Let_def)

interpretation ping_schedule_shape: shaped_operation "ping_schedule_healthcheck now" "{}" for now
  by unfold_locales (simp add: ping_schedule_healthcheck_def send_echo_def case_prod_beta Let_def)

lemma register_io_shaped [simp]: "quiet w w1 \<Longrightarrow> shaped fuel try_send hc w (register_io_event a flag m fuel try_send hc w1)"
  by (simp add: register_io_event_def Let_def)

lemma pg_steps_shaped [simp]:
  assumes "quiet w w1"
  shows "shaped fuel try_send hc w (flush_query a fuel try_send hc w1)"
    "shaped fuel try_send hc w (send_query a fuel try_send hc w1)"
    "shaped fuel try_send hc w (poll_conn a fuel try_send hc w1)"
    "shaped fuel try_send hc w (handle_query a fuel try_send hc w1)"
    "shaped fuel try_send hc w (start_conn a fuel try_send hc w1)"
  using assms
  by (simp_all add: flush_query_def send_query_def poll_conn_def handle_query_def start_conn_def Let_def
      split: poll_status.split option.split)

lemma register_timeout_quiet:
  "register_timeout_event a fuel try_send hc w = Inr w' \<Longrightarrow> quiet w w'"
  by (auto simp: register_timeout_event_def Let_def pg_end_check_def end_check_eq split: if_splits)

interpretation pg_io_shape: shaped_operation "handle_io_event a flag" pg_fatal for a flag
  by unfold_locales (simp add: handle_io_event_def Let_def split: option.split pg_method.split)

interpretation pg_timeout_shape: shaped_operation "handle_timeout_event flag" pg_fatal for flag
  by unfold_locales (simp add: handle_timeout_event_def)

interpretation pg_schedule_shape: shaped_operation "pg_schedule_healthcheck ans now" pg_fatal for ans now
proof unfold_locales
  fix fuel :: nat and w :: "'a world" and hc try_send
  have "shaped fuel try_send hc w (bind_result (register_timeout_event (ans hc) fuel try_send hc w1) (start_conn (ans hc) fuel try_send hc))"
    if "quiet w w1" for w1
    using quiet_trans [OF that register_timeout_quiet] by (cases "register_timeout_event (ans hc) fuel try_send hc w1") simp_all
  then show "shaped fuel try_send hc w (pg_schedule_healthcheck ans now fuel try_send hc w)"
    by (simp add: pg_schedule_healthcheck_def case_prod_beta Let_def)
qed

interpretation schedule_any_shape: shaped_operation "hc_schedule net now" scheduling for net now
  by unfold_locales
     (simp add: hc_schedule_def http_schedule_shape.op_shaped tcp_schedule_shape.op_shaped ping_schedule_shape.op_shaped
       pg_schedule_shape.op_shaped dns_schedule_shape.op_shaped dummy_schedule_shape.op_shaped split: derived.split)

interpretation finalize_any_shape: shaped_operation "hc_finalize clock" deadly for clock
  by unfold_locales (simp add: hc_finalize_def finalize_base_def ping_finalize_shape.op_shaped split: derived.split)

section \<open>Every event is a run of the core\<close>

lemma sum_case_Inr: "(case r of Inl e \<Rightarrow> P e | Inr x \<Rightarrow> Q x) \<Longrightarrow> r = Inr y \<Longrightarrow> Q y"
  by simp

lemma downtime_node_refines:
  assumes "live fuel w" "registered n w"
  shows "case downtime_node l pc fuel try_send n w of Inl e \<Rightarrow> e \<in> UNIV | Inr w' \<Rightarrow> refines fuel try_send w w'"
proof (cases "downtime_node l pc fuel try_send n w")
  case (Inr w')
  have "keeps fuel w w'" using downtime_node_outcome [OF assms, of l pc try_send] Inr by simp
  moreover have "w' = w \<or> (\<exists>a. change_downtime fuel try_send n a w = Inr w')"
    using Inr by (auto simp: downtime_node_def bind_result_Inr_iff split: if_splits)
  ultimately show ?thesis using Inr by (auto intro: refines_step downtime [OF assms(2)])
qed simp

lemma downtime_pool_refines:
  assumes "live fuel w" "(k, p) \<in> set (lb_pools w)"
  shows "case downtime_pool l config fuel try_send (k, p) w of Inl e \<Rightarrow> e \<in> UNIV | Inr w' \<Rightarrow> refines fuel try_send w w'"
proof -
  have "refines fuel try_send w v" if "for_each (downtime_node l pc fuel try_send) (nodes (get_pool p w)) w = Inr v" for pc v
    by (rule sum_case_Inr [OF _ that], rule acting.over_nodes [OF assms], rule downtime_node_refines)
  then show ?thesis by (auto simp: downtime_pool_def bind_result_def split: sum.splits)
qed

lemma load_downtimes_refines:
  assumes "live fuel w" "load_downtimes l file fuel try_send w = Inr w'"
  shows "refines fuel try_send w w'"
proof -
  obtain config where run: "for_each (downtime_pool l config fuel try_send) (lb_pools w) w = Inr w'"
    using assms(2) by (auto simp: load_downtimes_def split: option.splits)
  show ?thesis by (rule sum_case_Inr [OF _ run], rule acting.over_pools [OF assms(1)], rule downtime_pool_refines)
qed

lemma schedule_healthchecks_refines:
  assumes "live fuel w" "schedule_healthchecks l file net now fuel try_send w = Inr w'"
  shows "refines fuel try_send w w'"
proof -
  obtain w1 where w1: "refines fuel try_send w w1"
    "for_each (\<lambda>(key, p). pool_schedule_healthchecks net now fuel try_send p) (lb_pools w1) w1 = Inr w'"
  proof (cases "check_downtimes w")
    case True
    then obtain v where v: "load_downtimes l file fuel try_send w = Inr v"
      "for_each (\<lambda>(key, p). pool_schedule_healthchecks net now fuel try_send p) (lb_pools (v\<lparr>check_downtimes := False\<rparr>)) (v\<lparr>check_downtimes := False\<rparr>) = Inr w'"
      using assms(2) by (auto simp: schedule_healthchecks_def bind_result_Inr_iff)
    have "refines fuel try_send v (v\<lparr>check_downtimes := False\<rparr>)"
      by (rule refines_quiet) (simp_all add: keeps_check_downtimes)
    then show ?thesis using that refines_trans [OF load_downtimes_refines [OF assms(1) v(1)]] v(2) by blast
  next
    case False
    then show ?thesis using that [of w] assms(2) by (simp add: schedule_healthchecks_def)
  qed
  have "live fuel w1" using assms(1) w1(1) by (simp add: refines_def keeps_def)
  then have "refines fuel try_send w1 w'"
    by (intro sum_case_Inr [OF acting.over_all_checks])
       (auto intro: schedule_any_shape.op_refines
         w1(2) [unfolded pool_schedule_healthchecks_def [abs_def] node_schedule_healthchecks_def [abs_def]])
  then show ?thesis by (rule refines_trans [OF w1(1)])
qed

lemma finalize_refines:
  assumes "live fuel w" "finalize_healthchecks clock fuel try_send w = Inr w'"
  shows "refines fuel try_send w w'"
  by (rule sum_case_Inr [OF _ assms(2) [unfolded finalize_healthchecks_def pool_finalize_healthchecks_def [abs_def] node_finalize_healthchecks_def [abs_def]]])
     (rule acting.over_all_checks [OF assms(1)], rule finalize_any_shape.op_refines)

lemma sync_no_hc_refines:
  assumes "live fuel w" "(k, p) \<in> set (lb_pools w)"
  shows "case sync_no_hc fuel try_send p w of Inl e \<Rightarrow> e \<in> UNIV | Inr w' \<Rightarrow> refines fuel try_send w w'"
  using sync_no_hc_outcome [OF assms, of try_send] refines_step resync [OF assms(2), of fuel try_send]
  by (auto simp: sync_no_hc_def outcome_def split: sum.splits if_splits)

lemma sync_refines:
  assumes "live fuel w" "sync_lbpools_without_healthchecks fuel try_send w = Inr w'"
  shows "refines fuel try_send w w'"
  by (rule sum_case_Inr [OF _ assms(2) [unfolded sync_lbpools_without_healthchecks_def]], rule acting.over_pools [OF assms(1)])
     (unfold prod.case, rule sync_no_hc_refines)

lemma ping_callback_refines:
  assumes live: "live fuel w" and run: "ping_callback v4 what recvd fuel try_send w = Inr w'"
  shows "refines fuel try_send w w'"
proof -
  have k: "keeps fuel w w'" using ping_callback_outcome [OF live, of v4 what recvd try_send] run by simp
  have "w' = w \<or> (\<exists>s hc. seq_map w s = Some hc \<and> ping_end_check HC_PASS fuel try_send hc w = Inr w')"
    using run by (auto simp: ping_callback_def Let_def split: if_splits option.splits)
  then show ?thesis
  proof
    assume "\<exists>s hc. seq_map w s = Some hc \<and> ping_end_check HC_PASS fuel try_send hc w = Inr w'"
    then obtain s hc where hc: "seq_map w s = Some hc" "ping_end_check HC_PASS fuel try_send hc w = Inr w'" by blast
    have "attached hc w" using live hc(1) by (auto simp: live_def seqs_attached_def)
    moreover have "shaped fuel try_send hc w (Inr w')" using end_checks_shaped(3) [OF quiet_refl, of fuel try_send hc w HC_PASS] hc(2) by simp
    ultimately show ?thesis using k by (rule shaped_refines)
  qed simp
qed

lemma continue_In_Loop: "continue r = In_Loop w' \<longleftrightarrow> r = Inr w'"
  by (auto simp: continue_def split: sum.splits)

lemma scheduler_In_Loop:
  "healthcheck_scheduler_callback l file net now fuel try_send w = In_Loop w' \<longleftrightarrow>
     schedule_healthchecks l file net now fuel try_send w = Inr w'"
  by (auto simp: healthcheck_scheduler_callback_def continue_def split: sum.splits error.splits)

lemmas op_refines =
  tcp_event_shape.op_refines http_event_shape.op_refines http_read_shape.op_refines dns_event_shape.op_refines
  pg_io_shape.op_refines pg_timeout_shape.op_refines

lemma dispatch_refines:
  assumes live: "live fuel w" and fire: "may_fire e w" and run: "dispatch l fuel try_send e w = In_Loop w'"
  shows "refines fuel try_send w w'"
proof (cases e)
  case (Ev_Scheduler f net now)
  then show ?thesis using run schedule_healthchecks_refines [OF live] by (simp add: scheduler_In_Loop)
next
  case (Ev_Finalizer clock)
  then show ?thesis using run finalize_refines [OF live] by (simp add: continue_In_Loop)
next
  case Ev_Syncer
  then show ?thesis using run sync_refines [OF live] by (simp add: continue_In_Loop)
next
  case (Ev_Worker_Check result status)
  then show ?thesis using run by (simp add: worker_check_callback_def split: if_splits)
next
  case Ev_Dump_Status
  then show ?thesis using run by simp
next
  case (Ev_Signal sig)
  then have "w' = w \<or> w' = w\<lparr>check_downtimes := True\<rparr>" using run by (cases sig) (auto simp: signal_handler_def)
  then show ?thesis by (auto intro!: refines_quiet keeps_check_downtimes)
next
  case (Ev_Tcp hc events)
  then show ?thesis using run fire by (auto simp: continue_In_Loop intro: sum_case_Inr [OF op_refines(1) [OF live]])
next
  case (Ev_Http hc events)
  then show ?thesis using run fire by (auto simp: continue_In_Loop intro: sum_case_Inr [OF op_refines(2) [OF live]])
next
  case (Ev_Http_Read hc input)
  then show ?thesis using run fire by (auto simp: continue_In_Loop intro: sum_case_Inr [OF op_refines(3) [OF live]])
next
  case (Ev_Dns hc what recvd)
  then show ?thesis using run fire by (auto simp: continue_In_Loop intro: sum_case_Inr [OF op_refines(4) [OF live]])
next
  case (Ev_Ping v4 what recvd)
  then show ?thesis using run ping_callback_refines [OF live] by (simp add: continue_In_Loop)
next
  case (Ev_Postgres_Io hc a flag)
  then show ?thesis using run fire by (auto simp: continue_In_Loop intro: sum_case_Inr [OF op_refines(5) [OF live]])
next
  case (Ev_Postgres_Timeout hc flag)
  then show ?thesis using run fire by (auto simp: continue_In_Loop intro: sum_case_Inr [OF op_refines(6) [OF live]])
qed

section \<open>Invariants of the core\<close>

lemma core_step_delivers:
  assumes "core_step fuel try_send w w'" "queue_contract contents try_send" "world_inv w \<and> deliveries contents w"
  shows "world_inv w' \<and> deliveries contents w'"
  using assms(1)
proof cases
  case members
  then show ?thesis using assms(3) by (simp add: quiet_world_inv quiet_deliveries)
next
  case (check_ends hc r)
  let ?n = "parent_lbnode (get_hc hc w)" and ?v = "upd_hc hc (with_result (result_state r)) w"
  have q: "quiet w ?v" by (rule quiet_upd_hc) simp
  have "registered ?n ?v" using check_ends(1) quiet_registered [OF q] by (simp add: attached_def)
  moreover have "node_logic fuel try_send ?n ?v = Inr w'" using check_ends(2) by (simp add: end_check_eq split: if_splits)
  ultimately show ?thesis
    using node_logic_delivers [OF _ _ _ assms(2)] node_logic_inv assms(3) by (metis q quiet_world_inv quiet_deliveries)
next
  case (downtime n a)
  then show ?thesis using change_downtime_delivers [OF _ _ _ assms(2)] change_downtime_inv assms(3) by blast
next
  case (resync k p)
  have inv: "pools_inv ({} \<union> dependents p w) w" using assms(3) pools_inv_mono by blast
  have "world_inv w'" by (rule pool_logic_None_inv(2) [OF resync(2) inv])
  moreover have "deliveries contents w'"
    using resync(1) assms(3) by (intro update_pfctl_deliveries [OF resync(2) _ inv assms(2)]) force+
  ultimately show ?thesis by blast
qed

text \<open>Every state that is reached is a run of the core.\<close>

lemma reachable_core:
  assumes "live fuel w0" "reachable l fuel try_send w0 (In_Loop w)"
  shows "(core_step fuel try_send)\<^sup>*\<^sup>* w0 w"
proof -
  have "(core_step fuel try_send)\<^sup>*\<^sup>* w0 w" if "reachable l fuel try_send w0 s" "s = In_Loop w" for s w
    using that
  proof (induction arbitrary: w rule: reachable.induct)
    case (further s s')
    then obtain w1 e where w1: "s = In_Loop w1" "may_fire e w1" "dispatch l fuel try_send e w1 = In_Loop w"
      by (auto elim!: stepE)
    have "live fuel w1" using reachable_live(1) [OF assms(1)] further.hyps(1) w1(1) by simp
    from dispatch_refines [OF this w1(2,3)] show ?case using further.IH [OF w1(1)] by (auto simp: refines_def)
  qed simp
  then show ?thesis using assms(2) by blast
qed

text \<open>So an invariant of the four steps holds of every state that is reached.\<close>

lemma reachable_deliveries:
  assumes "live fuel w0" "queue_contract contents try_send" "deliveries contents w0" "reachable l fuel try_send w0 (In_Loop w)"
  shows "deliveries contents w"
proof -
  from reachable_core [OF assms(1,4)] have "world_inv w \<and> deliveries contents w"
  proof (induction rule: rtranclp_induct)
    case base
    then show ?case using assms(1,3) by (simp add: live_def sound_def)
  next
    case (step v v')
    then show ?case using core_step_delivers assms(2) by blast
  qed
  then show ?thesis by blast
qed

section \<open>What the child process makes of the queue\<close>

lemma worker_table:
  assumes d: "deliveries contents w" and pool: "(key, p) \<in> set (lb_pools w)" "pf_synced (get_pool p w)"
    and worker: "list_all (healthy sizeof_msg parent_pid) iterations" "messages iterations = contents (pfctl_mq w)"
      "\<forall>m \<in> set (messages iterations). msg_ok m"
    and pf: "pfctl_contract tbl sys" "pf_action sys" "never_fails sys"
  shows "\<exists>k'. pfctl_worker_loop sys sizeof_msg parent_pid iterations k = Looping True k' \<and>
           tbl k' (table_of (get_pool p w)) = own_traffic p w"
proof -
  obtain m where m: "last_for (table_of (get_pool p w)) (messages iterations) = Some m"
      "set (wanted_addresses (synced_lb_nodes m) []) = own_traffic p w"
    using d pool worker(2) unfolding deliveries_def delivered_def by fastforce
  then have "tbl (fold (apply_msg sys) (messages iterations) k) (table_of (get_pool p w)) = own_traffic p w"
    using apply_msgs_tables [OF pf worker(3), of k "table_of (get_pool p w)"] by simp
  then show ?thesis by (simp add: worker_loop_healthy [OF worker(1)])
qed

lemma live_traffic:
  assumes live: "live fuel w" and pool: "(key, p) \<in> set (lb_pools w)" "n \<in> set (up_nodes (get_pool p w))"
  shows "admin_state (get_node n w) = STATE_ENABLED"
    and "fault_policy (get_pool p w) = FORCE_DOWN \<Longrightarrow> is_up (get_node n w)"
    and "fault_policy (get_pool p w) = FORCE_DOWN \<Longrightarrow> checked (get_node n w) \<Longrightarrow> all_passed n w"
proof -
  have wf: "world_wf w" using live_pool(3) [OF live pool(1)] by (simp add: pools_inv_def)
  have "is_up (get_node n w) \<and> (checked (get_node n w) \<longrightarrow> all_passed n w)" if "fault_policy (get_pool p w) = FORCE_DOWN"
  proof -
    have up: "n \<in> set (nodes (get_pool p w))" "is_up (get_node n w)"
      using pool_inv_force_down_up [OF live_pool(1) [OF live pool(1)] that pool(2)] .
    then have "registered n w" using world_wf_pool [OF wf pool(1)] pool(1) by (simp add: registered_def Let_def)
    then have "agrees n w" using live by (simp add: live_def)
    then show ?thesis using up by (simp add: agrees_def is_up_def split: if_splits)
  qed
  then show "fault_policy (get_pool p w) = FORCE_DOWN \<Longrightarrow> is_up (get_node n w)"
    "fault_policy (get_pool p w) = FORCE_DOWN \<Longrightarrow> checked (get_node n w) \<Longrightarrow> all_passed n w" by blast+
  show "admin_state (get_node n w) = STATE_ENABLED"
    using world_inv_up_nodes_enabled [OF live_pool(3,4) [OF live pool(1)] pool] .
qed

end
