(* ===== verification/Delivery_Load.thy ===== *)
theory Delivery_Load
  imports Delivery_Loop
begin

text \<open>
  Loading the configuration: every pool that was constructed has sent its selection, or does not
  count as synchronised. A later entry of the file leaves the messages for the earlier pools alone
  when no two pools share a table.
\<close>

section \<open>The origin of the selected nodes\<close>

lemma world_inv_origin:
  assumes inv: "world_inv w" and ac: "acyclic (backup_rel w)"
  shows "origin w"
proof -
  have "\<exists>(j, b) \<in> set (lb_pools w). n \<in> set (nodes (get_pool b w)) \<and> (k, j) \<in> (backup_rel w)\<^sup>* \<and>
      (backup_pool_active (get_pool p w) \<longrightarrow> (k, j) \<in> (backup_rel w)\<^sup>+)"
    if "(k, p) \<in> set (lb_pools w)" "n \<in> set (up_nodes (get_pool p w))" for k p n
    using that
  proof (induction "length (lb_pools w) - card (below w k)" arbitrary: k p rule: less_induct)
    case less
    have pi: "pool_inv p w" and li: "linked p w" using pools_invD [OF inv less.prems(1)] by simp_all
    show ?case
    proof (cases "backup_pool_active (get_pool p w)")
      case False
      then show ?thesis using pool_inv_own(1) [OF pi False less.prems(2)] less.prems(1) by (auto intro!: bexI [of _ "(k, p)"])
    next
      case True
      then obtain b where b: "map_of (lb_pools w) (backup_pool_name (get_pool p w)) = Some b"
          "up_nodes (get_pool p w) = up_nodes (get_pool b w)"
        using li by (auto simp: linked_def Let_def)
      let ?j = "backup_pool_name (get_pool p w)"
      have mem: "(?j, b) \<in> set (lb_pools w)" using b(1) by (rule map_of_SomeD)
      have e: "(k, ?j) \<in> backup_rel w" using less.prems(1) pi True by (auto simp: backup_rel_def pool_inv_def Let_def)
      then have "card (below w k) < card (below w ?j)" using acyclic_ranked [OF ac] by (auto simp: ranked_def)
      moreover have "card (below w ?j) \<le> length (lb_pools w)" by (rule below_card)
      ultimately have "length (lb_pools w) - card (below w ?j) < length (lb_pools w) - card (below w k)" by linarith
      then obtain i c where "(i, c) \<in> set (lb_pools w)" "n \<in> set (nodes (get_pool c w))" "(?j, i) \<in> (backup_rel w)\<^sup>*"
        using less.hyps [OF _ mem] less.prems(2) b(2) by fastforce
      moreover from this(3) have "(k, i) \<in> (backup_rel w)\<^sup>+" by (rule rtrancl_into_trancl2 [OF e])
      ultimately show ?thesis by (auto intro!: bexI [of _ "(i, c)"])
    qed
  qed
  then show ?thesis unfolding origin_def by blast
qed

section \<open>Objects that exist are left alone\<close>

definition all_delivered :: "('q \<Rightarrow> pfctl_msg list) \<Rightarrow> 'q world \<Rightarrow> bool" where
  "all_delivered contents w \<longleftrightarrow> (\<forall>(k, p) \<in> set (lb_pools w). delivered contents p w)"

text \<open>What is loaded stays as it is while the rest of the file is loaded.\<close>

definition grows :: "'q world \<Rightarrow> 'q world \<Rightarrow> bool" where
  "grows w w' \<longleftrightarrow> (\<forall>(k, p) \<in> set (lb_pools w). (k, p) \<in> set (lb_pools w') \<and> get_pool p w' = get_pool p w)"

lemma grows_refl [simp]: "grows w w"
  by (auto simp: grows_def)

lemma grows_trans: "grows w1 w2 \<Longrightarrow> grows w2 w3 \<Longrightarrow> grows w1 w3"
  unfolding grows_def by fastforce

lemma growsD:
  assumes "grows w w'" "(k, p) \<in> set (lb_pools w)"
  shows "(k, p) \<in> set (lb_pools w')" "get_pool p w' = get_pool p w"
  using assms by (auto simp: grows_def)

lemma grows_backup_rel:
  assumes "grows w w'"
  shows "backup_rel w \<subseteq> backup_rel w'"
proof (rule subrelI)
  fix a b assume "(a, b) \<in> backup_rel w"
  then obtain q where "(a, q) \<in> set (lb_pools w)" "b = backup_pool_name (get_pool q w)" "fault_policy (get_pool q w) = BACKUP_POOL"
    by (auto simp: backup_rel_def)
  then show "(a, b) \<in> backup_rel w'" using growsD [OF assms, of a q] by (auto simp: backup_rel_def intro!: exI [of _ q])
qed

lemma frame_grows: "doms_ok w0 \<Longrightarrow> frame w0 w \<Longrightarrow> grows w0 w"
  using frame_reads(1) [of w0 w] by (auto simp: grows_def frame_def)

lemma frame_delivered:
  assumes "doms_ok w0" "frame w0 w" "pfctl_mq w = pfctl_mq w0" "(k, q) \<in> set (lb_pools w0)" "delivered contents q w0"
  shows "delivered contents q w"
  using frame_reads [OF assms(1,2,4)] by (intro delivered_cong [OF _ _ _ _ _ assms(5)]) (simp_all add: assms(3))

lemma delivered_pools_update [simp]: "delivered contents q (w\<lparr>lb_pools := m\<rparr>) = delivered contents q w"
  by (simp add: delivered_def own_traffic_def)

section \<open>The first message of a pool\<close>

text \<open>A new pool sends only nodes that are enabled: those of its backup pool are not its own.\<close>

lemma new_pool_enabled:
  assumes b: "building name p w0 w" and l: "loaded w0" and o: "origin w0"
    and n: "n \<in> set (nodes (get_pool p w))" "n \<in> set (up_nodes (get_pool p (recompute p None w)))"
  shows "admin_state (get_node n (recompute p None w)) = STATE_ENABLED"
proof (cases "backup_pool_active (get_pool p (recompute p None w))")
  case False
  then show ?thesis using pool_inv_own(2) [OF first_selection_inv [OF b l]] n(2) by blast
next
  case True
  have t: "triggered None w" by (simp add: triggered_def)
  obtain c where c: "map_of (lb_pools w) (backup_pool_name (get_pool p w)) = Some c" "fst (wanted_nodes p None w) = up_nodes (get_pool c w)"
    using True by (auto simp: recompute_up_nodes [OF t] uses_backup_def wanted_nodes_eq Let_def)
  have fr: "frame w0 w" and d: "doms_ok w0" using b l by (simp_all add: building_def loaded_def)
  have c0: "(backup_pool_name (get_pool p w), c) \<in> set (lb_pools w0)" using map_of_SomeD [OF c(1)] fr by (simp add: frame_def)
  have "n \<in> set (up_nodes (get_pool c w0))"
    using n(2) c(2) frame_reads(1) [OF d fr c0] by (simp add: recompute_up_nodes [OF t])
  then obtain j q where "(j, q) \<in> set (lb_pools w0)" "n \<in> set (nodes (get_pool q w0))" using originD [OF o c0] by blast
  then have "n \<in> set (node_dom w0)" using d by (auto simp: doms_ok_def)
  moreover have "n \<notin> set (node_dom w0)" using b n(1) by (simp add: building_def new_node_def)
  ultimately show ?thesis by blast
qed

lemma register_delivers:
  assumes b: "building name p w0 w" and l: "loaded w0" and name: "name \<notin> fst ` set (lb_pools w0)" and o: "origin w0"
    and run: "pool_logic fuel try_send p None w = Inr w'" and unsynced: "\<not> pf_synced (get_pool p w)"
    and c: "queue_contract contents try_send" and d: "all_delivered contents w0"
    and tables: "\<And>k q. (k, q) \<in> set (lb_pools w0) \<Longrightarrow> table_of (get_pool q w0) \<noteq> table_of (get_pool p w)"
  shows "all_delivered contents (w'\<lparr>lb_pools := map_insert name p (lb_pools w')\<rparr>)"
proof -
  let ?v = "recompute p None w"
  have st: "static_eq w ?v" by (rule recompute_static)
  note first = first_pool_logic_eq [OF b l name run]
  have fr: "frame w0 w" and dom: "doms_ok w0" and mq: "pfctl_mq w = pfctl_mq w0"
    using b l by (simp_all add: building_def loaded_def)
  have "delivered contents p w" using unsynced by (simp add: delivered_def)
  then have "delivered contents p w'"
    using new_pool_enabled [OF b l o] by (intro sync_delivered_own [OF c first(1)] recompute_delivered) (simp_all add: static_eq_pool(3) [OF st])
  moreover have "delivered contents q w'" if q: "(k, q) \<in> set (lb_pools w0)" for k q
  proof (rule sync_delivered_other [OF c first(1)])
    have qp: "get_pool q w = get_pool q w0" by (rule frame_reads(1) [OF dom fr q])
    have "delivered contents q w" using d q by (intro frame_delivered [OF dom fr mq q]) (auto simp: all_delivered_def)
    then show "delivered contents q ?v" by (rule recompute_delivered)
    show "q \<noteq> p" using building_pool(3) [OF b l] imageI [OF q, of snd] fr by (auto simp: frame_def)
    show "table_of (get_pool q ?v) \<noteq> table_of (get_pool p ?v)"
      using tables [OF q] qp static_eq_pool(2) [OF st] by (simp add: table_of_def)
  qed
  moreover have "lb_pools w' = lb_pools w0" using first(2) by (simp add: frame_def)
  ultimately show ?thesis
    using set_map_insert_new [of name "lb_pools w'" p] name by (auto simp: all_delivered_def)
qed

section \<open>The whole configuration\<close>

lemma LbPool_ctor_grows:
  assumes fresh: "fresh_addresses env" and l: "loaded w" and name: "name \<notin> fst ` set (lb_pools w)"
    and run: "LbPool_ctor env fuel try_send name config (w, k) = (r, w', k')"
  shows "case r of Inl e \<Rightarrow> grows w w' | Inr p \<Rightarrow> grows w (w'\<lparr>lb_pools := map_insert name p (lb_pools w')\<rparr>)"
proof -
  have d: "doms_ok w" using l by (simp add: loaded_def)
  show ?thesis using fresh run
  proof (cases rule: LbPool_ctor_cases)
    case (thrown e)
    then show ?thesis using frame_grows [OF d] by simp
  next
    case (built p v)
    have fr: "frame w w'" by (rule first_pool_logic_eq(2) [OF built(2) l name built(4)])
    then have "lb_pools w' = lb_pools w" by (simp add: frame_def)
    then show ?thesis
      using built(1) frame_grows [OF d fr] set_map_insert_new [of name "lb_pools w'" p] name by (auto simp: grows_def)
  qed
qed

lemma LbPool_ctor_delivers:
  assumes fresh: "fresh_addresses env" and l: "loaded w" and name: "name \<notin> fst ` set (lb_pools w)" and o: "origin w"
    and run: "LbPool_ctor env fuel try_send name config (w, k) = (r, w', k')"
    and c: "queue_contract contents try_send" and d: "all_delivered contents w"
    and tables: "\<And>p j q. r = Inr p \<Longrightarrow> (j, q) \<in> set (lb_pools w) \<Longrightarrow> table_of (get_pool q w) \<noteq> table_of (get_pool p w')"
  shows "case r of Inl e \<Rightarrow> all_delivered contents w' | Inr p \<Rightarrow> all_delivered contents (w'\<lparr>lb_pools := map_insert name p (lb_pools w')\<rparr>)"
  using fresh run
proof (cases rule: LbPool_ctor_cases)
  case (thrown e)
  have "lb_pools w' = lb_pools w" using thrown(2) by (simp add: frame_def)
  then show ?thesis
    using thrown d l frame_delivered [OF _ thrown(2,3)] by (auto simp: all_delivered_def loaded_def)
next
  case (built p v)
  have "static_eq v w'" by (rule first_pool_logic(2) [OF built(2) l name built(4,3)])
  then have "table_of (get_pool p w') = table_of (get_pool p v)" by (simp add: table_of_def static_eq_pool)
  then have "all_delivered contents (w'\<lparr>lb_pools := map_insert name p (lb_pools w')\<rparr>)"
    using tables [OF built(1)] by (intro register_delivers [OF built(2) l name o built(4,3) c d]) simp
  then show ?thesis using built(1) by simp
qed

text \<open>Two entries of the map have different tables when they have in a world that grew out of it.\<close>

lemma grown_tables_differ:
  assumes "grows w w'" "distinct_tables w'" "(k, p) \<in> set (lb_pools w)" "(j, q) \<in> set (lb_pools w)" "(k, p) \<noteq> (j, q)"
  shows "table_of (get_pool p w) \<noteq> table_of (get_pool q w)"
  using distinct_map_eqD [OF assms(2) [unfolded distinct_tables_def] growsD(1) [OF assms(1,3)] growsD(1) [OF assms(1,4)] assms(5)]
    growsD(2) [OF assms(1,3)] growsD(2) [OF assms(1,4)] by simp

lemma load_pools_delivers:
  assumes fresh: "fresh_addresses env" and c: "queue_contract contents try_send"
  shows "loaded w \<Longrightarrow> distinct (map fst items) \<Longrightarrow> set (map fst items) \<inter> fst ` set (lb_pools w) = {} \<Longrightarrow>
     load_pools env fuel try_send items (w, k) = Inr (w', k') \<Longrightarrow>
     grows w w' \<and> (acyclic (backup_rel w') \<longrightarrow> distinct_tables w' \<longrightarrow> all_delivered contents w \<longrightarrow> all_delivered contents w')"
proof (induction items arbitrary: w k)
  case (Cons it items)
  obtain name config where it: "it = (name, config)" by fastforce
  obtain r w1 k1 where ctor: "LbPool_ctor env fuel try_send name config (w, k) = (r, w1, k1)" by (metis prod.collapse)
  have name: "name \<notin> fst ` set (lb_pools w)" using Cons.prems(3) it by auto
  note l1 = LbPool_ctor_loaded [OF fresh Cons.prems(1) name ctor] and g1 = LbPool_ctor_grows [OF fresh Cons.prems(1) name ctor]
  define w2 where "w2 = (case r of Inl e \<Rightarrow> w1 | Inr p \<Rightarrow> w1\<lparr>lb_pools := map_insert name p (lb_pools w1)\<rparr>)"
  have keys: "fst ` set (lb_pools w2) \<subseteq> insert name (fst ` set (lb_pools w))" "loaded w2" "grows w w2"
    using l1 g1 by (auto simp: w2_def keys_map_insert split: sum.splits)
  have rest: "load_pools env fuel try_send items (w2, k1) = Inr (w', k')"
    using Cons.prems(4) it ctor l1 by (cases r) (auto simp: w2_def split: error.splits)
  have "name \<notin> set (map fst items)" "set (map fst items) \<inter> fst ` set (lb_pools w) = {}" using Cons.prems(2,3) it by auto
  then have "set (map fst items) \<inter> fst ` set (lb_pools w2) = {}" using keys(1) by blast
  note IH = Cons.IH [OF keys(2) _ this rest]
  have g2: "grows w2 w'" using IH Cons.prems(2) by simp
  have "all_delivered contents w2" if d: "acyclic (backup_rel w')" "distinct_tables w'" "all_delivered contents w"
  proof -
    have "acyclic (backup_rel w)"
      using d(1) grows_backup_rel [OF grows_trans [OF keys(3) g2]] by (rule acyclic_subset)
    then have o: "origin w" using Cons.prems(1) by (intro world_inv_origin) (simp_all add: loaded_def)
    have "table_of (get_pool q w) \<noteq> table_of (get_pool p w1)" if p: "r = Inr p" and q: "(j, q) \<in> set (lb_pools w)" for p j q
    proof -
      have p2: "(name, p) \<in> set (lb_pools w2)" "get_pool p w2 = get_pool p w1"
        using p l1 name by (simp_all add: w2_def set_map_insert_new)
      have "(name, p) \<noteq> (j, q)" using name q by force
      from grown_tables_differ [OF g2 d(2) p2(1) growsD(1) [OF keys(3) q] this]
      show ?thesis using growsD(2) [OF keys(3) q] p2(2) by simp
    qed
    then have "case r of Inl e \<Rightarrow> all_delivered contents w1 | Inr p \<Rightarrow> all_delivered contents (w1\<lparr>lb_pools := map_insert name p (lb_pools w1)\<rparr>)"
      by (intro LbPool_ctor_delivers [OF fresh Cons.prems(1) name o ctor c d(3)]) blast
    then show ?thesis by (simp add: w2_def split: sum.splits)
  qed
  then show ?case using IH grows_trans [OF keys(3) g2] Cons.prems(2) by simp
qed simp

text \<open>A configuration that was loaded.\<close>

lemma load_config_delivers:
  assumes fresh: "fresh_addresses env" and e: "empty_world w" and keys: "distinct (map fst (json_items (lib env) config))"
    and run: "load_config env fuel try_send config (w, k) = Inr (w', k')" and ac: "acyclic (backup_rel w')"
    and c: "queue_contract contents try_send" and t: "distinct_tables w'"
  shows "deliveries contents w'"
proof -
  have w: "lb_pools w = []" "loaded w" using e empty_world_loaded [OF e] by (simp_all add: empty_world_def)
  then have "all_delivered contents w'"
    using load_pools_delivers [OF fresh c w(2) keys _ run [unfolded load_config_def]] ac t by (simp add: all_delivered_def)
  moreover have "loaded w'"
    using load_pools_loaded [OF fresh w(2) keys] run w(1) by (simp add: load_config_def)
  then have "origin w'" using ac by (intro world_inv_origin) (simp_all add: loaded_def)
  ultimately show ?thesis using ac t by (simp add: deliveries_def all_delivered_def)
qed

end
