(* ===== verification/Examples.thy ===== *)
theory Examples
  imports Lifecycle Retry Status_File Check_Log Pfctl_Example Delivery_Load
begin

text \<open>
  A small configuration on which the properties are applied: the pool \<open>main\<close> has three nodes and
  the backup pool \<open>spare\<close>, which has one; every node has one health check. The queue is a list of
  messages with room for \<open>QUEUE_LEN\<close> of them.
\<close>

definition list_send :: "pfctl_msg list \<Rightarrow> pfctl_msg \<Rightarrow> bool \<times> pfctl_msg list" where
  "list_send q m = (if length q < QUEUE_LEN then (True, q @ [m]) else (False, q))"

definition sample_node :: "string \<Rightarrow> string \<Rightarrow> pool_id \<Rightarrow> LbNodeState \<Rightarrow> hc_id \<Rightarrow> LbNode" where
  "sample_node nm ip p st hc =
     \<lparr>node_name = nm, node_route_network = '''', node_ipv4_address = ip, node_ipv6_address = '''',
      parent_lbpool = p, node_state = st, admin_state = STATE_ENABLED, healthchecks = [hc],
      min_nodes_kept = False, max_nodes_kept = False, checked = False, state_changed = False,
      kill_states = False\<rparr>"

definition sample_pool :: "string \<Rightarrow> node_id list \<Rightarrow> string \<Rightarrow> FaultPolicy \<Rightarrow> nat \<Rightarrow> nat \<Rightarrow> node_id list \<Rightarrow> LbPool" where
  "sample_pool nm ns backup policy minn maxn up =
     \<lparr>pool_name = nm, pool_route_network = '''', pool_ipv4_address = ''10.0.0.1'', pool_ipv6_address = '''',
      pf_name = ''pool_'' @ nm, pool_state = (if up = [] then POOL_DOWN else POOL_UP), nodes = ns,
      backup_pool_name = backup, backup_pool_active = False, min_nodes = minn, max_nodes = maxn,
      fault_policy = policy, pf_synced = True, has_hcs = True, up_nodes = up\<rparr>"

definition sample_hc :: "node_id \<Rightarrow> HealthcheckState \<Rightarrow> Healthcheck" where
  "sample_hc n st =
     \<lparr>parent_lbnode = n, last_state = st, hard_state = st, hc_type = ''tcp'', ran = False, log_prefix = ''port: 80'',
      last_checked = \<lparr>tv_sec = 0, tv_nsec = 0\<rparr>, timeout = \<lparr>t_sec = 1, t_usec = 500000\<rparr>, is_running = False,
      hc_ip_address = ''10.0.0.2'', address_family = 2, check_interval = 2, extra_delay = 250,
      max_failed_checks = 3, failure_counter = (if st = HC_STATE_UP then 0 else 3), af_string = ''IPv4'',
      derived = Tcp \<lparr>tcp_bev = False, tcp_port = 80\<rparr>\<rparr>"

definition sample_world :: "pfctl_msg list world" where
  "sample_world =
     \<lparr>node_heap = (\<lambda>i. sample_node ''node'' ''10.0.0.9'' 1 NODE_UP 3)
        (0 := (sample_node ''a'' ''10.0.0.2'' 0 NODE_UP 0)\<lparr>max_nodes_kept := True\<rparr>,
         1 := (sample_node ''b'' ''10.0.0.3'' 0 NODE_UP 1)\<lparr>max_nodes_kept := True\<rparr>,
         2 := sample_node ''c'' ''10.0.0.4'' 0 NODE_UP 2,
         3 := (sample_node ''d'' ''10.0.0.5'' 1 NODE_UP 3)\<lparr>max_nodes_kept := True\<rparr>),
      pool_heap = (\<lambda>i. sample_pool ''main'' [0, 1, 2] ''spare'' BACKUP_POOL 1 2 [0, 1])
        (1 := sample_pool ''spare'' [3] '''' FORCE_DOWN 0 0 [3]),
      hc_heap = (\<lambda>i. sample_hc i HC_STATE_UP),
      node_dom = [0, 1, 2, 3], pool_dom = [0, 1], hc_dom = [0, 1, 2, 3],
      lb_pools = [(''main'', 0), (''spare'', 1)],
      pfctl_mq = [], check_downtimes = False, ping_global_seq = 0, seq_map = (\<lambda>s. None),
      global_transaction_id = 0, ping_id = 4711, sent_packets = []\<rparr>"

lemma sample_get [simp]:
  "get_node 0 sample_world = (sample_node ''a'' ''10.0.0.2'' 0 NODE_UP 0)\<lparr>max_nodes_kept := True\<rparr>"
  "get_node (Suc 0) sample_world = (sample_node ''b'' ''10.0.0.3'' 0 NODE_UP 1)\<lparr>max_nodes_kept := True\<rparr>"
  "get_node 2 sample_world = sample_node ''c'' ''10.0.0.4'' 0 NODE_UP 2"
  "get_node 3 sample_world = (sample_node ''d'' ''10.0.0.5'' 1 NODE_UP 3)\<lparr>max_nodes_kept := True\<rparr>"
  "get_pool 0 sample_world = sample_pool ''main'' [0, 1, 2] ''spare'' BACKUP_POOL 1 2 [0, 1]"
  "get_pool (Suc 0) sample_world = sample_pool ''spare'' [3] '''' FORCE_DOWN 0 0 [3]"
  "get_hc i sample_world = sample_hc i HC_STATE_UP"
  "lb_pools sample_world = [(''main'', 0), (''spare'', 1)]"
  "pfctl_mq sample_world = []"
  by (simp_all add: sample_world_def get_node_def get_pool_def get_hc_def)

lemma sample_sets:
  "up_set [0, 1, 2] sample_world = {0, 1, 2}" "enabled_set [0, 1, 2] sample_world = {0, 1, 2}"
  "marked_set [0, 1, 2] sample_world = {0, 1}"
  "up_set [3] sample_world = {3}" "enabled_set [3] sample_world = {3}" "marked_set [3] sample_world = {3}"
  by (auto simp: up_set_def enabled_set_def marked_set_def is_up_def sample_node_def)

lemma sample_pool_wf: "pool_wf 0 sample_world" "pool_wf (Suc 0) sample_world"
  by (simp_all add: pool_wf_def sample_pool_def is_set_def)

lemma sample_world_wf: "world_wf sample_world"
  using sample_pool_wf
  by (simp add: world_wf_def) (simp add: sample_pool_def sample_node_def is_set_def)

lemma sample_policy:
  "pool_policy (get_pool 0 sample_world) {0, 1, 2} {0, 1, 2} None {0, 1}"
  "pool_policy (get_pool (Suc 0) sample_world) {3} {3} None {3}"
  unfolding pool_policy_def
  by (rule exI [of _ "{0, 1}"]; simp add: sample_pool_def)
     (rule exI [of _ "{3}"]; simp add: sample_pool_def)

lemma sample_pool_inv: "pool_inv 0 sample_world" "pool_inv (Suc 0) sample_world"
  using sample_policy sample_sets
  by (simp_all add: pool_inv_def pool_weak_def Let_def sample_pool_def is_set_def)

lemma sample_linked: "linked 0 sample_world" "linked (Suc 0) sample_world"
  by (simp_all add: linked_def sample_pool_def)

lemma sample_world_inv: "world_inv sample_world"
  using sample_world_wf sample_pool_inv sample_linked by (simp add: pools_inv_def)

lemma sample_registered: "n < 4 \<Longrightarrow> registered n sample_world"
proof -
  assume "n < 4"
  then consider "n = 0" | "n = Suc 0" | "n = 2" | "n = 3" by linarith
  then show ?thesis by cases (simp_all add: registered_def Let_def sample_node_def sample_pool_def)
qed

section \<open>The sample world satisfies what holds between two events\<close>

lemma sample_small: "small sample_world"
  by (simp add: small_def within_limits_def sample_pool_def is_set_def MAX_NODES_def)

lemma sample_backup_rel: "backup_rel sample_world = {(''main'', ''spare'')}"
  by (auto simp: backup_rel_def sample_pool_def)

lemma sample_sound: "sound 3 sample_world"
  using sample_world_inv sample_small by (simp add: sound_def sample_backup_rel acyclic_def [of "{}"])

lemma sample_registered_iff: "registered n sample_world \<longleftrightarrow> n < 4"
proof
  assume n: "registered n sample_world"
  consider "n = 0" | "n = Suc 0" | "n = 2" | "n = 3" | "n > 3" by linarith
  then show "n < 4"
  proof cases
    case 5
    then have "get_node n sample_world = sample_node ''node'' ''10.0.0.9'' 1 NODE_UP 3"
      by (simp add: sample_world_def get_node_def)
    with n 5 show ?thesis by (simp add: registered_def Let_def sample_node_def sample_pool_def)
  qed simp_all
qed (rule sample_registered)

lemma sample_node_fields:
  "n < 4 \<Longrightarrow> healthchecks (get_node n sample_world) = [n] \<and> \<not> checked (get_node n sample_world)"
proof -
  assume "n < 4"
  then consider "n = 0" | "n = Suc 0" | "n = 2" | "n = 3" by linarith
  then show ?thesis by cases (simp_all add: sample_node_def)
qed

lemma sample_live: "live 3 sample_world"
  using sample_sound sample_node_fields
  by (auto simp: live_def hcs_wf_def agrees_def seqs_attached_def sample_registered_iff sample_hc_def)
     (simp add: sample_world_def)

lemma sample_attached: "h < 4 \<Longrightarrow> attached h sample_world"
  using sample_node_fields [of h] by (simp add: attached_def sample_registered_iff sample_hc_def)

section \<open>A configuration file\<close>

text \<open>A document with one pool, which has one node and a TCP check, and an entry that is no pool.\<close>

fun plain_join :: "string list \<Rightarrow> string \<Rightarrow> string" where
  "plain_join [] sep = []"
| "plain_join [x] sep = x"
| "plain_join (x # y # xs) sep = x @ sep @ plain_join (y # xs) sep"

definition sample_env :: "(json, string \<Rightarrow> string list) ctor_env" where
  "sample_env =
     \<lparr>lib = plain_json, new_addr = (\<lambda>used. fold max (map Suc used) 0),
      numeric_family = (\<lambda>ip. Some AF_INET), rand_value = (\<lambda>h. 250), clock_value = (\<lambda>h. \<lparr>tv_sec = 0, tv_nsec = 0\<rparr>),
      uninit_ptr = (\<lambda>h. False), algorithm_join = plain_join, pf = sample_pf\<lparr>pf_action := False\<rparr>\<rparr>"

definition sample_pool_config :: json where
  "sample_pool_config =
     JObject
       [(''ip4'', JString ''10.0.0.1''), (''pf_name'', JString ''pool_main''), (''protocol_port'', JString ''tcp 80''),
        (''health_checks'', JArray [JObject [(''hc_type'', JString ''tcp'')]]),
        (''nodes'', JObject [(''a'', JObject [(''ip4'', JString ''10.0.0.2'')])])]"

definition sample_config :: json where
  "sample_config =
     JObject
       [(''main'', sample_pool_config), (''snat'', JObject [(''ip4'', JString ''10.0.0.7'')])]"

definition blank_world :: "pfctl_msg list world" where
  "blank_world = sample_world\<lparr>lb_pools := [], node_dom := [], pool_dom := [], hc_dom := []\<rparr>"

definition sample_load :: "(pfctl_msg list world \<times> (string \<Rightarrow> string list)) result" where
  "sample_load = load_config sample_env (Suc (Suc 0)) list_send sample_config (blank_world, \<lambda>t. [])"

lemma sample_fresh: "fresh_addresses sample_env"
proof -
  have "fold max (map Suc used) m \<ge> m \<and> (\<forall>i \<in> set used. i < fold max (map Suc used) m)" for used m
  proof (induction used arbitrary: m)
    case (Cons a used)
    from Cons.IH [of "max m (Suc a)"] show ?case by (auto simp: max.commute)
  qed simp
  then show ?thesis by (auto simp: fresh_addresses_def sample_env_def)
qed

lemma blank_empty: "empty_world blank_world"
  by (simp add: empty_world_def blank_world_def) (simp add: sample_world_def)

lemmas construct_defs =
  load_config_def plain_json_def LbPool_ctor_def not_lb_pool_def absent_or_empty_def safe_get_def Let_def init_pool_def
  LbNode_ctor_def pf_is_in_table_def pf_get_table_def pfctl_run_command_def
  healthcheck_factory_def derived_ctor_def Healthcheck_ctor_def node_healthchecks_def tcp_init_def
  set_insert_def recompute_def commit_wanted_def wanted_nodes_def sync_pool_def send_message_def
  is_up_def admin_state_from_config_def MAX_NODES_def fault_policy_from_string_def to_size_t_def

definition built1 :: "pfctl_msg list world" where
  "built1 = upd_pool 0 (init_pool plain_json ''main'' sample_pool_config) (blank_world\<lparr>pool_dom := [0]\<rparr>)"

definition built2 :: "pfctl_msg list world" where
  "built2 = fst (create_nodes sample_env 0 0 [(''a'', JObject [(''ip4'', JString ''10.0.0.2'')])] (built1, \<lambda>t. []))"

definition built3 :: "pfctl_msg list world" where
  "built3 = snd (healthchecks_for sample_env [(JObject [(''hc_type'', JString ''tcp'')], 0)] built2)"

lemma built1_get:
  "nodes (get_pool 0 built1) = []" "up_nodes (get_pool 0 built1) = []" "lb_pools built1 = []" "pfctl_mq built1 = []"
  "min_nodes (get_pool 0 built1) = 0" "max_nodes (get_pool 0 built1) = 0" "fault_policy (get_pool 0 built1) = FORCE_DOWN"
  "pool_name (get_pool 0 built1) = ''main''" "pf_name (get_pool 0 built1) = ''pool_main''" "node_dom built1 = []" "hc_dom built1 = []"
  by (simp_all add: built1_def blank_world_def sample_pool_config_def init_pool_def Let_def absent_or_empty_def plain_json_def
      safe_get_def fault_policy_from_string_def to_size_t_def)

lemma built2_eq:
  "create_nodes sample_env 0 0 [(''a'', JObject [(''ip4'', JString ''10.0.0.2'')])] (built1, \<lambda>t. []) = (built2, \<lambda>t. [])"
  by (simp add: built2_def construct_defs sample_env_def)

lemma built2_get:
  "nodes (get_pool 0 built2) = [0]" "up_nodes (get_pool 0 built2) = []" "lb_pools built2 = []" "pfctl_mq built2 = []"
  "min_nodes (get_pool 0 built2) = 0" "max_nodes (get_pool 0 built2) = 0" "fault_policy (get_pool 0 built2) = FORCE_DOWN"
  "pool_name (get_pool 0 built2) = ''main''" "pf_name (get_pool 0 built2) = ''pool_main''" "hc_dom built2 = []"
  "node_state (get_node 0 built2) = NODE_DOWN" "node_ipv4_address (get_node 0 built2) = ''10.0.0.2''"
  "node_ipv6_address (get_node 0 built2) = ''''"
  by (simp_all add: built2_def construct_defs sample_env_def built1_get insort_insert_key_def)

lemma built3_eq: "healthchecks_for sample_env [(JObject [(''hc_type'', JString ''tcp'')], 0)] built2 = (Inr (), built3)"
  by (simp add: built3_def construct_defs sample_env_def built2_get)

lemma built3_get:
  "nodes (get_pool 0 built3) = [0]" "up_nodes (get_pool 0 built3) = []" "lb_pools built3 = []" "pfctl_mq built3 = []"
  "min_nodes (get_pool 0 built3) = 0" "max_nodes (get_pool 0 built3) = 0" "fault_policy (get_pool 0 built3) = FORCE_DOWN"
  "pool_name (get_pool 0 built3) = ''main''" "pf_name (get_pool 0 built3) = ''pool_main''" "\<not> is_up (get_node 0 built3)"
  by (simp_all add: built3_def construct_defs sample_env_def built2_get)

text \<open>The pool has told the child process that none of its nodes is up.\<close>

definition first_message :: "pfctl_msg list world \<Rightarrow> bool" where
  "first_message w \<longleftrightarrow>
     up_nodes (get_pool 0 w) = [] \<and> pf_synced (get_pool 0 w) \<and> pf_name (get_pool 0 w) = ''pool_main'' \<and>
     (\<exists>v :: pfctl_msg list world. pfctl_mq w = [build_msg ''main'' ''pool_main'' [0] [] v])"

lemma built_pool_logic:
  "\<exists>w. pool_logic (Suc (Suc 0)) list_send 0 None (upd_pool 0 (\<lambda>x. x\<lparr>pf_synced := False\<rparr>) built3) = Inr w \<and>
     lb_pools w = [] \<and> pool_name (get_pool 0 w) = ''main'' \<and> fault_policy (get_pool 0 w) = FORCE_DOWN \<and> first_message w"
  by (simp add: built3_get recompute_def wanted_nodes_def Let_def commit_wanted_def sync_pool_def send_message_def
        MAX_NODES_def list_send_def QUEUE_LEN_def first_message_def) blast

lemma sample_pool_built:
  obtains w where "LbPool_ctor sample_env (Suc (Suc 0)) list_send ''main'' sample_pool_config (blank_world, \<lambda>t. []) = (Inr 0, w, \<lambda>t. [])"
    "lb_pools w = []" "pool_name (get_pool 0 w) = ''main''" "fault_policy (get_pool 0 w) = FORCE_DOWN" "first_message w"
proof -
  obtain w where w: "pool_logic (Suc (Suc 0)) list_send 0 None (upd_pool 0 (\<lambda>x. x\<lparr>pf_synced := False\<rparr>) built3) = Inr w"
    "lb_pools w = []" "pool_name (get_pool 0 w) = ''main''" "fault_policy (get_pool 0 w) = FORCE_DOWN" "first_message w"
    using built_pool_logic by blast
  have addr: "new_addr sample_env [] = 0" "pool_dom blank_world = []" "lib sample_env = plain_json"
    by (simp_all add: sample_env_def blank_world_def)
  have cfg: "not_lb_pool plain_json sample_pool_config = None"
    "json_items plain_json (json_index plain_json sample_pool_config ''nodes'') = [(''a'', JObject [(''ip4'', JString ''10.0.0.2'')])]"
    "json_elems plain_json (json_index plain_json sample_pool_config ''health_checks'') = [JObject [(''hc_type'', JString ''tcp'')]]"
    by (simp_all add: sample_pool_config_def plain_json_def not_lb_pool_def absent_or_empty_def safe_get_def)
  have "LbPool_ctor sample_env (Suc (Suc 0)) list_send ''main'' sample_pool_config (blank_world, \<lambda>t. []) = (Inr 0, w, \<lambda>t. [])"
    by (simp add: LbPool_ctor_def addr cfg built1_def [symmetric] built2_eq built2_get built3_eq w Let_def del: pool_logic.simps create_nodes.simps healthchecks_for.simps)
  with w that show ?thesis by blast
qed

lemma sample_load_result:
  obtains w k where "sample_load = Inr (w, k)" "lb_pools w = [(''main'', 0)]" "fault_policy (get_pool 0 w) = FORCE_DOWN"
    "first_message w"
proof -
  obtain w where w: "LbPool_ctor sample_env (Suc (Suc 0)) list_send ''main'' sample_pool_config (blank_world, \<lambda>t. []) = (Inr 0, w, \<lambda>t. [])"
    "lb_pools w = []" "pool_name (get_pool 0 w) = ''main''" "fault_policy (get_pool 0 w) = FORCE_DOWN" "first_message w"
    by (rule sample_pool_built)
  have l: "lib sample_env = plain_json" by (simp add: sample_env_def)
  have "sample_load = load_pools sample_env (Suc (Suc 0)) list_send [(''snat'', JObject [(''ip4'', JString ''10.0.0.7'')])]
      (w\<lparr>lb_pools := [(''main'', 0)]\<rparr>, \<lambda>t. [])"
    by (simp add: sample_load_def load_config_def l sample_config_def) (simp add: plain_json_def w)
  then have "sample_load = Inr (w\<lparr>lb_pools := [(''main'', 0)]\<rparr>, \<lambda>t. [])"
    by (simp add: LbPool_ctor_def l) (simp add: not_lb_pool_def plain_json_def safe_get_def)
  then show ?thesis using that w by (simp add: get_pool_def first_message_def)
qed

section \<open>Answers of the environment\<close>

fun plain_replace :: "string \<Rightarrow> string \<Rightarrow> string \<Rightarrow> string" where
  "plain_replace [] a b = []"
| "plain_replace (c # s) a b =
     (if a \<noteq> [] \<and> take (length a) (c # s) = a then b @ plain_replace (drop (length a - 1) s) a b
      else c # plain_replace s a b)"

definition sample_pq :: pq_answers where
  "sample_pq =
     \<lparr>timeout_event_created = True, timeout_event_added = True, start_allocated = True, start_status = CONNECTION_OTHER,
      set_nonblocking_failed = False, socket_matches = True, nonblocking = True, poll_status1 = CONNECTION_OTHER,
      poll_status2 = CONNECTION_OTHER, connect_poll = PGRES_POLLING_OK, connect_poll_again = PGRES_POLLING_OK,
      send_status = CONNECTION_OK, send_busy = False, send_accepted = True, flush_status = CONNECTION_OK, flush_busy = True,
      flush_consumed = True, flush_pending = False, handle_status = CONNECTION_OK, handle_consumed = True, handle_busy = False,
      tuples_ok = True, ntuples = 1, nfields = 1, fformat = 0, cell = ''t'', io_event_created = True, io_event_added = True\<rparr>"

definition sample_net :: net_env where
  "sample_net =
     \<lparr>strings = \<lparr>replace_all = plain_replace, join = plain_join\<rparr>,
      bevs = (\<lambda>h. \<lparr>bev_created = True, bev_errno = 0, connect_failed = False\<rparr>),
      sockets = (\<lambda>h. \<lparr>socket_created = True\<rparr>), pqs = (\<lambda>h. sample_pq)\<rparr>"

section \<open>Variants of the sample world\<close>

text \<open>A pool that names itself as its backup.\<close>

definition self_world :: "pfctl_msg list world" where
  "self_world = sample_world\<lparr>pool_heap := (\<lambda>i. sample_pool ''main'' [] ''main'' BACKUP_POOL 1 0 []), lb_pools := [(''main'', 0)]\<rparr>"

text \<open>A queue that is never full, and a world in which a pool still has to be sent.\<close>

definition roomy_send :: "pfctl_msg list \<Rightarrow> pfctl_msg \<Rightarrow> bool \<times> pfctl_msg list" where
  "roomy_send q m = (True, q @ [m])"

definition unsynced_world :: "pfctl_msg list world" where
  "unsynced_world = upd_pool 1 (\<lambda>x. x\<lparr>pf_synced := False\<rparr>) sample_world"

lemma pool_inv_synced: "pool_inv q (upd_pool p (\<lambda>x. x\<lparr>pf_synced := b\<rparr>) w) = pool_inv q w"
  by (simp add: pool_inv_def pool_weak_def Let_def pool_store.get_upd)

lemma unsynced_live: "live 3 unsynced_world"
proof -
  have st: "static_eq sample_world unsynced_world"
    unfolding unsynced_world_def by (rule upd_pool_static) (simp add: strip_pool_def)
  have "linked q unsynced_world = linked q sample_world" for q
    by (simp add: linked_def Let_def unsynced_world_def pool_store.get_upd)
  then have "world_inv unsynced_world"
    using sample_world_inv static_eq_wf [OF st]
    by (simp add: pools_inv_def pool_inv_synced unsynced_world_def static_eq_world [OF st])
  moreover have "small unsynced_world"
    using sample_small by (simp add: small_def within_limits_def unsynced_world_def pool_store.get_upd)
  ultimately show ?thesis by (rule live_static [OF sample_live st])
qed

lemma unsynced_attached: "attached 3 unsynced_world"
  by (simp add: attached_def registered_def unsynced_world_def Let_def sample_hc_def) (simp add: sample_node_def sample_pool_def)

text \<open>The sample world after both pools have told the child process their nodes.\<close>

definition main_msg :: pfctl_msg where
  "main_msg = build_msg ''main'' ''pool_main'' [0, 1, 2] [0, 1] sample_world"

definition spare_msg :: pfctl_msg where
  "spare_msg = build_msg ''spare'' ''pool_spare'' [3] [3] sample_world"

definition sent_world :: "pfctl_msg list world" where
  "sent_world = sample_world\<lparr>pfctl_mq := [main_msg, spare_msg]\<rparr>"

lemma sent_live: "live 3 sent_world"
proof (rule live_static [OF sample_live])
  show "static_eq sample_world sent_world" unfolding sent_world_def by (rule mq_static)
  show "world_inv sent_world" "small sent_world"
    using sample_world_inv sample_small
    by (simp_all add: sent_world_def pools_inv_def world_wf_def pool_wf_def pool_inv_def pool_weak_def linked_def
        up_set_def enabled_set_def marked_set_def small_def within_limits_def del: sample_get(1-7))
qed

lemma sent_get: "lb_pools sent_world = [(''main'', 0), (''spare'', 1)]" "pfctl_mq sent_world = [main_msg, spare_msg]"
  "get_pool p sent_world = get_pool p sample_world" "get_node n sent_world = get_node n sample_world"
  by (simp_all add: sent_world_def)

lemma msg_tables: "c_str (msg_table_name main_msg) = ''pool_main''" "c_str (msg_table_name spare_msg) = ''pool_spare''"
  by (simp_all add: main_msg_def spare_msg_def build_msg_table c_str_no_NUL NUL_def NAME_LEN_def)

lemma pool_tables: "table_of (get_pool 0 sample_world) = ''pool_main''" "table_of (get_pool (Suc 0) sample_world) = ''pool_spare''"
  by (simp_all add: table_of_def sample_pool_def c_str_strncpy c_str_no_NUL NUL_def NAME_LEN_def)

lemma sample_addresses:
  "sent_addresses (get_node 0 sample_world) = {''10.0.0.2''}" "sent_addresses (get_node (Suc 0) sample_world) = {''10.0.0.3''}"
  "sent_addresses (get_node 3 sample_world) = {''10.0.0.5''}"
  by (auto simp: sent_addresses_def sample_node_def c_str_strncpy c_str_no_NUL NUL_def ADDR_LEN_eq)

lemma msg_addresses:
  "set (wanted_addresses (synced_lb_nodes main_msg) []) = {''10.0.0.2'', ''10.0.0.3''}"
  "set (wanted_addresses (synced_lb_nodes spare_msg) []) = {''10.0.0.5''}"
proof -
  have "{n \<in> set [0, 1, 2]. n \<in> set [0, 1] \<and> admin_state (get_node n sample_world) = STATE_ENABLED} = {0, 1}"
    "{n \<in> set [3]. n \<in> set [3] \<and> admin_state (get_node n sample_world) = STATE_ENABLED} = {3}"
    by (auto simp: sample_node_def)
  then show "set (wanted_addresses (synced_lb_nodes main_msg) []) = {''10.0.0.2'', ''10.0.0.3''}"
    "set (wanted_addresses (synced_lb_nodes spare_msg) []) = {''10.0.0.5''}"
    using sample_addresses by (simp_all add: main_msg_def spare_msg_def message_addresses MAX_NODES_def insert_commute)
qed

lemma sent_deliveries: "deliveries id sent_world"
proof -
  have "acyclic (backup_rel sent_world)"
    using sample_sound by (simp add: sound_def backup_rel_def sent_get)
  moreover have "distinct_tables sent_world"
    using pool_tables by (simp add: distinct_tables_def sent_get)
  moreover have "delivered id 0 sent_world" "delivered id 1 sent_world"
    using pool_tables sample_addresses
    by (simp_all add: delivered_def sent_get last_for_def msg_tables msg_addresses own_traffic_def) (auto simp: sample_pool_def)
  ultimately show ?thesis
    using sent_live world_inv_origin [of sent_world] by (simp add: deliveries_def live_def sound_def sent_get)
qed

lemma sent_msgs_ok: "msg_ok main_msg" "msg_ok spare_msg"
  by (simp_all add: msg_ok_def msg_tables msg_addresses word_def NUL_def newline_def)

text \<open>A worker that receives one message after the other.\<close>

definition receive_all :: "pfctl_msg list \<Rightarrow> iteration list" where
  "receive_all ms = map (\<lambda>m. \<lparr>received = Received m 42, ppid = 7, signals = []\<rparr>) ms"

lemma receive_all_healthy: "list_all (healthy 42 7) (receive_all ms)" "messages (receive_all ms) = ms"
  by (simp_all add: receive_all_def healthy_def messages_def list_all_iff comp_def)

lemma list_send_contract: "queue_contract id list_send"
  by (simp add: queue_contract_def list_send_def)

text \<open>A world whose first check is a DNS check.\<close>

definition dns_world :: "pfctl_msg list world" where
  "dns_world = upd_hc 0 (\<lambda>h. h\<lparr>derived := Dns \<lparr>dns_port = 53, dns_query = ''a.bc.'', dns_ev = False, my_transaction_id = 0\<rparr>\<rparr>) sample_world"

lemma dns_world_hc:
  "get_hc 0 dns_world = (sample_hc 0 HC_STATE_UP)\<lparr>derived := Dns \<lparr>dns_port = 53, dns_query = ''a.bc.'', dns_ev = False, my_transaction_id = 0\<rparr>\<rparr>"
  by (simp add: dns_world_def)

lemma sample_hc_due: "fst (schedule_healthcheck \<lparr>tv_sec = 9, tv_nsec = 0\<rparr> ((sample_hc n HC_STATE_UP)\<lparr>derived := d\<rparr>))"
  by (simp add: schedule_healthcheck_iff sample_hc_def timespec_diff_ms_def to_int32_id)

section \<open>Other kinds of checks\<close>

text \<open>The first check of the sample world, as a check of another type.\<close>

lemma upd_derived_live:
  assumes "w = upd_hc 0 (\<lambda>h. h\<lparr>derived := d\<rparr>) sample_world"
  shows "live 3 w" "attached 0 w" "get_hc 0 w = (sample_hc 0 HC_STATE_UP)\<lparr>derived := d\<rparr>"
proof -
  have "keeps 3 sample_world w" unfolding assms by (rule keeps_upd_hc) simp_all
  from keeps_live [OF this sample_live sample_attached [of 0]] show "live 3 w" "attached 0 w" by simp_all
  show "get_hc 0 w = (sample_hc 0 HC_STATE_UP)\<lparr>derived := d\<rparr>" by (simp add: assms)
qed

definition ping_world :: "pfctl_msg list world" where
  "ping_world = upd_hc 0 (\<lambda>h. h\<lparr>derived := Ping \<lparr>ping_my_seq = 0\<rparr>\<rparr>) sample_world"

lemmas ping_world_live = upd_derived_live [OF ping_world_def]

definition http_world :: "pfctl_msg list world" where
  "http_world = upd_hc 0 (\<lambda>h. h\<lparr>derived := Http
     \<lparr>http_bev = True, http_output = '''', http_query = ''HEAD /'', http_host = ''h'', http_port = 80, ok_codes = [''200''],
      drain_codes = [''503''], http_reply = ''''\<rparr>\<rparr>) sample_world"

definition pg_world :: "pfctl_msg list world" where
  "pg_world = upd_hc 0 (\<lambda>h. h\<lparr>derived := Postgres
     \<lparr>pg_host = ''10.0.0.2'', pg_port = 5432, pg_dbname = ''db'', pg_user = ''u'', pg_query = ''SELECT true'',
      pg_conn = False, pg_result = False, pg_io_event = False, pg_timeout_event = False, event_flag = 0, event_counter = 0,
      callback_method = poll_conn_method\<rparr>\<rparr>) sample_world"

lemmas pg_world_live = upd_derived_live [OF pg_world_def]

lemma pg_world_started:
  obtains w1 where "pg_schedule_healthcheck (\<lambda>h. sample_pq) \<lparr>tv_sec = 9, tv_nsec = 0\<rparr> 3 list_send 0 pg_world = Inr w1" "is_running (get_hc 0 w1)"
proof -
  have due: "fst (schedule_healthcheck \<lparr>tv_sec = 9, tv_nsec = 0\<rparr> (get_hc 0 pg_world))"
    by (simp only: pg_world_live(3) sample_hc_due)
  then have "snd (schedule_healthcheck \<lparr>tv_sec = 9, tv_nsec = 0\<rparr> (get_hc 0 pg_world)) = (get_hc 0 pg_world)\<lparr>last_checked := \<lparr>tv_sec = 9, tv_nsec = 0\<rparr>, is_running := True\<rparr>"
    using schedule_healthcheck_True by metis
  then have "\<exists>w1. pg_schedule_healthcheck (\<lambda>h. sample_pq) \<lparr>tv_sec = 9, tv_nsec = 0\<rparr> 3 list_send 0 pg_world = Inr w1 \<and> is_running (get_hc 0 w1)"
    using due
    by (simp add: pg_schedule_healthcheck_def schedule_base_def register_timeout_event_def start_conn_def register_io_event_def
         Let_def sample_pq_def pg_world_live(3) EV_WRITE_def EV_READ_def get_pg_def)
       (auto simp: upd_pg_def)
  then show ?thesis using that by blast
qed

lemma dns_world_id: "global_transaction_id dns_world = 0" "sent_packets dns_world = []"
  by (simp_all add: dns_world_def upd_hc_def sample_world_def)

section \<open>A downtime file\<close>

definition sample_downtimes :: json where
  "sample_downtimes = JObject [(''main'', JObject [(''nodes'', JObject [(''a'', JObject [(''state'', JString ''maintenance'')])])])]"

lemma sample_setting:
  "pool_setting plain_json sample_downtimes ''main'' ''a'' = Some ''maintenance''"
  "pool_setting plain_json sample_downtimes ''main'' ''b'' = None"
  by (simp_all add: pool_setting_def node_setting_def json_value_def sample_downtimes_def plain_json_def safe_get_def)

lemma sample_downtimes_loaded:
  obtains w' where "load_downtimes plain_json (Some sample_downtimes) 3 list_send sample_world = Inr w'"
proof -
  obtain w1 where w1: "change_downtime 3 list_send 0 ''maintenance'' sample_world = Inr w1"
    using change_downtime_live [OF sample_live sample_registered, of 0 list_send "''maintenance''"] by auto
  have "touches 3 {0} sample_world w1"
    using change_downtime_touches [OF sample_live sample_registered w1] by simp
  then have names: "node_name (get_node (Suc 0) w1) = ''b''" "node_name (get_node 2 w1) = ''c''"
    by (simp_all add: touches_def sample_node_def)
  have "downtime_pool plain_json sample_downtimes 3 list_send (''main'', 0) sample_world = Inr w1"
    using w1 names
    by (simp add: downtime_pool_def json_value_def sample_downtimes_def plain_json_def sample_pool_def downtime_node_def
        sample_node_def safe_get_def)
  moreover have "downtime_pool plain_json sample_downtimes 3 list_send (''spare'', 1) w1 = Inr w1"
    by (simp add: downtime_pool_def json_value_def sample_downtimes_def plain_json_def)
  ultimately show ?thesis using that by (simp add: load_downtimes_def)
qed

text \<open>An entry of a message for a node that is not wanted.\<close>

definition removed_entry :: "LbNodeAdminState \<Rightarrow> string \<Rightarrow> SyncedLbNode" where
  "removed_entry a ip = \<lparr>wanted_state = NODE_DOWN, synced_admin_state = a, ip_address = (ip, '''')\<rparr>"

text \<open>A ping check that waits for the reply with the number 5.\<close>

definition pinging_world :: "pfctl_msg list world" where
  "pinging_world =
     (let w = upd_hc 0 (\<lambda>h. h\<lparr>derived := Ping \<lparr>ping_my_seq = 5\<rparr>, is_running := True\<rparr>) sample_world
      in w\<lparr>seq_map := (seq_map w)(5 := Some 0)\<rparr>)"

lemma pinging_world_live:
  "live 3 pinging_world" "attached 0 pinging_world"
  "get_hc 0 pinging_world = (sample_hc 0 HC_STATE_UP)\<lparr>derived := Ping \<lparr>ping_my_seq = 5\<rparr>, is_running := True\<rparr>"
  "seq_map pinging_world 5 = Some 0" "ping_id pinging_world = 4711"
proof -
  let ?w = "upd_hc 0 (\<lambda>h. h\<lparr>derived := Ping \<lparr>ping_my_seq = 5\<rparr>, is_running := True\<rparr>) sample_world"
  have "keeps 3 sample_world ?w" by (rule keeps_upd_hc) simp_all
  from keeps_live [OF this sample_live sample_attached [of 0]] have w: "live 3 ?w" "attached 0 ?w" by simp_all
  have "keeps 3 ?w pinging_world" unfolding pinging_world_def Let_def by (rule keeps_set_seq [OF w(2)])
  from keeps_live [OF this w] show "live 3 pinging_world" "attached 0 pinging_world" by simp_all
  show "get_hc 0 pinging_world = (sample_hc 0 HC_STATE_UP)\<lparr>derived := Ping \<lparr>ping_my_seq = 5\<rparr>, is_running := True\<rparr>"
    by (simp add: pinging_world_def Let_def get_hc_def upd_hc_def) (simp add: sample_world_def)
  show "seq_map pinging_world 5 = Some 0" "ping_id pinging_world = 4711"
    by (simp_all add: pinging_world_def Let_def upd_hc_def sample_world_def)
qed

text \<open>A Postgres check whose result can be read.\<close>

definition reading_world :: "pfctl_msg list world" where
  "reading_world = upd_hc 0 (\<lambda>h. h\<lparr>derived := Postgres
     \<lparr>pg_host = ''10.0.0.2'', pg_port = 5432, pg_dbname = ''db'', pg_user = ''u'', pg_query = ''SELECT true'',
      pg_conn = True, pg_result = False, pg_io_event = False, pg_timeout_event = True, event_flag = EV_READ, event_counter = 3,
      callback_method = handle_query_method\<rparr>\<rparr>) sample_world"

lemmas reading_world_live = upd_derived_live [OF reading_world_def]

lemma reading_world_handled:
  obtains w' where "handle_query sample_pq 3 list_send 0 reading_world = Inr w'"
proof -
  define w1 where "w1 = upd_hc 0 (upd_pg (\<lambda>t. t\<lparr>pg_result := True\<rparr>)) reading_world"
  define w2 where "w2 = upd_hc 0 (upd_pg (\<lambda>t. t\<lparr>pg_result := False, pg_io_event := False, pg_timeout_event := False, pg_conn := False\<rparr>)) w1"
  have "keeps 3 reading_world w2" unfolding w2_def w1_def by (rule keeps_trans [OF keeps_upd_pg keeps_upd_pg])
  from keeps_live [OF this reading_world_live(1,2)] have l: "live 3 w2" "attached 0 w2" by simp_all
  obtain w' where w': "end_check 3 list_send 0 HC_PASS w2 = Inr w'"
    using end_check_live [OF l, of HC_PASS list_send] by auto
  have "query_verdict sample_pq = Some HC_PASS" by (simp add: query_verdict_pass sample_pq_def c_str_def NUL_def)
  moreover have "map_option event_flag (get_pg (get_hc 0 reading_world)) = Some EV_READ"
    by (simp add: reading_world_live(3) get_pg_def)
  ultimately have "handle_query sample_pq 3 list_send 0 reading_world = Inr w'"
    using w' by (simp add: handle_query_def pg_end_check_def flip: w1_def w2_def) (simp add: sample_pq_def)
  then show ?thesis by (rule that)
qed

lemmas dns_world_live = upd_derived_live [OF dns_world_def]

lemma sample_keys: "distinct (map fst (json_items (lib sample_env) sample_config))"
  by (simp add: sample_env_def sample_config_def plain_json_def)

lemma sample_load_acyclic:
  assumes "lb_pools w0 = [(''main'', 0)]" "fault_policy (get_pool 0 w0) = FORCE_DOWN"
  shows "acyclic (backup_rel w0)"
proof -
  have "backup_rel w0 = {}" using assms by (auto simp: backup_rel_def)
  then show ?thesis by (simp add: acyclic_def)
qed

lemmas http_world_live = upd_derived_live [OF http_world_def]

lemma plain_replace_contract: "replace_contract (strings sample_net)"
proof -
  have "plain_replace q a b = q" if "a \<noteq> []" "hd a \<notin> set q" for q a b
    using that by (induction q) (auto simp: neq_Nil_conv)
  then show ?thesis by (simp add: replace_contract_def sample_net_def)
qed

end
