(* ===== verification/Pool_Properties.thy ===== *)
theory Pool_Properties
  imports Examples
begin

text \<open>
  The properties of pools: the choice of the nodes that get traffic (\<open>lb_pool.cpp\<close>) against the
  specification \<open>pool_policy\<close>, the recursion over backup pools, the construction of a pool, and
  the effect of administrative states (\<open>lb_node.cpp\<close>).
\<close>

section \<open>The choice of nodes\<close>

text \<open>
  C5: the nodes the pool logic chooses satisfy the policy of the pool: the limits on the number of
  nodes, the preference for healthy nodes, and what the fault policy says when too few are left.
\<close>

theorem wanted_nodes_refine_policy:
  assumes "pool_wf p w" "set_option last_node \<subseteq> set (nodes (get_pool p w))"
  shows "pool_policy (get_pool p w) (up_set (nodes (get_pool p w)) w) (enabled_set (nodes (get_pool p w)) w)
           (backup_set (get_pool p w) w) (set (fst (wanted_nodes p last_node w)))"
  using assms by (rule wanted_nodes_policy)

theorem wanted_nodes_refine_policy_witness:
  "pool_policy (get_pool 0 sample_world) {0, 1, 2} {0, 1, 2} (Some {3}) (set (fst (wanted_nodes 0 (Some 2) sample_world)))"
  using wanted_nodes_refine_policy [OF sample_pool_wf(1), of "Some 2"] sample_sets
  by (simp add: sample_pool_def backup_set_def)

section \<open>The recursion over backup pools\<close>

text \<open>
  C7: when no pool is, directly or indirectly, its own backup pool, the pool logic returns: one
  level of recursion per pool is enough.
\<close>

theorem pool_logic_terminates:
  assumes "acyclic (backup_rel w)" "world_wf w" "active_ok w" "small w" "length (lb_pools w) < fuel"
    and "(key, p) \<in> set (lb_pools w)" "set_option last_node \<subseteq> set (nodes (get_pool p w))"
  shows "\<exists>w'. pool_logic fuel try_send p last_node w = Inr w'"
  using pool_logic_returns [OF assms(1-5), of p last_node try_send] assms(6,7) by force

theorem pool_logic_terminates_witness: "\<exists>w'. pool_logic 3 list_send 0 (Some 2) sample_world = Inr w'"
proof (rule pool_logic_terminates)
  show "acyclic (backup_rel sample_world)" using sample_sound by (simp add: sound_def)
  show "active_ok sample_world" by (rule world_inv_active_ok [OF sample_world_inv])
qed (use sample_world_wf sample_small in \<open>simp_all add: sample_pool_def\<close>)

text \<open>Where the pool logic returns within one bound of the depth, it returns the same within any larger one.\<close>

lemma pool_logic_fuel_irrelevant:
  assumes "pool_logic fuel try_send p last_node w \<noteq> Inl Unbounded_Recursion" "fuel \<le> fuel'"
  shows "pool_logic fuel' try_send p last_node w = pool_logic fuel try_send p last_node w"
  using assms(2)
proof (induction rule: dec_induct)
  case (step n)
  then show ?case using pool_logic_more_fuel(1) [OF step.IH assms(1)] by simp
qed simp



section \<open>Construction and administration\<close>

text \<open>
  C32: a pool that was constructed has a node for every entry of its configuration, and there are
  fewer than 100 of them: the assertion on the size of the message rejects a pool of exactly 100
  nodes.
\<close>

theorem constructed_pool_size:
  assumes "fresh_addresses env" "LbPool_ctor env fuel try_send name config (w, k) = (Inr p, w', k')"
  shows "length (json_items (lib env) (json_index (lib env) config ''nodes'')) < MAX_NODES \<and>
         length (nodes (get_pool p w')) = length (json_items (lib env) (json_index (lib env) config ''nodes''))"
  using LbPool_ctor_size [OF assms] by blast

theorem constructed_pool_size_witness:
  "\<exists>w' k'. LbPool_ctor sample_env (Suc (Suc 0)) list_send ''main'' sample_pool_config (blank_world, \<lambda>t. []) = (Inr 0, w', k') \<and>
     length (nodes (get_pool 0 w')) = 1"
proof -
  obtain w' where run: "LbPool_ctor sample_env (Suc (Suc 0)) list_send ''main'' sample_pool_config (blank_world, \<lambda>t. []) = (Inr 0, w', \<lambda>t. [])"
    by (rule sample_pool_built)
  have "length (json_items (lib sample_env) (json_index (lib sample_env) sample_pool_config ''nodes'')) = 1"
    by (simp add: sample_env_def sample_pool_config_def plain_json_def)
  then show ?thesis using constructed_pool_size [OF sample_fresh run] run by auto
qed

text \<open>A node that is not enabled any more gets no traffic from any pool.\<close>

lemma downtime_takes_node_out:
  assumes "live fuel w" "registered n w"
  shows "\<exists>w'. change_downtime fuel try_send n s w = Inr w' \<and> live fuel w' \<and>
           admin_state (get_node n w') = admin_state_from_config s \<and>
           (admin_state_from_config s \<noteq> STATE_ENABLED \<longrightarrow>
              (\<forall>(k, p) \<in> set (lb_pools w'). n \<notin> set (up_nodes (get_pool p w'))))"
proof -
  obtain w' where w': "change_downtime fuel try_send n s w = Inr w'" "live fuel w'"
    "admin_state (get_node n w') = admin_state_from_config s"
    using change_downtime_admin [OF assms, of try_send s] by blast
  have "admin_state (get_node n w') = STATE_ENABLED" if "(k, p) \<in> set (lb_pools w')" "n \<in> set (up_nodes (get_pool p w'))" for k p
    using world_inv_up_nodes_enabled [OF live_pool(3,4) [OF w'(2) that(1)] that] .
  then show ?thesis using w' by fastforce
qed

text \<open>
  C13: loading a downtime file gives every node that is listed in it the state the file names, and
  leaves the state of every other node as it was.
\<close>

theorem downtime_file_applied:
  assumes "live fuel w" "load_downtimes l (Some config) fuel try_send w = Inr w'"
    and "(key, p) \<in> set (lb_pools w)" "n \<in> set (nodes (get_pool p w))"
  shows "admin_state (get_node n w') =
           (case pool_setting l config key (node_name (get_node n w)) of
              None \<Rightarrow> admin_state (get_node n w)
            | Some s \<Rightarrow> admin_state_from_config s)"
  using load_downtimes_states [OF assms] by (simp add: set_state_def)

theorem downtime_file_applied_witness:
  "\<exists>w'. load_downtimes plain_json (Some sample_downtimes) 3 list_send sample_world = Inr w' \<and>
     admin_state (get_node 0 w') = STATE_DOWNTIME \<and> admin_state (get_node 1 w') = STATE_ENABLED"
proof -
  obtain w' where run: "load_downtimes plain_json (Some sample_downtimes) 3 list_send sample_world = Inr w'"
    by (rule sample_downtimes_loaded)
  show ?thesis
    using downtime_file_applied [OF sample_live run, of "''main''" 0 0] downtime_file_applied [OF sample_live run, of "''main''" 0 1] run
    by (simp add: sample_pool_def) (simp add: sample_node_def sample_setting admin_state_from_config_def)
qed

text \<open>
  C30: the status file is replaced by the complete document when it could be opened, written and
  renamed, and left as it was otherwise. In the document every pool and node has an entry: a pool is
  reported up exactly when it has a node alive, and a node exactly when it is up and enabled.
\<close>

theorem status_file_reports:
  assumes "live fuel w" "(key, p) \<in> set (lb_pools w)" "n \<in> set (nodes (get_pool p w))"
    and "distinct (map (\<lambda>n. node_name (get_node n w)) (nodes (get_pool p w)))"
  shows "\<exists>st ns. snd (dump_status_file json_text answers w fs) status_name =
             (if file_opened answers \<and> written answers = None \<and> renamed answers
              then Some (json_text (dump_status w) @ [CHR 0x0A]) else fs status_name) \<and>
           map_of (dump_status w) key = Some st \<and> map_of (ps_nodes st) (node_name (get_node n w)) = Some ns \<and>
           ps_nodes_alive st = card (set (up_nodes (get_pool p w))) \<and>
           (ps_state st = ''up'' \<longleftrightarrow> 0 < ps_nodes_alive st) \<and>
           (ns_state ns = ''up'' \<longleftrightarrow> node_state (get_node n w) = NODE_UP \<and> admin_state (get_node n w) = STATE_ENABLED)"
proof -
  have wf: "world_wf w" using assms(1) by (simp add: live_def sound_def pools_inv_def)
  have "distinct (up_nodes (get_pool p w))" "pool_state (get_pool p w) = POOL_UP \<longleftrightarrow> up_nodes (get_pool p w) \<noteq> []"
    using live_pool(1) [OF assms(1,2)] by (auto simp: pool_inv_def pool_weak_def Let_def is_set_def)
  then have "count_up_nodes p w = card (set (up_nodes (get_pool p w)))"
    "get_pool_state_string (pool_state (get_pool p w)) = ''up'' \<longleftrightarrow> 0 < count_up_nodes p w"
    by (auto simp: count_up_nodes_def distinct_card) (cases "pool_state (get_pool p w)"; simp)+
  then show ?thesis
    using dump_status_entry [OF wf assms(2)] node_status_entry [OF assms(4,3)]
    by (intro exI [of _ "pool_status_of p w"] exI [of _ "node_status_of (get_node n w)"])
       (auto simp: published_file pool_status_of_def Let_def node_status_of_def is_up_string_def is_up_def)
qed

theorem status_file_reports_witness:
  "snd (dump_status_file (\<lambda>d. ''json'') \<lparr>file_opened = True, written = None, renamed = True\<rparr> sample_world (\<lambda>f. None)) status_name
     = Some (''json'' @ [CHR 0x0A]) \<and>
   (\<exists>st. map_of (dump_status sample_world) ''main'' = Some st \<and> ps_nodes_alive st = 2 \<and> ps_state st = ''up'')"
proof -
  let ?a = "\<lparr>file_opened = True, written = None, renamed = True\<rparr>"
  have "distinct (map (\<lambda>n. node_name (get_node n sample_world)) (nodes (get_pool 0 sample_world)))"
    "2 \<in> set (nodes (get_pool 0 sample_world))" "(''main'', 0) \<in> set (lb_pools sample_world)"
    "card (set (up_nodes (get_pool 0 sample_world))) = 2"
    by (simp_all add: sample_pool_def) (simp add: sample_node_def)
  with status_file_reports [OF sample_live this(3,2,1), of "\<lambda>d. ''json''" ?a "\<lambda>f. None"]
  show ?thesis by (auto simp del: sample_get)
qed

end
