(* ===== verification/Check_Properties.thy ===== *)
theory Check_Properties
  imports Examples
begin

text \<open>
  The properties of single health checks: the counting of failures and the scheduling shared by all
  types (\<open>healthcheck.cpp\<close>), and the protocols of the types (\<open>healthcheck_tcp.cpp\<close>,
  \<open>healthcheck_http.cpp\<close>, \<open>healthcheck_dns.cpp\<close>, \<open>healthcheck_ping.cpp\<close>,
  \<open>healthcheck_postgres.cpp\<close>).
\<close>

section \<open>Results and their effect on the node\<close>





text \<open>
  C35: a limit of failures above the range of the 16 bit counter is never reached: the check stays
  up however often it fails.
\<close>

theorem large_limit_never_reached:
  assumes "hard_state h = HC_STATE_UP" "65535 < max_failed_checks h"
  shows "hard_state (fold (\<lambda>r h. handle_result (h\<lparr>last_state := r\<rparr>)) (replicate k HC_STATE_DOWN) h) = HC_STATE_UP"
  unfolding with_result_fold [symmetric] by (rule never_down_above_16_bits [OF assms])

theorem large_limit_never_reached_witness:
  "hard_state (fold (\<lambda>r h. handle_result (h\<lparr>last_state := r\<rparr>)) (replicate 1000000 HC_STATE_DOWN)
      ((sample_hc 0 HC_STATE_UP)\<lparr>max_failed_checks := 65536\<rparr>)) = HC_STATE_UP"
  by (rule large_limit_never_reached) (simp_all add: sample_hc_def)

text \<open>
  C21: between two starts of the same check at least the configured interval and the random delay
  pass.
\<close>

theorem checks_are_spaced:
  assumes first: "fst (schedule_healthcheck t1 h)"
    and second: "fst (schedule_healthcheck t2 (handle_result ((snd (schedule_healthcheck t1 h))\<lparr>last_state := r\<rparr>)))"
    and norm: "normalised t1" "normalised t2"
    and range: "0 \<le> check_interval h" "check_interval h \<le> 2000000"
      "\<bar>nanoseconds t2 - nanoseconds t1\<bar> \<le> 2000000000 * 1000000"
  shows "(check_interval h * 1000 + uint (extra_delay h)) * 1000000 \<le> nanoseconds t2 - nanoseconds t1"
proof -
  let ?ms = "(nanoseconds t2 - nanoseconds t1) div 1000000" and ?gap = "check_interval h * 1000 + uint (extra_delay h)"
  have "0 \<le> uint (extra_delay h)" "uint (extra_delay h) < 65536" using uint_range_size [of "extra_delay h"] by (simp_all add: word_size)
  then have gap: "to_int32 ?gap = ?gap" using range(1,2) to_int32_id [of ?gap, simplified] by linarith
  have "- 2000000000 \<le> ?ms" "?ms \<le> 2000000000" using range(3) by linarith+
  then have "to_int32 ?ms = ?ms" by (intro to_int32_id) simp_all
  then have "timespec_diff_ms t2 t1 = ?ms" using timespec_diff_ms_floor [OF norm(2,1)] by simp
  moreover have "to_int32 ?gap \<le> timespec_diff_ms t2 t1"
    using second schedule_healthcheck_True [OF first] by (simp add: schedule_healthcheck_iff)
  ultimately have "?gap \<le> ?ms" using gap by simp
  then show ?thesis by (rule le_div_ms)
qed

theorem checks_are_spaced_witness:
  "fst (schedule_healthcheck \<lparr>tv_sec = 3, tv_nsec = 0\<rparr> (sample_hc 0 HC_STATE_UP)) \<and>
   (2250 * 1000000 :: int) \<le> nanoseconds \<lparr>tv_sec = 5, tv_nsec = 250000000\<rparr> - nanoseconds \<lparr>tv_sec = 3, tv_nsec = 0\<rparr>"
proof -
  have a: "fst (schedule_healthcheck \<lparr>tv_sec = 3, tv_nsec = 0\<rparr> (sample_hc 0 HC_STATE_UP))" by code_simp
  have b: "fst (schedule_healthcheck \<lparr>tv_sec = 5, tv_nsec = 250000000\<rparr>
      (handle_result ((snd (schedule_healthcheck \<lparr>tv_sec = 3, tv_nsec = 0\<rparr> (sample_hc 0 HC_STATE_UP)))\<lparr>last_state := HC_STATE_UP\<rparr>)))"
    by code_simp
  show ?thesis
    using checks_are_spaced [OF a b] a by (simp add: sample_hc_def normalised_def nanoseconds_def)
qed

text \<open>A constructed check belongs to its node, is not running, starts in the state of the node, and keeps its timeout.\<close>

lemma constructed_check:
  assumes "Healthcheck_ctor env config node ip w = (Inr hc, w')"
    and "ms = safe_get_int (lib env) config ''hc_timeout'' 1500" "0 \<le> ms" "ms < 2147483648"
  shows "timeout_to_ms (get_hc hc w') = ms \<and> parent_lbnode (get_hc hc w') = node \<and>
         healthchecks (get_node node w') = healthchecks (get_node node w) @ [hc] \<and>
         (hard_state (get_hc hc w') = HC_STATE_UP \<longleftrightarrow> is_up (get_node node w)) \<and> \<not> is_running (get_hc hc w')"
proof -
  have "is_up (n\<lparr>healthchecks := hs\<rparr>) = is_up n" for n hs by (simp add: is_up_def)
  then show ?thesis
    using assms timeval_to_ms_split [of ms]
    by (auto simp: Healthcheck_ctor_def Let_def timeout_to_ms_def to_int32_id split: option.splits if_splits)
qed

section \<open>Logging\<close>




section \<open>TCP and HTTP\<close>

text \<open>
  C25: an event of a TCP check ends it as up exactly when the connection was made without an error
  and without a timeout; only an event with none of the three flags ends the program.
\<close>

theorem tcp_check_verdict:
  assumes "live fuel w" "attached hc w"
  shows "case tcp_event_callback ev fuel try_send hc w of
           Inl e \<Rightarrow> e = Exit 2 \<and> ev AND BEV_EVENT_CONNECTED = 0 \<and> ev AND BEV_EVENT_ERROR = 0 \<and> ev AND BEV_EVENT_TIMEOUT = 0
         | Inr w' \<Rightarrow> live fuel w' \<and> \<not> is_running (get_hc hc w') \<and>
             (last_state (get_hc hc w') = HC_STATE_UP \<longleftrightarrow>
                ev AND BEV_EVENT_CONNECTED \<noteq> 0 \<and> ev AND BEV_EVENT_ERROR = 0 \<and> ev AND BEV_EVENT_TIMEOUT = 0)"
proof -
  let ?w = "upd_hc hc (upd_tcp (\<lambda>t. t\<lparr>tcp_bev := False\<rparr>)) w"
  have k: "keeps fuel w ?w" by (rule keeps_upd_hc) simp_all
  have eq: "tcp_event_callback ev fuel try_send hc w = end_check fuel try_send hc (tcp_result ev) ?w"
    by (simp add: tcp_event_callback_def tcp_end_check_def)
  have "e = Exit 2 \<and> tcp_result ev = HC_PANIC" if "end_check fuel try_send hc (tcp_result ev) ?w = Inl e" for e
    using end_check_panics [OF k assms that] .
  then show ?thesis
    using end_check_passes [OF k assms, of try_send "tcp_result ev"] tcp_result_panic [of ev] tcp_result_pass [of ev]
    by (simp add: eq split: sum.split)
qed

theorem tcp_check_verdict_witness:
  "case tcp_event_callback BEV_EVENT_CONNECTED 3 list_send 2 sample_world of
     Inl e \<Rightarrow> False | Inr w' \<Rightarrow> last_state (get_hc 2 w') = HC_STATE_UP"
  using tcp_check_verdict [OF sample_live sample_attached, of 2 BEV_EVENT_CONNECTED list_send]
  by (simp add: BEV_EVENT_CONNECTED_def BEV_EVENT_ERROR_def BEV_EVENT_TIMEOUT_def split: sum.splits)



text \<open>
  C40: a started HTTP check whose query has no placeholder sends this query, the host and the fixed
  headers, and waits for the reply with an empty buffer.
\<close>

theorem http_request_sent:
  assumes "get_http (get_hc hc w) = Some t" "fst (schedule_healthcheck now (get_hc hc w))" "bev_created (ans hc)"
    and "replace_contract bs" "CHR ''{'' \<notin> set (http_query t)" "NUL \<notin> set (http_query t)" "NUL \<notin> set (http_host t)"
  shows "\<exists>w' t'. http_schedule_healthcheck bs ans now fuel try_send hc w = Inr w' \<and> is_running (get_hc hc w') \<and>
     get_http (get_hc hc w') = Some t' \<and> http_bev t' \<and> http_reply t' = '''' \<and>
     http_output t' = http_query t @ '' HTTP/1.1'' @ CRLF @ ''Host: '' @ http_host t @ CRLF @
       ''User-Agent: testtool'' @ CRLF @ ''Connection: close'' @ CRLF @ CRLF"
proof -
  have "c_str s = s" if "NUL \<notin> set s" for s using that by (auto simp: c_str_def takeWhile_eq_all_conv)
  then have "http_request (http_query t) (http_host t) = http_query t @ '' HTTP/1.1'' @ CRLF @ ''Host: '' @ http_host t @ CRLF @
       ''User-Agent: testtool'' @ CRLF @ ''Connection: close'' @ CRLF @ CRLF"
    using assms(6,7) by (simp add: http_request_def HC_UA_def)
  moreover obtain w' where "http_schedule_healthcheck bs ans now fuel try_send hc w = Inr w'" "is_running (get_hc hc w')"
    "get_http (get_hc hc w') = Some (t\<lparr>http_reply := '''', http_bev := True, http_output := http_request (http_query t) (http_host t)\<rparr>)"
    using http_started [where ans = ans and bs = bs, OF assms(1-5), of fuel try_send] by blast
  ultimately show ?thesis by simp
qed

theorem http_request_sent_witness:
  "\<exists>w' t'. http_schedule_healthcheck (strings sample_net) (bevs sample_net) \<lparr>tv_sec = 9, tv_nsec = 0\<rparr> 3 list_send 0 http_world = Inr w' \<and>
     get_http (get_hc 0 w') = Some t' \<and>
     http_output t' = ''HEAD / HTTP/1.1'' @ CRLF @ ''Host: h'' @ CRLF @ ''User-Agent: testtool'' @ CRLF @ ''Connection: close'' @ CRLF @ CRLF"
proof -
  have due: "fst (schedule_healthcheck \<lparr>tv_sec = 9, tv_nsec = 0\<rparr> (get_hc 0 http_world))"
    by (simp only: http_world_live(3) sample_hc_due)
  have t: "get_http (get_hc 0 http_world) = Some
     \<lparr>http_bev = True, http_output = '''', http_query = ''HEAD /'', http_host = ''h'', http_port = 80, ok_codes = [''200''],
      drain_codes = [''503''], http_reply = ''''\<rparr>"
    by (simp add: http_world_live(3) get_http_def)
  from http_request_sent [OF t due, of "bevs sample_net" "strings sample_net" 3 list_send] plain_replace_contract show ?thesis
    by (auto simp: sample_net_def NUL_def)
qed

section \<open>DNS\<close>





text \<open>
  C33: the packet fits into its buffer exactly when the name has at most 495 characters; a longer
  one overflows it.
\<close>

theorem dns_packet_bounds:
  "case dns_packet qid query of
     Inl e \<Rightarrow> e = Buffer_Overflow \<and> 495 < length (c_str query)
   | Inr packet \<Rightarrow> length (c_str query) \<le> 495 \<and> length packet = length (c_str query) + 17 \<and> length packet \<le> DNS_BUFFER_SIZE"
proof (cases "dns_packet qid query")
  case (Inl e)
  then have "e = Buffer_Overflow" by (auto simp: dns_packet_def build_dns_question_def Let_def split: if_splits)
  then show ?thesis using Inl dns_packet_overflow [of qid query] by simp
next
  case (Inr packet)
  then show ?thesis using dns_packet_length [OF Inr] dns_packet_overflow [of qid query] by simp
qed

text \<open>
  C36: when no socket can be created, the check is left marked as running, and no later attempt
  starts it again.
\<close>

theorem dns_socket_failure_is_final:
  assumes "derived (get_hc hc w) = Dns t" "fst (schedule_healthcheck now (get_hc hc w))"
    and "\<exists>p. dns_packet (global_transaction_id w + 1) (dns_query t) = Inr p" "\<not> socket_created (ans hc)"
  shows "\<exists>w'. dns_schedule_healthcheck ans now fuel try_send hc w = Inr w' \<and> is_running (get_hc hc w') \<and>
           (\<forall>ans' now'. dns_schedule_healthcheck ans' now' fuel try_send hc w' = Inr w')"
proof -
  obtain w' where "dns_schedule_healthcheck ans now fuel try_send hc w = Inr w'" "is_running (get_hc hc w')"
    "\<And>ans' now' fuel' ts'. dns_schedule_healthcheck ans' now' fuel' ts' hc w' = Inr w'"
    using dns_socket_failure [where ans = ans and fuel = fuel and try_send = try_send, OF assms] by blast
  then show ?thesis by blast
qed

theorem dns_socket_failure_is_final_witness:
  "\<exists>w'. dns_schedule_healthcheck (\<lambda>h. \<lparr>socket_created = False\<rparr>) \<lparr>tv_sec = 9, tv_nsec = 0\<rparr> 3 list_send 0 dns_world = Inr w' \<and>
     is_running (get_hc 0 w') \<and> (\<forall>ans' now'. dns_schedule_healthcheck ans' now' 3 list_send 0 w' = Inr w')"
proof -
  have "\<exists>p. dns_packet 1 ''a.bc.'' = Inr p"
    by (simp add: dns_packet_def build_dns_question_def Let_def c_str_def NUL_def DNS_BUFFER_SIZE_def DNS_HEADER_SIZE_def)
  then show ?thesis
    by (intro dns_socket_failure_is_final [where t = "\<lparr>dns_port = 53, dns_query = ''a.bc.'', dns_ev = False, my_transaction_id = 0\<rparr>"])
       (simp_all only: dns_world_hc sample_hc_due, simp_all add: dns_world_id)
qed

section \<open>Ping\<close>

text \<open>
  C28: the checksum of a packet with the checksum filled in is zero, for any content.
\<close>

theorem in_cksum_self_verifying:
  assumes "even (length a)" "length a + length b \<le> 65000"
  shows "in_cksum (a @ [char_of (unat (in_cksum (a @ [NUL, NUL] @ b)) mod 256),
                        char_of (unat (in_cksum (a @ [NUL, NUL] @ b)) div 256)] @ b) = 0"
  using assms by (rule in_cksum_verifies)

theorem in_cksum_self_verifying_witness:
  "in_cksum (''ab'' @ [char_of (unat (in_cksum (''ab'' @ [NUL, NUL] @ ''cde'')) mod 256),
                       char_of (unat (in_cksum (''ab'' @ [NUL, NUL] @ ''cde'')) div 256)] @ ''cde'') = 0"
  by (rule in_cksum_self_verifying) simp_all



text \<open>
  C29: a ping check that timed out has failed, a reply that comes later is ignored, and the entry
  of its number stays in the table.
\<close>

theorem ping_timeout_ignores_late_reply:
  assumes "live fuel w" "attached hc w" "derived (get_hc hc w) = Ping t"
    and "is_running (get_hc hc w)" "timeout_to_ms (get_hc hc w) < timespec_diff_ms now (last_checked (get_hc hc w))"
    and "ping_my_seq t \<noteq> 0" "seq_map w (ping_my_seq t) = Some hc"
    and "reply_seq (ping_id w) v4 late = Some (ping_my_seq t)"
  shows "\<exists>w'. ping_finalize now fuel try_send hc w = Inr w' \<and> \<not> is_running (get_hc hc w') \<and>
           last_state (get_hc hc w') = HC_STATE_DOWN \<and> ping_callback v4 EV_READ late fuel try_send w' = Inr w' \<and>
           seq_map w' (ping_my_seq t) = Some hc"
proof -
  obtain w' where w': "ping_finalize now fuel try_send hc w = Inr w'" "\<not> is_running (get_hc hc w')"
    "last_state (get_hc hc w') = HC_STATE_DOWN" "get_ping_seq (get_hc hc w') = 0" "seq_map w' = (seq_map w)(0 := None)"
    "ping_id w' = ping_id w"
    using ping_finalize_timeout [OF assms(1-5), of try_send] by blast
  then show ?thesis using assms(6-8) by (simp add: ping_callback_eq)
qed

theorem ping_timeout_ignores_late_reply_witness:
  "\<exists>w'. ping_finalize \<lparr>tv_sec = 9, tv_nsec = 0\<rparr> 3 list_send 0 pinging_world = Inr w' \<and> \<not> is_running (get_hc 0 w') \<and>
     last_state (get_hc 0 w') = HC_STATE_DOWN \<and>
     ping_callback False EV_READ (Some (echo_packet ICMP6_ECHO_REPLY 0 4711 5 (replicate 80 NUL))) 3 list_send w' = Inr w' \<and>
     seq_map w' 5 = Some 0"
  using ping_timeout_ignores_late_reply [OF pinging_world_live(1,2), of "\<lparr>ping_my_seq = 5\<rparr>" "\<lparr>tv_sec = 9, tv_nsec = 0\<rparr>" False
      "Some (echo_packet ICMP6_ECHO_REPLY 0 4711 5 (replicate 80 NUL))" list_send]
  by (simp add: pinging_world_live(3-) reply_seq_v6 sample_hc_def timespec_diff_ms_def timeout_to_ms_def timeval_to_ms_def to_int32_id)

section \<open>Postgres\<close>

text \<open>
  C18: a started Postgres check has ended after at most 101 events of its connection, unless the
  program was ended by a panic or a failed assertion.
\<close>

theorem pg_check_ends:
  assumes "live fuel w" "attached hc w" "get_pg (get_hc hc w) = Some t" "fst (schedule_healthcheck now (get_hc hc w))"
    and "pg_schedule_healthcheck ans now fuel try_send hc w = Inr w1" "101 \<le> length evs"
  shows "case pg_run evs fuel try_send hc w1 of
           Inl e \<Rightarrow> e = Exit 2 \<or> e = Assertion_Failed
         | Inr w' \<Rightarrow> live fuel w' \<and> \<not> is_running (get_hc hc w')"
proof -
  have "keeps fuel w w1" "is_running (get_hc hc w1) \<longrightarrow> pending 1 (get_hc hc w1)"
    using pg_start_outcome [OF assms(1-4), of ans try_send] assms(5) by (simp_all add: pg_outcome_def)
  with pg_run_ends [of fuel w1 hc 1 evs try_send] keeps_live [of fuel w w1 hc] assms(1,2,6) show ?thesis
    by (simp add: pg_fatal_def split: sum.splits)
qed

theorem pg_check_ends_witness:
  "\<exists>w1. pg_schedule_healthcheck (\<lambda>h. sample_pq) \<lparr>tv_sec = 9, tv_nsec = 0\<rparr> 3 list_send 0 pg_world = Inr w1 \<and>
     (case pg_run (replicate 101 (sample_pq, EV_WRITE)) 3 list_send 0 w1 of
        Inl e \<Rightarrow> e = Exit 2 \<or> e = Assertion_Failed
      | Inr w' \<Rightarrow> live 3 w' \<and> \<not> is_running (get_hc 0 w'))"
proof -
  obtain w1 where run: "pg_schedule_healthcheck (\<lambda>h. sample_pq) \<lparr>tv_sec = 9, tv_nsec = 0\<rparr> 3 list_send 0 pg_world = Inr w1"
    by (rule pg_world_started)
  have due: "fst (schedule_healthcheck \<lparr>tv_sec = 9, tv_nsec = 0\<rparr> (get_hc 0 pg_world))"
    by (simp only: pg_world_live(3) sample_hc_due)
  obtain t where t: "get_pg (get_hc 0 pg_world) = Some t" by (simp add: pg_world_live(3) get_pg_def)
  show ?thesis
    using pg_check_ends [OF pg_world_live(1,2) t due run, of "replicate 101 (sample_pq, EV_WRITE)"] run by auto
qed

text \<open>
  C27: the result of a query ends the check as up exactly when it is one row with one column in
  text format that holds the letter t.
\<close>

theorem pg_query_verdict:
  assumes "live fuel w" "attached hc w" "handle_query a fuel try_send hc w = Inr w'"
  shows "live fuel w' \<and> \<not> is_running (get_hc hc w') \<and>
     (last_state (get_hc hc w') = HC_STATE_UP \<longleftrightarrow>
        handle_consumed a \<and> tuples_ok a \<and> ntuples a = 1 \<and> nfields a = 1 \<and> fformat a = 0 \<and> c_str (cell a) = ''t'')"
proof -
  have v: "live fuel w' \<and> \<not> is_running (get_hc hc w') \<and> (last_state (get_hc hc w') = HC_STATE_UP \<longleftrightarrow> r = HC_PASS)"
    if "pg_end_check r fuel try_send hc w1 = Inr w'" "keeps fuel w w1" for r w1
    using end_check_passes [OF keeps_trans [OF that(2) keeps_upd_pg] assms(1,2)] that(1) by (simp add: pg_end_check_def)
  show ?thesis
  proof (cases "handle_consumed a")
    case False
    then show ?thesis using v [of HC_FAIL w] assms(3) by (simp add: handle_query_def split: if_splits)
  next
    case True
    then obtain r where "query_verdict a = Some r"
      "pg_end_check r fuel try_send hc (upd_hc hc (upd_pg (\<lambda>t. t\<lparr>pg_result := True\<rparr>)) w) = Inr w'"
      using assms(3) by (auto simp: handle_query_def Let_def split: if_splits option.splits)
    with v [OF this(2)] True query_verdict_pass [of a] show ?thesis by auto
  qed
qed

theorem pg_query_verdict_witness:
  "\<exists>w'. handle_query sample_pq 3 list_send 0 reading_world = Inr w' \<and> last_state (get_hc 0 w') = HC_STATE_UP"
proof -
  obtain w' where run: "handle_query sample_pq 3 list_send 0 reading_world = Inr w'" by (rule reading_world_handled)
  with pg_query_verdict [OF reading_world_live(1,2) run] show ?thesis by (simp add: sample_pq_def c_str_def NUL_def)
qed

end
