(* ===== verification/Packet_Filter_Properties.thy ===== *)
theory Packet_Filter_Properties
  imports Examples
begin

text \<open>
  The properties of the packet filter side: the synchronisation of one table (\<open>pfctl.cpp\<close>) and the
  loop of the worker process (\<open>pfctl_worker.cpp\<close>). What \<open>/sbin/pfctl\<close> does is the contract
  \<open>pfctl_contract\<close> of the parameter \<open>sys\<close>.
\<close>

section \<open>One table\<close>



text \<open>When no command fails, the synchronisation of a table reports success.\<close>

lemma sync_table_succeeds:
  assumes "never_fails sys"
  shows "\<exists>k'. pf_sync_table sys t ss k = (True, k')"
  by (rule pf_sync_table_succeeds) (simp add: assms)

text \<open>
  C20: the commands that kill source nodes and states are exactly those for the removed addresses, in
  the order of the entries: a drained node loses its source nodes only, any other node also its
  states, between two removals of its source nodes.
\<close>

theorem killed_states:
  assumes "pf_action sys"
  shows "kill_removed sys t to_del ss k =
     fold (run_pfctl sys) (concat (map (\<lambda>(a, ip). removal_commands t a ip) (removals to_del ss))) k"
  using assms by (rule kill_removed_commands)

theorem killed_states_witness:
  "kill_removed sample_pf ''web'' [''10.0.0.2'', ''10.0.0.3'']
     [removed_entry STATE_DOWNTIME ''10.0.0.2'', removed_entry STATE_DRAIN_SOFT ''10.0.0.3'', removed_entry STATE_ENABLED ''10.0.0.4''] (\<lambda>t. []) =
   fold (run_pfctl sample_pf)
     [kill_src_args ''web'' True ''10.0.0.2'', kill_states_args ''web'' ''10.0.0.2'', kill_src_args ''web'' True ''10.0.0.2'',
      kill_src_args ''web'' False ''10.0.0.3''] (\<lambda>t. [])"
proof -
  have on: "pf_action sample_pf" by (simp add: sample_pf_def)
  show ?thesis
    unfolding killed_states [OF on]
    by (simp add: removals_def removed_entry_def protos_def removal_commands_def c_str_def NUL_def)
qed

section \<open>The worker\<close>

text \<open>
  C24: a worker that receives \<open>SIGTERM\<close> finishes the message at hand, leaves its loop and reports
  success, whatever would come next.
\<close>

theorem sigterm_ends_worker:
  assumes "list_all (healthy sizeof_msg parent_pid) before" "healthy sizeof_msg parent_pid (i\<lparr>signals := []\<rparr>)"
    and "SIGTERM \<in> set (signals i)"
  shows "pfctl_worker_loop sys sizeof_msg parent_pid (before @ i # after) k =
           Loop_Returned True (fold (apply_msg sys) (messages (before @ [i])) k)"
proof -
  have "worker_iteration sys sizeof_msg parent_pid i True k' =
      Looping False (fold (apply_msg sys) (messages [i]) k')" for k'
    using assms(2,3) sigterm_stops [of "signals i" True]
    by (auto simp: worker_iteration_def Let_def healthy_def messages_def apply_msg_def split: receive.splits)
  then show ?thesis by (simp add: worker_loop_append [OF assms(1)]) (simp add: messages_def)
qed

theorem sigterm_ends_worker_witness:
  "pfctl_worker_loop sample_pf 42 7
     [\<lparr>received = Receive_Timeout, ppid = 7, signals = []\<rparr>, \<lparr>received = Receive_Timeout, ppid = 7, signals = [SIGTERM]\<rparr>] (\<lambda>t. []) =
   Loop_Returned True (\<lambda>t. [])"
  using sigterm_ends_worker [of 42 7 "[\<lparr>received = Receive_Timeout, ppid = 7, signals = []\<rparr>]"
      "\<lparr>received = Receive_Timeout, ppid = 7, signals = [SIGTERM]\<rparr>" sample_pf "[]" "\<lambda>t. []"]
  by (simp add: healthy_def messages_def)

text \<open>
  C31: without the permission to act, no message changes the packet filter.
\<close>

theorem dry_run_touches_nothing:
  assumes "\<not> pf_action sys" "pfctl_worker_loop sys sizeof_msg parent_pid iterations k = s"
  shows "s \<in> {Looping True k, Loop_Returned True k, Loop_Returned False k, Loop_Aborted k}"
proof -
  have "worker_while sys sizeof_msg parent_pid is (Looping b k) \<in>
      {Looping True k, Loop_Returned True k, Loop_Returned False k, Loop_Aborted k}" for "is" b
  proof (induction "is" arbitrary: b)
    case Nil
    show ?case by (cases b) simp_all
  next
    case (Cons i "is")
    then show ?case
      by (cases b) (auto simp: worker_iteration_def Let_def dry_sync [OF assms(1)] split: receive.splits)
  qed
  then show ?thesis using assms(2) by (auto simp: pfctl_worker_loop_def)
qed

theorem dry_run_touches_nothing_witness:
  "pfctl_worker_loop (sample_pf\<lparr>pf_action := False\<rparr>) 42 7 (receive_all [build_msg ''spare'' ''pool_spare'' [3] [3] sample_world]) (\<lambda>t. [''10.0.0.77''])
     \<in> {Looping True (\<lambda>t. [''10.0.0.77'']), Loop_Returned True (\<lambda>t. [''10.0.0.77'']),
        Loop_Returned False (\<lambda>t. [''10.0.0.77'']), Loop_Aborted (\<lambda>t. [''10.0.0.77''])}"
  by (rule dry_run_touches_nothing [OF _ refl]) simp

text \<open>A worker whose parent has died ends with a failure, however often it had to wait for the queue.\<close>

lemma orphaned_worker_fails:
  assumes "list_all (healthy sizeof_msg parent_pid) before" "ppid i \<noteq> parent_pid"
  shows "worker_process sys sizeof_msg parent_pid (replicate n (Interprocess_Exception 7) @ Opened mq # attempts) (before @ i # after) k =
           (Some (Exit 1), fold (apply_msg sys) (messages before) k)"
proof -
  have "attach_pfctl_queue (replicate n (Interprocess_Exception 7) @ Opened mq # attempts) = Some (Some mq)"
    by (induction n) simp_all
  moreover have "worker_iteration sys sizeof_msg parent_pid i True k' = Loop_Returned False k'" for k'
    using assms(2) by (simp add: worker_iteration_def Let_def split: receive.split)
  ultimately show ?thesis by (simp add: worker_process_def worker_loop_append [OF assms(1)])
qed

end
