(* ===== verification/Spec2Isabelle.thy ===== *)
theory Spec2Isabelle
  imports Pool_Properties Check_Properties Packet_Filter_Properties
begin

text \<open>
  A model of testtool, the daemon that checks the nodes behind a load balancer and keeps the
  tables of the packet filter in step with what it finds, and the properties proved of it.

  \<^bold>\<open>The program.\<close> One process (\<open>src/src/testtool.cpp\<close>) loads a JSON configuration into pools, nodes
  and health checks, then runs an event loop: every few milliseconds a scheduler starts the checks
  that are due, a finalizer ends the ones that timed out, a syncer sends pools without checks, a
  timer watches the child process, another writes the status file; the sockets of the checks call
  back with results. A result decides the state of its node (\<open>healthcheck.cpp\<close>, \<open>lb_node.cpp\<close>), the
  node's state decides which nodes of its pool get traffic (\<open>lb_pool.cpp\<close>), and a changed choice is
  sent through a message queue to the child process (\<open>pfctl_worker.cpp\<close>), which brings the table of
  the pool up to date with the command \<open>/sbin/pfctl\<close> (\<open>pfctl.cpp\<close>).

  \<^bold>\<open>State.\<close> The objects live in heaps from addresses to records (\<open>Objects\<close>): \<open>LbPool\<close>, \<open>LbNode\<close> and
  \<open>Healthcheck\<close>, whose derived classes are the datatype \<open>derived\<close>; pointers between them are
  addresses. The record \<open>world\<close> holds the heaps, the map of pools by name, the queue, the flag of
  the downtime file, the counters shared by the ping and DNS checks, and the datagrams that were
  sent. \<open>std::set\<close> and \<open>std::map\<close> are sorted lists (\<open>Prelude\<close>). Exceptions, \<open>exit\<close>, failed assertions
  and overflowed buffers are values of the type \<open>error\<close>; an operation returns \<open>error + world\<close>.
  Counters and flags have the widths of the source (16 bit words, \<open>to_int32\<close> for a result that is
  returned as \<open>int\<close>). Addresses are compared by the program, so the order of the nodes in a set is
  the order of their addresses; the properties hold for any allocator that returns unused ones.

  \<^bold>\<open>What is outside.\<close> The JSON library, libevent, libpq, the resolver, the clock, \<open>rand\<close>, the joining of
  strings by \<open>boost\<close> (\<open>algorithm_join\<close>), the message queue and \<open>pfctl\<close> are parameters: records of
  functions (\<open>json_lib\<close>, \<open>pf_sys\<close>, \<open>ctor_env\<close>, \<open>net_env\<close>), arguments of the operations, or inputs of an
  event (\<open>pq_answers\<close>, received bytes). What is relied on is stated where it is used:
  \<open>fresh_addresses\<close> (an allocator returns unused addresses), \<open>pfctl_contract\<close> (what the commands show,
  add, delete and kill do to the tables), \<open>never_fails\<close>, \<open>queue_contract\<close> (an accepted message is
  appended, a refused one changes nothing), \<open>accepting\<close> (the queue has room again).

  \<^bold>\<open>The theories\<close>, in the order of the code:
  \<^item> \<open>Prelude\<close>, \<open>Time_Helper\<close> (\<open>time_helper.cpp\<close>), \<open>Config\<close> (\<open>config.h\<close>: typed reads of JSON members),
    \<open>Objects\<close> (the headers; the heaps satisfy the locale \<open>object_store\<close>).
  \<^item> \<open>Pfctl_Msg\<close>: the message for the child process and \<open>send_message\<close>.
  \<^item> \<open>Lb_Pool\<close>: \<open>pool_logic\<close>, the loops that choose nodes, \<open>update_pfctl\<close>. \<open>Pool_Select\<close> proves that the
    choice refines \<open>pool_policy\<close> (the loops are interpretations of the locale \<open>bounded_add\<close>);
    \<open>Pool_Inv\<close>, \<open>Pool_World\<close> the invariants of one pool and of all pools, with the links to backup
    pools (the locale \<open>pool_calls\<close> is the induction over the calls between pools, for whatever a
    selection and a message keep); \<open>Pool_Total\<close> that the recursion ends.
  \<^item> \<open>Lb_Node\<close>: \<open>node_logic\<close>, \<open>change_downtime\<close>. \<open>Healthcheck\<close>: \<open>handle_result\<close>, \<open>schedule_healthcheck\<close>,
    \<open>end_check\<close>. \<open>Node_Health\<close>: the invariant \<open>live\<close> of the whole configuration, and the locales
    \<open>hc_operation\<close>, the contract every operation of a health check satisfies, and \<open>traversal\<close>, for the
    loops over all pools, their nodes and the checks of these.
  \<^item> \<open>Hc_Base\<close>, \<open>Hc_Tcp\<close>, \<open>Hc_Http\<close>, \<open>Hc_Dns\<close>, \<open>Hc_Ping\<close>, \<open>Hc_Postgres\<close>: the types of checks, each an
    interpretation of \<open>hc_operation\<close>.
  \<^item> \<open>Msg\<close> (\<open>msg.cpp\<close>): a log message as it is printed, and its reading back; \<open>Pool_Log\<close>, \<open>Check_Log\<close>: the
    handlers of pools, nodes and results with the lines they log. Erasure lemmas show that they do
    to the world what the handlers without them do, and reading the log back (\<open>read_log\<close>) tells the
    state of nodes and pools from its lines alone.
  \<^item> \<open>Construct\<close>: the constructors, the factory and \<open>load_config\<close>; \<open>Load_Inv\<close> proves that loading
    establishes \<open>live\<close>.
  \<^item> \<open>Pfctl\<close>, \<open>Pf_Sync\<close>: the commands of the packet filter and what \<open>pf_sync_table\<close> does to a table;
    \<open>Pfctl_Worker\<close>: the child process.
  \<^item> \<open>Testtool\<close>: the periodic tasks, downtimes, signals, status document; \<open>Status_File\<close>: how the document
    reaches the file system; \<open>Main_Loop\<close>: the event loop as the relation \<open>step\<close> with its reachable
    states; \<open>Downtimes\<close>: the effect of a downtime file.
  \<^item> \<open>Delivery\<close>: the messages in the queue against the selections of the pools; \<open>Delivery_Loop\<close>: every
    event of the loop is a run of \<open>core_step\<close>, an abstract machine of four kinds of steps (the locale
    \<open>shaped_operation\<close> extends \<open>hc_operation\<close>), from which delivery follows for all events;
    \<open>Delivery_Load\<close>: the same for loading; \<open>Retry\<close>: messages that a full queue refused.
  \<^item> \<open>Options\<close>: the command line and the usage message; \<open>Startup\<close>: \<open>main\<close> before and after the loop;
    \<open>Lifecycle\<close>: what the main process acquires and releases, in which order.
  \<^item> \<open>Pfctl_Example\<close>, \<open>Examples\<close>: concrete worlds, configurations and a packet filter on which the
    properties are applied.
  \<^item> \<open>Pool_Properties\<close>, \<open>Check_Properties\<close>, \<open>Packet_Filter_Properties\<close> and this theory: the properties.

  \<^bold>\<open>Bounds.\<close> \<open>pool_logic\<close> and \<open>update_pfctl\<close> call each other along the links from backup pools to the
  pools that use them; the recursion is bounded by a number, and running out of it is the error
  \<open>Unbounded_Recursion\<close>, which stands for the overflow of the stack. One more than the number of
  pools is enough when the links have no cycle (\<open>pool_logic_terminates\<close>), a larger bound changes
  nothing (\<open>pool_logic_fuel_irrelevant\<close>), and with a pool that is its own backup no bound is enough
  (\<open>self_backup_never_returns\<close>). All other loops are recursions with a termination proof, or run over
  the sequence of events the environment delivers.

  \<^bold>\<open>Not modelled.\<close> The log lines of constructors, of scheduling, of the single types of checks, of the
  child process and of \<open>pfctl.cpp\<close>: they report what these operations do and do not influence it. The
  JSON text of the status document (\<open>nlohmann::json::dump\<close> is a parameter). The inside of the
  libraries: the locking of the shared queue, the parsing of JSON, TLS, the sockets' own protocols.
  \<open>getopt\<close> is the one of POSIX, without the permutation of arguments that the GNU library adds; the
  daemon runs on FreeBSD.
\<close>

section \<open>Every state the daemon can reach\<close>

text \<open>
  C1: in every state the daemon reaches after loading a configuration without cycles of backup
  pools, every pool sends traffic to a set of nodes its policy admits, and is reported up exactly
  when that set is not empty.
\<close>

theorem reachable_pools_meet_policy:
  assumes "fresh_addresses env" "empty_world w" "distinct (map fst (json_items (lib env) config))"
    and "load_config env fuel0 try_send config (w, k) = Inr (w0, k0)" "acyclic (backup_rel w0)"
    and "reachable l (Suc (length (lb_pools w0))) try_send w0 (In_Loop w1)" "(key, p) \<in> set (lb_pools w1)"
  shows "pool_policy (get_pool p w1) (up_set (nodes (get_pool p w1)) w1) (enabled_set (nodes (get_pool p w1)) w1)
           (if backup_pool_active (get_pool p w1) then backup_set (get_pool p w1) w1 else None)
           (set (up_nodes (get_pool p w1))) \<and>
         (pool_state (get_pool p w1) = POOL_UP \<longleftrightarrow> up_nodes (get_pool p w1) \<noteq> [])"
proof -
  have "live (Suc (length (lb_pools w0))) w1" by (rule reachable_live(1) [OF load_config_live [OF assms(1-5)] assms(6)])
  from live_pool(1,2) [OF this assms(7)] show ?thesis by (intro conjI pool_inv_policy)
qed

theorem reachable_pools_meet_policy_witness:
  "\<exists>w0 k0. sample_load = Inr (w0, k0) \<and> (''main'', 0) \<in> set (lb_pools w0) \<and>
     (pool_state (get_pool 0 w0) = POOL_UP \<longleftrightarrow> up_nodes (get_pool 0 w0) \<noteq> [])"
proof -
  obtain w0 k0 where w0: "sample_load = Inr (w0, k0)" "lb_pools w0 = [(''main'', 0)]" "fault_policy (get_pool 0 w0) = FORCE_DOWN"
    by (rule sample_load_result)
  show ?thesis
    using reachable_pools_meet_policy [OF sample_fresh blank_empty sample_keys w0(1) [unfolded sample_load_def] sample_load_acyclic [OF w0(2,3)] initial, of "''main''" 0] w0 by (intro exI [of _ w0] exI [of _ k0]) simp
qed

text \<open>
  C2: no node in downtime or drain gets traffic in any reachable state; in a pool that is forced
  down when too few nodes are left, a node with traffic is up, and once it was checked all its
  checks pass.
\<close>

theorem traffic_only_to_enabled_nodes:
  assumes "live fuel w0" "reachable l fuel try_send w0 (In_Loop w)"
    and "(key, p) \<in> set (lb_pools w)" "n \<in> set (up_nodes (get_pool p w))"
  shows "admin_state (get_node n w) = STATE_ENABLED \<and>
         (fault_policy (get_pool p w) = FORCE_DOWN \<longrightarrow>
            is_up (get_node n w) \<and> (checked (get_node n w) \<longrightarrow> all_passed n w))"
  using live_traffic [OF reachable_live(1) [OF assms(1,2)] assms(3,4)] by blast

theorem traffic_only_to_enabled_nodes_witness:
  "(3::nat) \<in> set (up_nodes (get_pool 1 sample_world)) \<and> fault_policy (get_pool 1 sample_world) = FORCE_DOWN \<and>
   admin_state (get_node 3 sample_world) = STATE_ENABLED \<and> is_up (get_node 3 sample_world)"
  using traffic_only_to_enabled_nodes [OF sample_live initial, of "''spare''" 1 3]
  by (simp add: sample_pool_def)

text \<open>
  C10: a configuration that was loaded, whose backup pools have no cycle, satisfies the invariant
  of the daemon, and its pools are among the entries of the file.
\<close>

theorem loading_establishes_invariant:
  assumes "fresh_addresses env" "empty_world w" "distinct (map fst (json_items (lib env) config))"
    and "load_config env fuel0 try_send config (w, k) = Inr (w0, k0)" "acyclic (backup_rel w0)"
  shows "live (Suc (length (lb_pools w0))) w0 \<and> fst ` set (lb_pools w0) \<subseteq> set (map fst (json_items (lib env) config))"
proof -
  have "lb_pools w = []" using assms(2) by (simp add: empty_world_def)
  then have "fst ` set (lb_pools w0) \<subseteq> set (map fst (json_items (lib env) config))"
    using load_pools_loaded [OF assms(1) empty_world_loaded [OF assms(2)] assms(3)] assms(4) by (simp add: load_config_def)
  then show ?thesis using load_config_live [OF assms] by simp
qed

theorem loading_establishes_invariant_witness:
  "\<exists>w0 k0. sample_load = Inr (w0, k0) \<and> lb_pools w0 = [(''main'', 0)] \<and> live 2 w0"
proof -
  obtain w0 k0 where w0: "sample_load = Inr (w0, k0)" "lb_pools w0 = [(''main'', 0)]" "fault_policy (get_pool 0 w0) = FORCE_DOWN"
    by (rule sample_load_result)
  have "live 2 w0"
    using loading_establishes_invariant [OF sample_fresh blank_empty sample_keys w0(1) [unfolded sample_load_def] sample_load_acyclic [OF w0(2,3)]] w0(2)
    by (simp add: numeral_2_eq_2)
  with w0 show ?thesis by blast
qed



section \<open>From the result of a check to the packet filter\<close>

text \<open>
  C6: after a check has ended, its node gets traffic from a pool without upper limit and with
  enough nodes exactly when all checks of the node pass and it is enabled.
\<close>

theorem traffic_follows_health:
  assumes "live fuel w" "attached hc w" "end_check fuel try_send hc r w = Inr w'"
    and "n = parent_lbnode (get_hc hc w)" "p = parent_lbpool (get_node n w)"
    and "max_nodes (get_pool p w) = 0" "min_nodes (get_pool p w) \<le> card (up_set (nodes (get_pool p w)) w')"
  shows "n \<in> set (up_nodes (get_pool p w')) \<longleftrightarrow> all_passed n w' \<and> admin_state (get_node n w') = STATE_ENABLED"
proof -
  note e = end_check_node [OF assms(1-3), folded assms(4)]
  have "r \<noteq> HC_PANIC" using assms(3) by (auto simp: end_check_eq)
  from end_check_live [OF assms(1,2) this, of try_send] assms(3) have cfg: "same_config w w'" by auto
  then have reg: "registered n w'" "p = parent_lbpool (get_node n w')"
    using assms(2,4,5) same_config_registered [OF cfg, of n] by (simp_all add: attached_def same_config_def)
  then have p: "(pool_name (get_pool p w'), p) \<in> set (lb_pools w')" "n \<in> set (nodes (get_pool p w'))"
    by (simp_all add: registered_def Let_def)
  have "nodes (get_pool p w') = nodes (get_pool p w)" using cfg by (simp add: same_config_def)
  then have "set (up_nodes (get_pool p w')) \<subseteq> up_set (nodes (get_pool p w')) w'"
    "card (set (up_nodes (get_pool p w'))) = card (up_set (nodes (get_pool p w')) w')"
    using pool_inv_policy(1) [OF live_pool(1,2) [OF e(4) p(1)]] assms(6,7) end_check_limits [OF assms(3), of p]
    by (auto simp: pool_policy_def)
  then have "set (up_nodes (get_pool p w')) = up_set (nodes (get_pool p w')) w'"
    by (intro card_subset_eq) simp_all
  then show ?thesis using e(1,2) p(2) by (auto simp: up_set_def is_up_def)
qed

theorem traffic_follows_health_witness:
  "\<exists>w'. end_check 3 list_send 3 HC_FAIL sample_world = Inr w' \<and>
     (3 \<in> set (up_nodes (get_pool 1 w')) \<longleftrightarrow> all_passed 3 w' \<and> admin_state (get_node 3 w') = STATE_ENABLED)"
proof -
  obtain w' where run: "end_check 3 list_send 3 HC_FAIL sample_world = Inr w'"
    using end_check_live [OF sample_live sample_attached, of 3 HC_FAIL list_send] by auto
  have "3 \<in> set (up_nodes (get_pool 1 w')) \<longleftrightarrow> all_passed 3 w' \<and> admin_state (get_node 3 w') = STATE_ENABLED"
    by (rule traffic_follows_health [OF sample_live sample_attached run])
       (simp_all add: sample_hc_def, simp_all add: sample_node_def sample_pool_def)
  with run show ?thesis by blast
qed





text \<open>
  C9: whatever events the environment delivers, the daemon makes only four kinds of steps that
  concern nodes, pools and queue: members of checks change, a registered check ends, a node gets
  another administrative state, a pool is sent again.
\<close>

theorem events_refine_core:
  assumes "live fuel w0" "reachable l fuel try_send w0 (In_Loop w)"
  shows "(core_step fuel try_send)\<^sup>*\<^sup>* w0 w"
  by (rule reachable_core [OF assms])

theorem events_refine_core_witness:
  "\<exists>w. reachable plain_json 3 list_send sample_world (In_Loop w) \<and> check_downtimes w \<and>
     (core_step 3 list_send)\<^sup>*\<^sup>* sample_world w"
proof -
  let ?w = "sample_world\<lparr>check_downtimes := True\<rparr>"
  have "step plain_json 3 list_send (In_Loop sample_world) (dispatch plain_json 3 list_send (Ev_Signal SIGUSR1) sample_world)"
    by (rule fire) simp
  then have "reachable plain_json 3 list_send sample_world (In_Loop ?w)"
    using further [OF initial] by (simp add: signal_handler_def)
  from this events_refine_core [OF sample_live this] show ?thesis by (intro exI [of _ ?w]) simp
qed

text \<open>
  C14: a message the queue had no room for is sent again: once the queue accepts messages, the end of
  any check of a pool leaves this pool synchronised, and the periodic task for pools without checks
  leaves all of them synchronised.
\<close>

theorem delayed_messages_are_retried:
  assumes "live fuel w" "accepting try_send" "attached hc w" "r \<noteq> HC_PANIC"
  shows "(\<exists>w'. end_check fuel try_send hc r w = Inr w' \<and>
            pf_synced (get_pool (parent_lbpool (get_node (parent_lbnode (get_hc hc w)) w)) w')) \<and>
         (\<exists>w'. sync_lbpools_without_healthchecks fuel try_send w = Inr w' \<and>
            (\<forall>(k, p) \<in> set (lb_pools w'). \<not> has_hcs (get_pool p w') \<longrightarrow> pf_synced (get_pool p w')))"
proof
  obtain w' where w': "end_check fuel try_send hc r w = Inr w'"
    using end_check_live [OF assms(1,3,4), of try_send] by blast
  then show "\<exists>w'. end_check fuel try_send hc r w = Inr w' \<and>
      pf_synced (get_pool (parent_lbpool (get_node (parent_lbnode (get_hc hc w)) w)) w')"
    using end_check_waiting [OF assms(2,3) w'] by (auto simp: waiting_def)
  obtain w'' where w'': "sync_lbpools_without_healthchecks fuel try_send w = Inr w''"
    using sync_outcome [OF assms(1), of try_send] by (auto simp: outcome_def split: sum.splits)
  note run = w'' [unfolded sync_lbpools_without_healthchecks_def]
  have "lb_pools w'' = lb_pools w" using static_eq_world(1) [OF for_each_sync_static [OF run]] .
  then show "\<exists>w'. sync_lbpools_without_healthchecks fuel try_send w = Inr w' \<and>
      (\<forall>(k, p) \<in> set (lb_pools w'). \<not> has_hcs (get_pool p w') \<longrightarrow> pf_synced (get_pool p w'))"
    using syncer_waiting [OF assms(2) run] w'' by (intro exI [of _ w'']) (auto simp: waiting_def)
qed

theorem delayed_messages_are_retried_witness:
  "\<not> pf_synced (get_pool 1 unsynced_world) \<and>
   (\<exists>w'. end_check 3 roomy_send 3 HC_PASS unsynced_world = Inr w' \<and> pf_synced (get_pool 1 w'))"
proof -
  have "accepting roomy_send" by (simp add: accepting_def roomy_send_def)
  moreover have "parent_lbpool (get_node (parent_lbnode (get_hc 3 unsynced_world)) unsynced_world) = 1"
    by (simp add: unsynced_world_def sample_hc_def) (simp add: sample_node_def)
  ultimately show ?thesis
    using delayed_messages_are_retried [OF unsynced_live _ unsynced_attached, of roomy_send HC_PASS]
    by (simp add: unsynced_world_def)
qed

section \<open>Start\<close>

text \<open>
  C37: a daemon that reached its main loop without cycles among the backup pools satisfies the
  invariant, has a child process, and has left the packet filter alone when it was started with \<open>-n\<close>.
\<close>

theorem startup_establishes_invariant:
  assumes "fresh_addresses env" "lb_pools w = []"
    and "main_init env file args fork_pid queue ssl own_pid answers fuel try_send (w, k) = Inr (Some (st, worker_pid, w0, k0))"
    and "file (config_file_name st) = Some config" "distinct (map fst (json_items (lib env) config))" "acyclic (backup_rel w0)"
  shows "live (Suc (length (lb_pools w0))) w0 \<and> worker_pid \<noteq> -1 \<and>
         (options_given (CHR ''n'') (getopt optstring args) \<noteq> [] \<longrightarrow> k0 = k)"
proof -
  let ?env = "env\<lparr>pf := (pf env)\<lparr>pf_action := pf_action_set st\<rparr>\<rparr>"
  obtain q where run: "main_options args = Inr st" "worker_pid \<noteq> -1"
    "load_config ?env fuel try_send config (w\<lparr>ping_id := word_of_int own_pid, seq_map := (\<lambda>s. None), pfctl_mq := q\<rparr>, k) = Inr (w0, k0)"
    using assms(3,4)
    by (auto simp: main_init_def bind_result_Inr_iff ping_initialize_def start_pfctl_worker_def split: if_splits option.splits)
  have "live (Suc (length (lb_pools w0))) w0"
    by (rule load_config_live [OF _ _ _ run(3) assms(6)])
       (use assms(1,2,5) in \<open>simp_all add: fresh_addresses_def empty_world_def\<close>)
  moreover have "k0 = k" if "options_given (CHR ''n'') (getopt optstring args) \<noteq> []"
  proof -
    have "\<not> pf_action (pf ?env)" using run(1) that by (auto simp: main_options_def parse_options_eq split: if_splits)
    from dry_load [OF this run(3) [unfolded load_config_def]] show ?thesis by simp
  qed
  ultimately show ?thesis using run(2) by blast
qed

theorem startup_establishes_invariant_witness:
  "\<exists>st w0 k0. main_init sample_env (\<lambda>f. Some sample_config) [''-n''] 1234 (Opened []) True 4711 [True, True, True, True, True] 2 list_send
       (blank_world, \<lambda>t. []) = Inr (Some (st, 1234, w0, k0)) \<and> live 2 w0 \<and> k0 = (\<lambda>t. [])"
proof -
  obtain w0 k0 where w0: "sample_load = Inr (w0, k0)" "lb_pools w0 = [(''main'', 0)]" "fault_policy (get_pool 0 w0) = FORCE_DOWN"
    by (rule sample_load_result)
  have "blank_world\<lparr>ping_id := 4711, seq_map := (\<lambda>s. None), pfctl_mq := []\<rparr> = blank_world"
    by (simp add: blank_world_def sample_world_def)
  moreover have "main_options [''-n''] = Inr (default_settings\<lparr>pf_action_set := False\<rparr>)"
    by (simp add: main_options_def optstring_def)
  ultimately have run: "main_init sample_env (\<lambda>f. Some sample_config) [''-n''] 1234 (Opened []) True 4711 [True, True, True, True, True] 2 list_send
       (blank_world, \<lambda>t. []) = Inr (Some (default_settings\<lparr>pf_action_set := False\<rparr>, 1234, w0, k0))"
    using w0(1) by (simp add: main_init_def start_pfctl_worker_def new_pfctl_queue_def ping_initialize_def sample_load_def
        sample_env_def numeral_2_eq_2)
  have keys: "distinct (map fst (json_items (lib sample_env) sample_config))" by (rule sample_keys)
  show ?thesis
    using startup_establishes_invariant [OF sample_fresh _ run refl keys sample_load_acyclic [OF w0(2,3)]] blank_empty run w0(2)
    by (auto simp: empty_world_def options_given_def optstring_def numeral_2_eq_2)
qed



text \<open>
  C39: for any settings there is a command line that asks for them, with the flags in one word, and
  the options a user can give are exactly those the usage message documents.
\<close>

theorem command_line_round_trip:
  assumes "0 \<le> verbose_pfctl st" "0 \<le> verbose st"
  shows "main_options (command_line st) = Inr st \<and> (documented c \<longleftrightarrow> option_kind optstring c \<noteq> None)"
  using main_options_command_line [OF assms] usage_documents by blast

theorem command_line_round_trip_witness:
  "command_line (default_settings\<lparr>pf_action_set := False, verbose := 2\<rparr>) = [''-nvv'', ''-f'', ''/etc/iglb/lbpools.json''] \<and>
   main_options [''-nvv'', ''-f'', ''/etc/iglb/lbpools.json''] = Inr (default_settings\<lparr>pf_action_set := False, verbose := 2\<rparr>)"
proof -
  let ?st = "default_settings\<lparr>pf_action_set := False, verbose := 2\<rparr>"
  have cl: "command_line ?st = [''-nvv'', ''-f'', ''/etc/iglb/lbpools.json'']"
    by (simp add: command_line_def default_settings_def numeral_2_eq_2)
  have "main_options (command_line ?st) = Inr ?st"
    using command_line_round_trip [of ?st] by (simp add: default_settings_def)
  then show ?thesis using cl by simp
qed

text \<open>The options decide the settings, in whatever order they are given.\<close>

lemma options_decide_settings:
  "main_options args =
     (let opts = getopt optstring args in
      if options_given (CHR ''h'') opts \<noteq> [] then Inl (Exit 0)
      else Inr \<lparr>config_file_name = last (''/etc/iglb/lbpools.json'' # options_given (CHR ''f'') opts),
                pf_action_set = (options_given (CHR ''n'') opts = []),
                verbose_pfctl = int (length (options_given (CHR ''p'') opts)),
                verbose = int (length (options_given (CHR ''v'') opts))\<rparr>)"
  by (simp add: main_options_def parse_options_eq default_settings_def Let_def)

end
